(* ===== verification/Bafs_Prelude.thy ===== *)
theory Bafs_Prelude
  imports Main "HOL-Library.Word" "HOL-Library.Monad_Syntax"
begin

unbundle bit_operations_syntax

text \<open>
  The shared layer of the development: machine words, checked array access, the
  number of entries of a finite map with a property (the library's way of counting the
  owners of a reference count), facts on the option monad and the page arithmetic of
  \<^verbatim>\<open>mem.c\<close>. Nothing here models a part of the driver.
\<close>

section \<open>Collections of rules\<close>

named_theorems prim_simps \<open>equations of the kernel primitives\<close>
named_theorems layout_simps \<open>equations of the page arithmetic\<close>

type_synonym addr = nat
type_synonym u32 = "32 word"
type_synonym u64 = "64 word"

section \<open>Checked access to a C array\<close>

text \<open>An access outside the array is \<open>None\<close>: the run stops there.\<close>

definition nth_opt :: "'a list \<Rightarrow> nat \<Rightarrow> 'a option" where
  "nth_opt xs i = (if i < length xs then Some (xs ! i) else None)"

lemma nth_opt_Some [simp]: "i < length xs \<Longrightarrow> nth_opt xs i = Some (xs ! i)"
  by (simp add: nth_opt_def)

lemma nth_opt_None [simp]: "length xs \<le> i \<Longrightarrow> nth_opt xs i = None"
  by (simp add: nth_opt_def)

lemma nth_opt_eq_Some: "nth_opt xs i = Some y \<longleftrightarrow> i < length xs \<and> xs ! i = y"
  by (auto simp: nth_opt_def)

section \<open>The option monad\<close>

lemma bind_None_iff: "Option.bind x f = None \<longleftrightarrow> x = None \<or> (\<exists>y. x = Some y \<and> f y = None)"
  by (cases x) auto

lemma bind_SomeE:
  assumes "Option.bind x f = Some y"
  obtains a where "x = Some a" and "f a = Some y"
  using assms by (cases x) auto

text \<open>
  Total correctness of a run: it ends with a result, and the result has the property. The
  rules compute it along a \<open>do\<close> block, as weakest preconditions do.
\<close>

definition yields :: "'a option \<Rightarrow> ('a \<Rightarrow> bool) \<Rightarrow> bool" where
  "yields r Q \<longleftrightarrow> (case r of None \<Rightarrow> False | Some x \<Rightarrow> Q x)"

lemma yields_Some [simp]: "yields (Some x) Q = Q x"
  by (simp add: yields_def)

lemma yields_None [simp]: "yields None Q = False"
  by (simp add: yields_def)

lemma yields_bind [simp]: "yields (Option.bind r f) Q = yields r (\<lambda>x. yields (f x) Q)"
  by (cases r) simp_all

lemma yields_if [simp]: "yields (if b then r else r') Q = (if b then yields r Q else yields r' Q)"
  by simp

lemma yieldsE:
  assumes "yields r Q"
  obtains x where "r = Some x" and "Q x"
  using assms by (cases r) auto

lemma yieldsI: "r = Some x \<Longrightarrow> Q x \<Longrightarrow> yields r Q"
  by simp

lemma yields_iff: "yields r Q \<longleftrightarrow> (\<exists>x. r = Some x \<and> Q x)"
  by (cases r) auto

lemma yields_mono: "yields r Q \<Longrightarrow> (\<And>x. r = Some x \<Longrightarrow> Q x \<Longrightarrow> Q' x) \<Longrightarrow> yields r Q'"
  by (cases r) auto

lemma yields_conj: "yields r Q \<Longrightarrow> yields r Q' \<Longrightarrow> yields r (\<lambda>x. Q x \<and> Q' x)"
  by (cases r) auto

section \<open>Weighted sums over finite maps\<close>

definition summ :: "('v \<Rightarrow> nat) \<Rightarrow> ('k \<rightharpoonup> 'v) \<Rightarrow> nat" where
  "summ w m = (\<Sum>k\<in>dom m. w (the (m k)))"

lemma summ_empty [simp]: "summ w Map.empty = 0"
  by (simp add: summ_def)

lemma summ_del:
  assumes "finite (dom m)" and "m k = Some v"
  shows "summ w m = w v + summ w (m(k := None))"
proof -
  have k: "k \<in> dom m" using assms(2) by auto
  have "summ w m = w (the (m k)) + (\<Sum>j\<in>dom m - {k}. w (the (m j)))"
    unfolding summ_def by (rule sum.remove [OF assms(1) k])
  also have "(\<Sum>j\<in>dom m - {k}. w (the (m j))) = summ w (m(k := None))"
    unfolding summ_def by (rule sum.cong) auto
  finally show ?thesis using assms(2) by simp
qed

lemma summ_upd_le:
  assumes "finite (dom m)"
  shows "summ w (m(k \<mapsto> v)) \<le> summ w m + w v"
proof -
  have "summ w (m(k \<mapsto> v)) = w v + summ w (m(k := None))"
    using summ_del [of "m(k \<mapsto> v)" k v w] assms by simp
  moreover have "summ w (m(k := None)) \<le> summ w m"
    using summ_del [OF assms, of k _ w] by (cases "m k") (auto simp: fun_upd_idem)
  ultimately show ?thesis by simp
qed

lemma summ_del_le: "finite (dom m) \<Longrightarrow> summ w (m(k := None)) \<le> summ w m"
  using summ_del [of m k _ w] by (cases "m k") (auto simp: fun_upd_idem)

lemma summ_mem: "finite (dom m) \<Longrightarrow> m k = Some v \<Longrightarrow> w v \<le> summ w m"
  using summ_del [of m k v w] by simp

section \<open>Page arithmetic\<close>

text \<open>
  \<open>(size + page_size - 1) >> page_shift\<close> of \<^verbatim>\<open>mem.c\<close>, on 64-bit words, is the rounded-up
  quotient whenever the sum does not wrap.
\<close>

lemma unat_of_nat_small: "n < 2 ^ LENGTH('a) \<Longrightarrow> unat (of_nat n :: 'a::len word) = n"
  by (simp add: unat_of_nat take_bit_eq_mod)

lemma unat_exp_u64:
  assumes "k < 64"
  shows "unat (2 ^ k :: u64) = 2 ^ k"
proof -
  have "(2 :: nat) ^ k < 2 ^ 64"
    using assms by (intro power_strict_increasing) auto
  then show ?thesis
    using unat_of_nat_small [where 'a = 64, of "2 ^ k"] by simp
qed

lemma unat_exp_minus_one_u64: "k < 64 \<Longrightarrow> unat (2 ^ k - 1 :: u64) = 2 ^ k - 1"
  by (simp add: unat_sub_if' unat_exp_u64)

lemma unat_page_count [layout_simps]:
  fixes size :: u64
  assumes k: "k < 64" and fit: "unat size + 2 ^ k \<le> 2 ^ 64"
  shows "unat (drop_bit k (size + 2 ^ k - 1)) = (unat size + 2 ^ k - 1) div 2 ^ k"
proof -
  have m1: "unat (2 ^ k - 1 :: u64) = 2 ^ k - 1"
    using k by (rule unat_exp_minus_one_u64)
  have "(2 :: nat) ^ k \<ge> 1" by simp
  then have bnd: "unat size + (2 ^ k - 1) < 2 ^ 64"
    using fit by linarith
  have sum: "unat (size + (2 ^ k - 1)) = unat size + (2 ^ k - 1)"
    using bnd m1 by (simp add: unat_add_lem [THEN iffD1])
  have "unat (drop_bit k (size + 2 ^ k - 1)) = drop_bit k (unat (size + (2 ^ k - 1)))"
    by (simp only: unat_drop_bit_eq add_diff_eq)
  then show ?thesis
    by (simp only: sum drop_bit_eq_div) simp
qed

end
