(* ===== verification/Bafs_Types.thy ===== *)
theory Bafs_Types
  imports Bafs_Prelude
begin

text \<open>
  The data of the driver: the constants and ioctl parameter blocks of
  \<^verbatim>\<open>module/include/linux/bafs.h\<close>, the structures of
  \<^verbatim>\<open>module/include/linux/bafs/types.h\<close> and the device names of
  \<^verbatim>\<open>module/include/linux/bafs/util.h\<close>. A pointer to an object of the driver is an
  \<open>addr\<close>; a C \<open>unsigned long\<close> is 64 bits wide, an \<open>unsigned\<close> 32 bits. The
  \<open>spinlock_t\<close> and \<open>struct kref\<close> members of a structure are kept apart from it (theory
  \<open>Bafs_World\<close>): the set of held locks and the table of reference counts.
\<close>

section \<open>Constants and error codes\<close>

definition BAFS_MEM_CPU :: u32 where "BAFS_MEM_CPU = 0"
definition BAFS_MEM_CUDA :: u32 where "BAFS_MEM_CUDA = 1"
definition MAX_NAME_LEN :: nat where "MAX_NAME_LEN = 20"

text \<open>The kernel's page size on the driver's platform (x86-64) and the errno values it uses.\<close>

abbreviation PAGE_SHIFT :: nat where "PAGE_SHIFT \<equiv> 12"
abbreviation PAGE_SIZE :: u64 where "PAGE_SIZE \<equiv> 4096"

abbreviation ENOMEM :: int where "ENOMEM \<equiv> 12"
abbreviation EFAULT :: int where "EFAULT \<equiv> 14"
abbreviation EBUSY :: int where "EBUSY \<equiv> 16"
abbreviation EINVAL :: int where "EINVAL \<equiv> 22"
abbreviation EBADF :: int where "EBADF \<equiv> 9"

section \<open>ioctl parameter blocks and command numbers\<close>

record BAFS_IOC_REG_MEM_PARAMS =
  rm_size :: u32
  rm_loc :: u32
  rm_handle :: u32

record BAFS_IOC_DMA_MAP_MEM_PARAMS =
  dm_vaddr :: u64
  dm_dma_addrs :: u64
  dm_n_dma_addrs :: u32

record BAFS_CORE_IOC_CREATE_GROUP_PARAMS =
  cg_n_ctrls :: u32
  cg_ctrls :: u64
  cg_group_name :: u64

record BAFS_CORE_IOC_DELETE_GROUP_PARAMS =
  dg_group_name :: u64

text \<open>
  The kernel's \<open>_IOWR(type, nr, size)\<close>: direction 3 in bits 30-31, the size of the block in
  bits 16-29, the type in bits 8-15, the number in bits 0-7. The sizes are those of the
  four blocks on a 64-bit machine: 12, 24, 24 and 8 bytes.
\<close>

definition IOWR :: "u32 \<Rightarrow> u32 \<Rightarrow> u32 \<Rightarrow> u32" where
  "IOWR ty nr sz = push_bit 30 3 OR push_bit 16 sz OR push_bit 8 ty OR nr"

definition IOC_TYPE :: "u32 \<Rightarrow> u32" where
  "IOC_TYPE cmd = drop_bit 8 cmd AND 255"

definition BAFS_CORE_IOCTL :: u32 where "BAFS_CORE_IOCTL = 0x80"
definition BAFS_CTRL_IOCTL :: u32 where "BAFS_CTRL_IOCTL = 0x81"
definition BAFS_GROUP_IOCTL :: u32 where "BAFS_GROUP_IOCTL = 0x82"

definition BAFS_CORE_IOC_REG_MEM :: u32 where
  "BAFS_CORE_IOC_REG_MEM = IOWR BAFS_CORE_IOCTL 1 12"
definition BAFS_CORE_IOC_CREATE_GROUP :: u32 where
  "BAFS_CORE_IOC_CREATE_GROUP = IOWR BAFS_CORE_IOCTL 2 24"
definition BAFS_CORE_IOC_DELETE_GROUP :: u32 where
  "BAFS_CORE_IOC_DELETE_GROUP = IOWR BAFS_CORE_IOCTL 3 8"
definition BAFS_CTRL_IOC_REG_MEM :: u32 where
  "BAFS_CTRL_IOC_REG_MEM = IOWR BAFS_CTRL_IOCTL 1 12"
definition BAFS_CTRL_IOC_DMA_MAP_MEM :: u32 where
  "BAFS_CTRL_IOC_DMA_MAP_MEM = IOWR BAFS_CTRL_IOCTL 2 24"
definition BAFS_GROUP_IOC_REG_MEM :: u32 where
  "BAFS_GROUP_IOC_REG_MEM = IOWR BAFS_GROUP_IOCTL 1 12"
definition BAFS_GROUP_IOC_DMA_MAP_MEM :: u32 where
  "BAFS_GROUP_IOC_DMA_MAP_MEM = IOWR BAFS_GROUP_IOCTL 2 24"

section \<open>Structures of the driver\<close>

datatype STATE = STALE | LIVE | DEAD | DEAD_CB

record bafs_ctx =
  bafs_mem_xa :: "u32 \<rightharpoonup> addr"
  mem_list :: "addr list"
  ctx_tgid :: nat

text \<open>
  The page table that the NVIDIA driver returns: whether its version is compatible, its
  page size code, its number of entries and the physical address of each page.
\<close>

datatype p2p_page_size = NVIDIA_P2P_PAGE_SIZE_4KB | NVIDIA_P2P_PAGE_SIZE_64KB
  | NVIDIA_P2P_PAGE_SIZE_128KB | NVIDIA_P2P_PAGE_SIZE_OTHER

record cuda_pt =
  pt_compatible :: bool
  pt_page_size :: p2p_page_size
  pt_entries :: u32
  pt_phys :: "u64 list"

record bafs_mem =
  mem_ctx :: addr
  dma_list :: "addr list"
  mem_id :: u32
  mem_loc :: u32
  mem_state :: STATE
  mem_vaddr :: u64
  mem_size :: u64
  page_size :: u64
  page_shift :: nat
  page_mask :: u64
  n_pages :: u64
  cuda_page_table :: "cuda_pt option"
  cpu_page_table :: "addr option list option"

record bafs_mem_dma =
  dma_mem :: addr
  dma_ctrl :: addr
  cuda_mapping :: "u64 list option"
  n_addrs :: u64
  dma_addrs :: "u64 list option"
  map_gran :: u32

record bafs_ctrl =
  pdev :: nat
  ctrl_minor :: int
  ctrl_id :: int

record bafs_group =
  group_id :: int
  group_minor :: int
  group_ctrls :: "addr list"

text \<open>\<open>struct bafs_ctrl_ctx\<close> and \<open>struct bafs_group_ctx\<close>: what an open file points to.\<close>

datatype private_data = PNull | PCore addr
  | PCtrl addr addr \<comment> \<open>\<open>bafs_ctrl_ctx\<close>: controller, context\<close>
  | PGroup addr addr \<comment> \<open>\<open>bafs_group_ctx\<close>: group, context\<close>

text \<open>The fields of \<open>struct vm_area_struct\<close> that the driver reads and writes.\<close>

record vm_area =
  vm_start :: u64
  vm_pgoff :: u64
  vm_private_data :: "addr option"
  vm_ops_set :: bool
  vm_noncached :: bool
  vm_flags :: u64

definition VM_DONTCOPY :: u64 where "VM_DONTCOPY = 0x00020000"
definition VM_DONTEXPAND :: u64 where "VM_DONTEXPAND = 0x00040000"

section \<open>Device names\<close>

definition digit :: "nat \<Rightarrow> char" where
  "digit d = char_of (48 + d mod 10)"

fun print_nat :: "nat \<Rightarrow> string" where
  "print_nat n = (if n < 10 then [digit n] else print_nat (n div 10) @ [digit n])"

declare print_nat.simps [simp del]

definition BAFS_CORE_CLASS_NAME :: string where "BAFS_CORE_CLASS_NAME = ''bafs''"
definition BAFS_CTRL_CLASS_NAME :: string where "BAFS_CTRL_CLASS_NAME = ''bafsc''"
definition BAFS_GROUP_CLASS_NAME :: string where "BAFS_GROUP_CLASS_NAME = ''bafsg''"

text \<open>The format strings \<open>"bafsc%d"\<close> and \<open>"bafsg%d"\<close>; the driver's ids are not negative.\<close>

definition BAFS_CTRL_DEVICE_NAME :: "int \<Rightarrow> string" where
  "BAFS_CTRL_DEVICE_NAME i = ''bafsc'' @ print_nat (nat i)"
definition BAFS_GROUP_DEVICE_NAME :: "int \<Rightarrow> string" where
  "BAFS_GROUP_DEVICE_NAME i = ''bafsg'' @ print_nat (nat i)"

end
