(* ===== verification/Bafs_World.thy ===== *)
theory Bafs_World
  imports Bafs_Types
begin

text \<open>
  The kernel as the driver sees it. \<open>kernel\<close> holds the answers of the code outside the
  driver: the n-th external call of a run gets the answer at n, so that every sequence of
  successes and failures is some \<open>kernel\<close>. \<open>world\<close> is the state: the driver's objects
  by address, their reference counts, the held spin locks, a ledger that counts what has been
  acquired from the kernel and not yet given back, and user memory. A primitive that the
  kernel forbids (a freed object, a count that is zero, a lock that is already held, a
  release of what is not owned) is \<open>None\<close>, and a run that meets one stops there.
\<close>

section \<open>Answers of the code outside the driver\<close>

datatype call = VmMapPagesZero | IoRemapPfnRange | P2pGetPages | P2pDmaMapPages
  | PciRequestRegion | PciEnableDevice | CdevAdd | DeviceCreate | ClassCreate
  | AllocChrdevRegion | PciRegisterDriver

record kernel =
  k_alloc :: "nat \<Rightarrow> bool"
  k_copy :: "nat \<Rightarrow> bool"
  k_pid :: "nat \<Rightarrow> bool"
  k_xa_store :: "nat \<Rightarrow> bool"
  k_xa_index :: "nat \<Rightarrow> (u32 \<Rightarrow> bool) \<Rightarrow> u32 option"
  k_ida :: "nat \<Rightarrow> nat set \<Rightarrow> int"
  k_dma_map :: "nat \<Rightarrow> u64 option"
  k_ret :: "call \<Rightarrow> nat \<Rightarrow> int"
  k_p2p_table :: "nat \<Rightarrow> cuda_pt"
  k_p2p_addrs :: "nat \<Rightarrow> u64 list"
  k_bar_start :: "nat \<Rightarrow> u64"
  k_bar_len :: "nat \<Rightarrow> u64"
  k_put_frees_table :: bool
  k_unmap_frees_mapping :: bool

text \<open>
  What the driver relies on, from the documentation of these interfaces: \<open>xa_alloc\<close> picks
  an unused index within \<open>xa_limit_31b\<close>, \<open>ida_simple_get\<close> an unused id, and a call that
  returns an \<open>int\<close> returns zero or a negative error.
\<close>

definition xa_index_ok :: "kernel \<Rightarrow> bool" where
  "xa_index_ok K \<longleftrightarrow> (\<forall>n used i. k_xa_index K n used = Some i \<longrightarrow> \<not> used i \<and> unat i < 2 ^ 31)"

definition ida_ok :: "kernel \<Rightarrow> bool" where
  "ida_ok K \<longleftrightarrow> (\<forall>n U. 0 \<le> k_ida K n U \<longrightarrow> nat (k_ida K n U) \<notin> U)"

definition ret_ok :: "kernel \<Rightarrow> bool" where
  "ret_ok K \<longleftrightarrow> (\<forall>c n. k_ret K c n \<le> 0)"

lemma ida_notin: "ida_ok K \<Longrightarrow> \<not> k_ida K n U < 0 \<Longrightarrow> nat (k_ida K n U) \<notin> U"
  by (simp add: ida_ok_def)

lemma ida_diff: "ida_ok K \<Longrightarrow> \<not> k_ida K n U < 0 \<Longrightarrow> U - {nat (k_ida K n U)} = U"
  using ida_notin by blast

lemma xa_index_fresh:
  "xa_index_ok K \<Longrightarrow> k_xa_index K n used = Some i \<Longrightarrow> \<not> used i \<and> unat i < 2 ^ 31"
  unfolding xa_index_ok_def by blast

section \<open>The state\<close>

datatype kobj = KCtx addr | KMem addr | KCtrl addr | KGroup addr

datatype lock = CtxLock addr | MemLock addr | GroupLock addr

datatype device = CoreDev | PciDev nat | ChildDev int

datatype buf = PageArray | DmaAddrs | DmaPtrs | CtrlNames | DevPtrs | GroupCtrls | FileCtx

datatype resource = PidRef nat | Buf buf | Page addr | CudaPin addr | CudaTable addr
  | CudaDmaMap addr | CudaMapping addr | DmaMap nat u64 u32 | DevRef device | PciRegion nat
  | PciEnabled nat | PciMaster nat | Cdev int | DevNode int | ClassObj string
  | ChrdevRegion | PciDriver

datatype drvdata = DrvCtrl addr | DrvGroup addr

record child =
  ch_minor :: int
  ch_name :: string
  ch_class :: string
  ch_data :: "drvdata option"

record remap =
  rmp_vaddr :: u64
  rmp_pfn :: u64
  rmp_len :: u64

text \<open>User memory, one store for each type of object the driver copies.\<close>

record user_mem =
  u_reg :: "u64 \<Rightarrow> BAFS_IOC_REG_MEM_PARAMS"
  u_dma :: "u64 \<Rightarrow> BAFS_IOC_DMA_MAP_MEM_PARAMS"
  u_create :: "u64 \<Rightarrow> BAFS_CORE_IOC_CREATE_GROUP_PARAMS"
  u_delete :: "u64 \<Rightarrow> BAFS_CORE_IOC_DELETE_GROUP_PARAMS"
  u_long :: "u64 \<Rightarrow> u64"
  u_str :: "u64 \<Rightarrow> string"

record world =
  now :: nat
  next_addr :: addr
  ctxs :: "addr \<rightharpoonup> bafs_ctx"
  mems :: "addr \<rightharpoonup> bafs_mem"
  dmas :: "addr \<rightharpoonup> bafs_mem_dma"
  ctrls :: "addr \<rightharpoonup> bafs_ctrl"
  groups :: "addr \<rightharpoonup> bafs_group"
  krefs :: "kobj \<Rightarrow> nat"
  held :: "lock set"
  res :: "resource \<Rightarrow> nat"
  global_ctx_xa :: "nat \<rightharpoonup> addr"
  minor_ida :: "nat set"
  ctrl_ida :: "nat set"
  group_ida :: "nat set"
  children :: "child list"
  pci_drvdata :: "nat \<rightharpoonup> addr"
  core_minor :: int
  files :: "nat \<rightharpoonup> private_data"
  vmas :: "nat \<rightharpoonup> vm_area"
  remaps :: "remap list"
  user :: user_mem

section \<open>Primitives\<close>

definition ask :: "(nat \<Rightarrow> 'a) \<Rightarrow> world \<Rightarrow> 'a \<times> world" where
  "ask q s = (q (now s), s\<lparr>now := Suc (now s)\<rparr>)"

definition acquire :: "resource \<Rightarrow> world \<Rightarrow> world" where
  "acquire r s = s\<lparr>res := (res s)(r := Suc (res s r))\<rparr>"

definition release :: "resource \<Rightarrow> world \<Rightarrow> world option" where
  "release r s = (if res s r = 0 then None else Some (s\<lparr>res := (res s)(r := res s r - 1)\<rparr>))"

definition set_flag :: "resource \<Rightarrow> world \<Rightarrow> world" where
  "set_flag r s = s\<lparr>res := (res s)(r := 1)\<rparr>"

definition clear_flag :: "resource \<Rightarrow> world \<Rightarrow> world" where
  "clear_flag r s = s\<lparr>res := (res s)(r := 0)\<rparr>"

definition spin_lock :: "lock \<Rightarrow> world \<Rightarrow> world option" where
  "spin_lock l s = (if l \<in> held s then None else Some (s\<lparr>held := insert l (held s)\<rparr>))"

definition spin_unlock :: "lock \<Rightarrow> world \<Rightarrow> world option" where
  "spin_unlock l s = (if l \<in> held s then Some (s\<lparr>held := held s - {l}\<rparr>) else None)"

definition kref_init :: "kobj \<Rightarrow> world \<Rightarrow> world" where
  "kref_init r s = s\<lparr>krefs := (krefs s)(r := 1)\<rparr>"

definition kref_get :: "kobj \<Rightarrow> world \<Rightarrow> world option" where
  "kref_get r s =
     (if krefs s r = 0 then None else Some (s\<lparr>krefs := (krefs s)(r := Suc (krefs s r))\<rparr>))"

definition kref_put :: "kobj \<Rightarrow> (world \<Rightarrow> world option) \<Rightarrow> world \<Rightarrow> world option" where
  "kref_put r rel s =
     (case krefs s r of
        0 \<Rightarrow> None
      | Suc n \<Rightarrow>
          (let s = s\<lparr>krefs := (krefs s)(r := n)\<rparr> in if n = 0 then rel s else Some s))"

text \<open>\<open>list_del\<close> and \<open>list_del_init\<close> of a linked node.\<close>

definition list_unlink :: "addr \<Rightarrow> addr list \<Rightarrow> addr list option" where
  "list_unlink x xs = (if x \<in> set xs then Some (remove1 x xs) else None)"

text \<open>\<open>kfree\<close> of an object that embeds a reference count and a lock.\<close>

definition kfree_ctx :: "addr \<Rightarrow> world \<Rightarrow> world option" where
  "kfree_ctx c s =
     (if ctxs s c = None \<or> CtxLock c \<in> held s then None
      else Some (s\<lparr>ctxs := (ctxs s)(c := None), krefs := (krefs s)(KCtx c := 0)\<rparr>))"

definition kfree_mem :: "addr \<Rightarrow> world \<Rightarrow> world option" where
  "kfree_mem m s =
     (if mems s m = None \<or> MemLock m \<in> held s then None
      else Some (s\<lparr>mems := (mems s)(m := None), krefs := (krefs s)(KMem m := 0)\<rparr>))"

definition kfree_dma :: "addr \<Rightarrow> world \<Rightarrow> world option" where
  "kfree_dma d s = (if dmas s d = None then None else Some (s\<lparr>dmas := (dmas s)(d := None)\<rparr>))"

definition kfree_ctrl :: "addr \<Rightarrow> world \<Rightarrow> world option" where
  "kfree_ctrl c s =
     (if ctrls s c = None then None
      else Some (s\<lparr>ctrls := (ctrls s)(c := None), krefs := (krefs s)(KCtrl c := 0)\<rparr>))"

definition kfree_group :: "addr \<Rightarrow> world \<Rightarrow> world option" where
  "kfree_group g s =
     (if groups s g = None \<or> GroupLock g \<in> held s then None
      else Some (s\<lparr>groups := (groups s)(g := None), krefs := (krefs s)(KGroup g := 0)\<rparr>))"

definition upd_mem :: "addr \<Rightarrow> (bafs_mem \<Rightarrow> bafs_mem) \<Rightarrow> world \<Rightarrow> world option" where
  "upd_mem m f s = do { x \<leftarrow> mems s m; Some (s\<lparr>mems := (mems s)(m \<mapsto> f x)\<rparr>) }"

definition upd_dma :: "addr \<Rightarrow> (bafs_mem_dma \<Rightarrow> bafs_mem_dma) \<Rightarrow> world \<Rightarrow> world option" where
  "upd_dma d f s = do { x \<leftarrow> dmas s d; Some (s\<lparr>dmas := (dmas s)(d \<mapsto> f x)\<rparr>) }"

definition upd_ctx :: "addr \<Rightarrow> (bafs_ctx \<Rightarrow> bafs_ctx) \<Rightarrow> world \<Rightarrow> world option" where
  "upd_ctx c f s = do { x \<leftarrow> ctxs s c; Some (s\<lparr>ctxs := (ctxs s)(c \<mapsto> f x)\<rparr>) }"

definition upd_vma :: "nat \<Rightarrow> (vm_area \<Rightarrow> vm_area) \<Rightarrow> world \<Rightarrow> world option" where
  "upd_vma v f s = do { x \<leftarrow> vmas s v; Some (s\<lparr>vmas := (vmas s)(v \<mapsto> f x)\<rparr>) }"

fun put_longs :: "u64 \<Rightarrow> u64 list \<Rightarrow> (u64 \<Rightarrow> u64) \<Rightarrow> (u64 \<Rightarrow> u64)" where
  "put_longs a [] f = f"
| "put_longs a (v # vs) f = put_longs (a + 8) vs (f(a := v))"

lemmas prim_defs = ask_def acquire_def release_def set_flag_def clear_flag_def spin_lock_def
  spin_unlock_def kref_init_def kref_get_def kref_put_def list_unlink_def kfree_ctx_def
  kfree_mem_def kfree_dma_def kfree_ctrl_def kfree_group_def upd_mem_def upd_dma_def
  upd_ctx_def upd_vma_def

declare prim_defs [prim_simps]

section \<open>What an operation leaves behind\<close>

text \<open>
  Nothing lives at an address the allocator has not handed out yet; and the judgement that
  an operation that failed has undone all it did: only the position in the sequence of
  external answers and the allocator have moved.
\<close>

definition fresh :: "world \<Rightarrow> bool" where
  "fresh s \<longleftrightarrow> (\<forall>a \<ge> next_addr s.
     ctxs s a = None \<and> mems s a = None \<and> dmas s a = None \<and> ctrls s a = None \<and> groups s a = None \<and>
     krefs s (KCtx a) = 0 \<and> krefs s (KMem a) = 0 \<and> krefs s (KCtrl a) = 0 \<and> krefs s (KGroup a) = 0 \<and>
     res s (Page a) = 0 \<and> res s (CudaPin a) = 0 \<and> res s (CudaTable a) = 0 \<and>
     res s (CudaDmaMap a) = 0 \<and> res s (CudaMapping a) = 0 \<and>
     CtxLock a \<notin> held s \<and> MemLock a \<notin> held s \<and> GroupLock a \<notin> held s)"

lemma freshD:
  assumes "fresh s" and "next_addr s \<le> a"
  shows "ctxs s a = None" "mems s a = None" "dmas s a = None" "ctrls s a = None" "groups s a = None"
    "krefs s (KCtx a) = 0" "krefs s (KMem a) = 0" "krefs s (KCtrl a) = 0" "krefs s (KGroup a) = 0"
    "res s (Page a) = 0" "res s (CudaPin a) = 0" "res s (CudaTable a) = 0"
    "res s (CudaDmaMap a) = 0" "res s (CudaMapping a) = 0"
    "CtxLock a \<notin> held s" "MemLock a \<notin> held s" "GroupLock a \<notin> held s"
  using assms unfolding fresh_def by blast+

definition restored :: "world \<Rightarrow> world \<Rightarrow> bool" where
  "restored s s' \<longleftrightarrow> s' = s\<lparr>now := now s', next_addr := next_addr s'\<rparr>"

lemma restored_refl [simp]: "restored s s"
  by (simp add: restored_def)

lemma restored_clock [simp]: "restored s (s\<lparr>now := n\<rparr>)"
  by (simp add: restored_def)

section \<open>Interfaces of the reference counts and of the id pools\<close>

text \<open>
  The contract a client of a reference-counted object relies on: a reference can be taken
  from a live object, giving back one of several references releases nothing, and taking
  one and giving it back changes nothing. A dead object has no operation.
\<close>

locale refcounted =
  fixes get :: "world \<Rightarrow> world option"
    and put :: "world \<Rightarrow> world option"
    and cnt :: "world \<Rightarrow> nat"
  assumes get_live: "0 < cnt s \<Longrightarrow> \<exists>s'. get s = Some s' \<and> cnt s' = Suc (cnt s)"
    and put_shared: "1 < cnt s \<Longrightarrow> \<exists>s'. put s = Some s' \<and> Suc (cnt s') = cnt s"
    and put_get: "get s = Some s' \<Longrightarrow> put s' = Some s"
    and dead: "cnt s = 0 \<Longrightarrow> get s = None \<and> put s = None"
begin

lemma get_iff: "get s \<noteq> None \<longleftrightarrow> 0 < cnt s"
  using get_live [of s] dead [of s] by (cases "cnt s") auto

lemma cnt_get: "get s = Some s' \<Longrightarrow> cnt s' = Suc (cnt s)"
  using get_live [of s] dead [of s] by (cases "cnt s") auto

primrec gets :: "nat \<Rightarrow> world \<Rightarrow> world option" where
  "gets 0 s = Some s"
| "gets (Suc n) s = do { s \<leftarrow> get s; gets n s }"

primrec puts :: "nat \<Rightarrow> world \<Rightarrow> world option" where
  "puts 0 s = Some s"
| "puts (Suc n) s = do { s \<leftarrow> put s; puts n s }"

lemma puts_snoc: "puts (Suc n) s = do { s \<leftarrow> puts n s; put s }"
proof (induction n arbitrary: s)
  case 0
  then show ?case by (cases "put s") auto
next
  case (Suc n)
  have "puts (Suc (Suc n)) s = Option.bind (put s) (puts (Suc n))"
    by (cases "put s") simp_all
  also have "\<dots> = Option.bind (put s) (\<lambda>s. Option.bind (puts n s) put)"
    using Suc by (cases "put s") auto
  also have "\<dots> = Option.bind (puts (Suc n) s) put" by (cases "put s") auto
  finally show ?case .
qed

lemma gets_total: "0 < cnt s \<Longrightarrow> \<exists>s'. gets n s = Some s' \<and> cnt s' = cnt s + n"
proof (induction n arbitrary: s)
  case 0
  then show ?case by simp
next
  case (Suc n)
  then obtain s1 where s1: "get s = Some s1" "cnt s1 = Suc (cnt s)"
    using get_live by blast
  with Suc.IH [of s1] show ?case by auto
qed

lemma puts_shared: "n < cnt s \<Longrightarrow> \<exists>s'. puts n s = Some s' \<and> cnt s' + n = cnt s"
proof (induction n arbitrary: s)
  case 0
  then show ?case by simp
next
  case (Suc n)
  then obtain s1 where s1: "put s = Some s1" "Suc (cnt s1) = cnt s"
    using put_shared [of s] by (cases "cnt s") auto
  with Suc.prems Suc.IH [of s1] show ?case by auto
qed

lemma puts_gets: "gets n s = Some s' \<Longrightarrow> puts n s' = Some s"
proof (induction n arbitrary: s)
  case 0
  then show ?case by simp
next
  case (Suc n)
  then obtain s1 where s1: "get s = Some s1" "gets n s1 = Some s'"
    by (auto elim: bind_SomeE)
  from Suc.IH [OF s1(2)] have "puts n s' = Some s1" .
  then show ?case
    unfolding puts_snoc using put_get [OF s1(1)] by simp
qed

end

text \<open>
  The contract of a pool of numbers: a number that was taken was not in use, a failure
  changes nothing, and a number in use can be given back.
\<close>

locale id_pool =
  fixes draw :: "kernel \<Rightarrow> world \<Rightarrow> int \<times> world"
    and give :: "int \<Rightarrow> world \<Rightarrow> world option"
    and used :: "world \<Rightarrow> nat set"
  assumes draw_fresh: "ida_ok K \<Longrightarrow> draw K s = (r, s') \<Longrightarrow> 0 \<le> r \<Longrightarrow>
      nat r \<notin> used s \<and> used s' = insert (nat r) (used s)"
    and draw_fail: "draw K s = (r, s') \<Longrightarrow> r < 0 \<Longrightarrow> used s' = used s"
    and give_used: "0 \<le> r \<Longrightarrow> nat r \<in> used s \<Longrightarrow> \<exists>s'. give r s = Some s' \<and> used s' = used s - {nat r}"
    and give_unused: "0 \<le> r \<Longrightarrow> nat r \<notin> used s \<Longrightarrow> give r s = None"
begin

lemma draw_give:
  assumes "ida_ok K" and "draw K s = (r, s')" and "0 \<le> r"
  shows "\<exists>s''. give r s' = Some s'' \<and> used s'' = used s"
  using draw_fresh [OF assms] give_used [of r s'] assms(3) by auto

lemma draw_distinct:
  assumes "ida_ok K" and "draw K s = (r, s1)" and "0 \<le> r"
    and "used s2 = used s1" and "draw K s2 = (r', s3)" and "0 \<le> r'"
  shows "r \<noteq> r'"
  using draw_fresh [OF assms(1,2,3)] draw_fresh [OF assms(1,5,6)] assms(4) by auto

end

section \<open>A concrete kernel and an empty world\<close>

text \<open>
  A kernel in which every call succeeds, ids are the least free ones and bus addresses are
  distinct; the witnesses run the driver on it. \<open>empty_world\<close> is the state before the module
  is loaded, for a user memory.
\<close>

definition demo_table :: cuda_pt where
  "demo_table = \<lparr>pt_compatible = True, pt_page_size = NVIDIA_P2P_PAGE_SIZE_64KB, pt_entries = 1,
     pt_phys = [0x40000]\<rparr>"

definition demo_kernel :: kernel where
  "demo_kernel = \<lparr>k_alloc = \<lambda>_. True, k_copy = \<lambda>_. True, k_pid = \<lambda>_. True, k_xa_store = \<lambda>_. True,
     k_xa_index = (\<lambda>n used. if \<not> used 0 then Some 0 else if \<not> used 1 then Some 1 else None),
     k_ida = (\<lambda>n U. if 0 \<notin> U then 0 else if 1 \<notin> U then 1 else if 2 \<notin> U then 2 else - ENOMEM),
     k_dma_map = (\<lambda>n. Some (of_nat n * 4096)), k_ret = (\<lambda>_ _. 0), k_p2p_table = (\<lambda>_. demo_table),
     k_p2p_addrs = (\<lambda>_. [0x7000]), k_bar_start = (\<lambda>_. 0xf0000000), k_bar_len = (\<lambda>_. 0x4000),
     k_put_frees_table = False, k_unmap_frees_mapping = False\<rparr>"

definition demo_user :: user_mem where
  "demo_user =
     \<lparr>u_reg = (\<lambda>_. \<lparr>rm_size = 5000, rm_loc = 0, rm_handle = 0\<rparr>),
      u_dma = (\<lambda>_. \<lparr>dm_vaddr = 0x10000, dm_dma_addrs = 0x5000, dm_n_dma_addrs = 0\<rparr>),
      u_create = (\<lambda>_. \<lparr>cg_n_ctrls = 1, cg_ctrls = 0x100, cg_group_name = 0x200\<rparr>),
      u_delete = (\<lambda>_. \<lparr>dg_group_name = 0x300\<rparr>), u_long = (\<lambda>_. 0),
      u_str = (\<lambda>a. if a = 0x100 then ''bafsc0'' else ''bafsg0'')\<rparr>"

definition empty_world :: "user_mem \<Rightarrow> world" where
  "empty_world u =
     \<lparr>now = 0, next_addr = 1, ctxs = Map.empty, mems = Map.empty, dmas = Map.empty,
      ctrls = Map.empty, groups = Map.empty, krefs = (\<lambda>_. 0), held = {}, res = (\<lambda>_. 0),
      global_ctx_xa = Map.empty, minor_ida = {}, ctrl_ida = {}, group_ida = {}, children = [],
      pci_drvdata = Map.empty, core_minor = 0, files = Map.empty, vmas = Map.empty, remaps = [],
      user = u\<rparr>"

lemma fresh_empty_world [simp]: "fresh (empty_world u)"
  by (simp add: fresh_def empty_world_def)

text \<open>The same with the context of thread group 77 at address 1.\<close>

definition demo_ctx_world :: world where
  "demo_ctx_world = (empty_world demo_user)\<lparr>next_addr := 2, krefs := (\<lambda>_. 0)(KCtx 1 := 1),
     ctxs := [1 \<mapsto> \<lparr>bafs_mem_xa = Map.empty, mem_list = [], ctx_tgid = 77\<rparr>],
     res := (\<lambda>_. 0)(PidRef 77 := 1), global_ctx_xa := [77 \<mapsto> 1]\<rparr>"

lemma fresh_demo_ctx_world [simp]: "fresh demo_ctx_world"
  by (simp add: fresh_def demo_ctx_world_def empty_world_def)

lemma demo_kernel_ok: "xa_index_ok demo_kernel" "ida_ok demo_kernel" "ret_ok demo_kernel"
  by (auto simp: xa_index_ok_def ida_ok_def ret_ok_def demo_kernel_def split: if_splits)

end
