(* ===== verification/Bafs_Ctx.thy ===== *)
theory Bafs_Ctx
  imports Bafs_World
begin

text \<open>
  The per-process context of \<^verbatim>\<open>module/bafs/core.c\<close>: one \<open>struct bafs_ctx\<close> for each thread
  group that has a device file open, found through \<open>bafs_global_ctx_xa\<close> and reference
  counted. \<open>t\<close> is always \<open>task_tgid_nr(current)\<close>.
\<close>

section \<open>Operations\<close>

text \<open>\<open>find_get_pid\<close> takes a reference on the process id; it may find none.\<close>

definition find_get_pid :: "kernel \<Rightarrow> nat \<Rightarrow> world \<Rightarrow> bool \<times> world" where
  "find_get_pid K t s =
     (let (ok, s) = ask (k_pid K) s in (ok, if ok then acquire (PidRef t) s else s))"

abbreviation put_pid :: "nat \<Rightarrow> world \<Rightarrow> world option" where
  "put_pid t \<equiv> release (PidRef t)"

text \<open>\<open>xa_insert\<close> and \<open>xa_cmpxchg(.., NULL, ..)\<close> on \<open>bafs_global_ctx_xa\<close>.\<close>

definition xa_insert :: "kernel \<Rightarrow> nat \<Rightarrow> addr \<Rightarrow> world \<Rightarrow> int \<times> world" where
  "xa_insert K t c s =
     (if global_ctx_xa s t \<noteq> None then (- EBUSY, s)
      else let (ok, s) = ask (k_xa_store K) s in
        if ok then (0, s\<lparr>global_ctx_xa := (global_ctx_xa s)(t \<mapsto> c)\<rparr>) else (- ENOMEM, s))"

datatype xa_entry = XaErr int | XaNull | XaPtr addr

definition xa_cmpxchg_null :: "kernel \<Rightarrow> nat \<Rightarrow> addr \<Rightarrow> world \<Rightarrow> xa_entry \<times> world" where
  "xa_cmpxchg_null K t c s =
     (case global_ctx_xa s t of
        Some c' \<Rightarrow> (XaPtr c', s)
      | None \<Rightarrow>
          let (ok, s) = ask (k_xa_store K) s in
          if ok then (XaNull, s\<lparr>global_ctx_xa := (global_ctx_xa s)(t \<mapsto> c)\<rparr>)
          else (XaErr (- ENOMEM), s))"

text \<open>The zeroed context, with \<open>tgid\<close> set, that both constructors start from.\<close>

definition kzalloc_ctx :: "nat \<Rightarrow> world \<Rightarrow> addr \<times> world" where
  "kzalloc_ctx t s =
     (next_addr s,
      s\<lparr>next_addr := Suc (next_addr s),
        ctxs := (ctxs s)(next_addr s \<mapsto>
          \<lparr>bafs_mem_xa = Map.empty, mem_list = [], ctx_tgid = t\<rparr>)\<rparr>)"

text \<open>\<open>__bafs_core_ctx_release\<close>, called when the last reference goes.\<close>

definition bafs_core_ctx_release_kref :: "addr \<Rightarrow> world \<Rightarrow> world option" where
  "bafs_core_ctx_release_kref c s = do {
     x \<leftarrow> ctxs s c;
     let s = s\<lparr>global_ctx_xa := (global_ctx_xa s)(ctx_tgid x := None)\<rparr>;
     s \<leftarrow> put_pid (ctx_tgid x) s;
     kfree_ctx c s
   }"

definition bafs_put_ctx :: "addr \<Rightarrow> world \<Rightarrow> world option" where
  "bafs_put_ctx c s = kref_put (KCtx c) (bafs_core_ctx_release_kref c) s"

definition bafs_get_ctx :: "kernel \<Rightarrow> nat \<Rightarrow> world \<Rightarrow> (addr option \<times> world) option" where
  "bafs_get_ctx K t s =
     (let (ok, s) = ask (k_alloc K) s in
      if \<not> ok then Some (None, s)
      else
        let (c, s) = kzalloc_ctx t s; (ok, s) = find_get_pid K t s in
        if \<not> ok then do { s \<leftarrow> kfree_ctx c s; Some (None, s) }
        else
          let s = kref_init (KCtx c) s; (xa_ret, s) = xa_cmpxchg_null K t c s in
          case xa_ret of
            XaErr e \<Rightarrow> do { s \<leftarrow> kfree_ctx c s; Some (None, s) }
          | XaPtr c' \<Rightarrow> do {
              s \<leftarrow> kref_get (KCtx c') s;
              s \<leftarrow> put_pid t s;
              s \<leftarrow> kfree_ctx c s;
              Some (Some c', s)
            }
          | XaNull \<Rightarrow> Some (Some c, s))"

definition bafs_core_open :: "kernel \<Rightarrow> nat \<Rightarrow> world \<Rightarrow> (int \<times> private_data \<times> world) option" where
  "bafs_core_open K t s =
     (let (ok, s) = ask (k_alloc K) s in
      if \<not> ok then Some (- ENOMEM, PNull, s)
      else
        let (c, s) = kzalloc_ctx t s; (ok, s) = find_get_pid K t s in
        if \<not> ok then do { s \<leftarrow> kfree_ctx c s; Some (- EFAULT, PNull, s) }
        else
          let s = kref_init (KCtx c) s; (ret, s) = xa_insert K t c s in
          if ret \<noteq> 0 then do {
            s \<leftarrow> put_pid t s;
            s \<leftarrow> kfree_ctx c s;
            Some (- ENOMEM, PNull, s)
          }
          else Some (0, PCore c, s))"

section \<open>Reference counting\<close>

lemma bafs_put_ctx_shared [simp]:
  "1 < krefs s (KCtx c) \<Longrightarrow>
     bafs_put_ctx c s = Some (s\<lparr>krefs := (krefs s)(KCtx c := krefs s (KCtx c) - 1)\<rparr>)"
  by (cases "krefs s (KCtx c)") (auto simp: bafs_put_ctx_def kref_put_def)

lemma bafs_put_ctx_last:
  assumes "krefs s (KCtx c) = 1" and "ctxs s c = Some x"
    and "0 < res s (PidRef (ctx_tgid x))" and "CtxLock c \<notin> held s"
  shows "bafs_put_ctx c s =
    Some (s\<lparr>ctxs := (ctxs s)(c := None), krefs := (krefs s)(KCtx c := 0),
      res := (res s)(PidRef (ctx_tgid x) := res s (PidRef (ctx_tgid x)) - 1),
      global_ctx_xa := (global_ctx_xa s)(ctx_tgid x := None)\<rparr>)"
  using assms
  by (simp add: bafs_put_ctx_def kref_put_def bafs_core_ctx_release_kref_def release_def
      kfree_ctx_def)

lemma bafs_put_ctx_dead: "krefs s (KCtx c) = 0 \<Longrightarrow> bafs_put_ctx c s = None"
  by (simp add: bafs_put_ctx_def kref_put_def)

interpretation ctx_ref: refcounted "kref_get (KCtx c)" "bafs_put_ctx c" "\<lambda>s. krefs s (KCtx c)" for c
proof
  fix s s'
  show "0 < krefs s (KCtx c) \<Longrightarrow> \<exists>s'. kref_get (KCtx c) s = Some s' \<and> krefs s' (KCtx c) = Suc (krefs s (KCtx c))"
    by (simp add: kref_get_def)
  show "1 < krefs s (KCtx c) \<Longrightarrow> \<exists>s'. bafs_put_ctx c s = Some s' \<and> Suc (krefs s' (KCtx c)) = krefs s (KCtx c)"
    by simp
  show "kref_get (KCtx c) s = Some s' \<Longrightarrow> bafs_put_ctx c s' = Some s"
    by (auto simp: kref_get_def split: if_splits)
  show "krefs s (KCtx c) = 0 \<Longrightarrow> kref_get (KCtx c) s = None \<and> bafs_put_ctx c s = None"
    by (simp add: kref_get_def bafs_put_ctx_dead)
qed

section \<open>Behaviour of the constructors\<close>

lemmas ctx_defs = bafs_get_ctx_def bafs_core_open_def find_get_pid_def kzalloc_ctx_def
  xa_cmpxchg_null_def xa_insert_def

lemma fresh_ctx_neq: "fresh s \<Longrightarrow> 0 < krefs s (KCtx c) \<Longrightarrow> c \<noteq> next_addr s"
  using freshD(6) by fastforce

text \<open>
  C10. One context per thread group: while the kernel's allocations succeed,
  \<open>bafs_get_ctx\<close> returns the context that \<open>bafs_global_ctx_xa\<close> holds for the caller's thread
  group, with one more reference and nothing else changed; and when there is none it
  returns a new, empty one with one reference, entered in the table, and holds the
  process id it was made for.
\<close>

theorem bafs_get_ctx_spec:
  assumes "fresh s" and "\<And>c. global_ctx_xa s t = Some c \<Longrightarrow> 0 < krefs s (KCtx c)"
    and "k_alloc K (now s)" and "k_pid K (Suc (now s))" and "k_xa_store K (Suc (Suc (now s)))"
  shows "bafs_get_ctx K t s =
    (case global_ctx_xa s t of
       Some c \<Rightarrow> Some (Some c, s\<lparr>now := now s + 2, next_addr := Suc (next_addr s),
         krefs := (krefs s)(KCtx c := Suc (krefs s (KCtx c)))\<rparr>)
     | None \<Rightarrow> Some (Some (next_addr s), s\<lparr>now := now s + 3, next_addr := Suc (next_addr s),
         ctxs := (ctxs s)(next_addr s \<mapsto> \<lparr>bafs_mem_xa = Map.empty, mem_list = [], ctx_tgid = t\<rparr>),
         krefs := (krefs s)(KCtx (next_addr s) := 1),
         res := (res s)(PidRef t := Suc (res s (PidRef t))),
         global_ctx_xa := (global_ctx_xa s)(t \<mapsto> next_addr s)\<rparr>))"
proof (cases "global_ctx_xa s t")
  case None
  with assms show ?thesis
    by (simp add: ctx_defs prim_defs Let_def)
next
  case (Some c)
  with assms fresh_ctx_neq [of s c] show ?thesis
    by (simp add: ctx_defs prim_defs Let_def freshD fun_upd_idem)
qed

theorem bafs_get_ctx_spec_witness:
  "bafs_get_ctx demo_kernel 77 (empty_world demo_user) =
    Some (Some 1, (empty_world demo_user)\<lparr>now := 3, next_addr := 2,
      ctxs := [1 \<mapsto> \<lparr>bafs_mem_xa = Map.empty, mem_list = [], ctx_tgid = 77\<rparr>],
      krefs := (\<lambda>_. 0)(KCtx 1 := 1), res := (\<lambda>_. 0)(PidRef 77 := 1),
      global_ctx_xa := [77 \<mapsto> 1]\<rparr>)"
  using bafs_get_ctx_spec [of "empty_world demo_user" 77 demo_kernel]
  by (simp add: empty_world_def demo_kernel_def fresh_def)

text \<open>
  C11. Every failure of \<open>bafs_core_open\<close> undoes what it did (the new context, its process id
  reference), and a thread group that already has a context, from any device file, gets
  \<open>-ENOMEM\<close>; the run never stops.
\<close>

theorem bafs_core_open_spec:
  assumes "fresh s"
  shows "yields (bafs_core_open K t s) (\<lambda>(ret, pd, s').
    (if ret = 0 then global_ctx_xa s t = None \<and> pd = PCore (next_addr s) \<and>
        global_ctx_xa s' = (global_ctx_xa s)(t \<mapsto> next_addr s) \<and> krefs s' (KCtx (next_addr s)) = 1
     else pd = PNull \<and> restored s s') \<and>
    (global_ctx_xa s t \<noteq> None \<and> k_alloc K (now s) \<and> k_pid K (Suc (now s)) \<longrightarrow> ret = - ENOMEM))"
  using assms
  by (simp add: ctx_defs prim_defs Let_def freshD fun_upd_idem restored_def)

theorem bafs_core_open_spec_witness:
  "yields (bafs_core_open demo_kernel 77 (empty_world demo_user)) (\<lambda>(ret, pd, s').
     (if ret = 0 then global_ctx_xa (empty_world demo_user) 77 = None \<and> pd = PCore 1 \<and>
        global_ctx_xa s' = [77 \<mapsto> 1] \<and> krefs s' (KCtx 1) = 1
      else pd = PNull \<and> restored (empty_world demo_user) s'))"
  using bafs_core_open_spec [OF fresh_empty_world, of demo_kernel 77 demo_user]
  by (rule yields_mono) (auto simp: empty_world_def split: if_splits)

text \<open>
  Opening the core device and giving the context's only reference back leaves the world
  as it was: the context, its table entry and the process id reference are gone.
\<close>

theorem bafs_core_open_put:
  assumes "fresh s" and "bafs_core_open K t s = Some (0, PCore c, s')"
  shows "yields (bafs_put_ctx c s') (restored s)"
proof -
  from assms have c: "c = next_addr s" and t: "global_ctx_xa s t = None"
    and s': "s' = s\<lparr>now := now s + 3, next_addr := Suc (next_addr s),
        ctxs := (ctxs s)(next_addr s \<mapsto> \<lparr>bafs_mem_xa = Map.empty, mem_list = [], ctx_tgid = t\<rparr>),
        krefs := (krefs s)(KCtx (next_addr s) := 1),
        res := (res s)(PidRef t := Suc (res s (PidRef t))),
        global_ctx_xa := (global_ctx_xa s)(t \<mapsto> next_addr s)\<rparr>"
    by (auto simp: ctx_defs prim_defs Let_def freshD split: if_splits)
  show ?thesis
    using assms(1) t by (simp add: c s' bafs_put_ctx_last freshD fun_upd_idem restored_def)
qed

theorem bafs_core_open_put_witness:
  "yields (bafs_core_open demo_kernel 77 (empty_world demo_user)) (\<lambda>(ret, pd, s').
     ret = 0 \<and> pd = PCore 1 \<and> yields (bafs_put_ctx 1 s') (restored (empty_world demo_user)))"
proof -
  obtain s' where "bafs_core_open demo_kernel 77 (empty_world demo_user) = Some (0, PCore 1, s')"
    by (simp add: ctx_defs prim_defs Let_def demo_kernel_def empty_world_def)
  with bafs_core_open_put [OF _ this] show ?thesis by simp
qed

text \<open>
  A failure of \<open>bafs_get_ctx\<close> to enter the new context in the table (out of memory in
  \<open>xa_cmpxchg\<close>) leaves one reference on the process id behind: the label
  \<open>out_free_mem_xa\<close> frees the context without \<open>put_pid\<close>.
\<close>

theorem bafs_get_ctx_pid_leak:
  assumes "fresh s" and "global_ctx_xa s t = None" and "k_alloc K (now s)"
    and "k_pid K (Suc (now s))" and "\<not> k_xa_store K (Suc (Suc (now s)))"
  shows "\<exists>s'. bafs_get_ctx K t s = Some (None, s') \<and>
    restored s (s'\<lparr>res := res s\<rparr>) \<and> res s' (PidRef t) = Suc (res s (PidRef t))"
  using assms by (simp add: ctx_defs prim_defs Let_def freshD fun_upd_idem restored_def)

theorem bafs_get_ctx_pid_leak_witness:
  "\<exists>s'. bafs_get_ctx (demo_kernel\<lparr>k_xa_store := \<lambda>_. False\<rparr>) 77 (empty_world demo_user) = Some (None, s') \<and>
     res s' (PidRef 77) = 1"
  using bafs_get_ctx_pid_leak [of "empty_world demo_user" 77 "demo_kernel\<lparr>k_xa_store := \<lambda>_. False\<rparr>"]
  by (auto simp: empty_world_def demo_kernel_def fresh_def)

end
