(* ===== verification/Bafs_Ctrl_Dev.thy ===== *)
theory Bafs_Ctrl_Dev
  imports Bafs_World
begin

text \<open>
  The life of a controller object, from \<^verbatim>\<open>module/bafs/ctrl.c\<close>: the minor numbers, the
  construction of a \<open>struct bafs_ctrl\<close> for a PCI device with its chain of cleanup labels,
  and the release of its last reference.
\<close>

section \<open>Minor numbers and ids\<close>

definition bafs_get_minor_number :: "kernel \<Rightarrow> world \<Rightarrow> int \<times> world" where
  "bafs_get_minor_number K s =
     (let (r, s') = ask (\<lambda>n. k_ida K n (minor_ida s)) s in
      (r, if 0 \<le> r then s'\<lparr>minor_ida := insert (nat r) (minor_ida s)\<rparr> else s'))"

definition bafs_put_minor_number :: "int \<Rightarrow> world \<Rightarrow> world option" where
  "bafs_put_minor_number i s =
     (if 0 \<le> i \<and> nat i \<in> minor_ida s
      then Some (s\<lparr>minor_ida := minor_ida s - {nat i}\<rparr>) else None)"

definition ctrl_ida_get :: "kernel \<Rightarrow> world \<Rightarrow> int \<times> world" where
  "ctrl_ida_get K s =
     (let (r, s') = ask (\<lambda>n. k_ida K n (ctrl_ida s)) s in
      (r, if 0 \<le> r then s'\<lparr>ctrl_ida := insert (nat r) (ctrl_ida s)\<rparr> else s'))"

definition ctrl_ida_remove :: "int \<Rightarrow> world \<Rightarrow> world option" where
  "ctrl_ida_remove i s =
     (if 0 \<le> i \<and> nat i \<in> ctrl_ida s
      then Some (s\<lparr>ctrl_ida := ctrl_ida s - {nat i}\<rparr>) else None)"

section \<open>The device model\<close>

text \<open>\<open>device_create\<close> under the core device, and \<open>device_destroy\<close>.\<close>

definition device_create ::
    "kernel \<Rightarrow> int \<Rightarrow> string \<Rightarrow> string \<Rightarrow> drvdata option \<Rightarrow> world \<Rightarrow> int \<times> world" where
  "device_create K minor cls name d s =
     (let (ret, s) = ask (k_ret K DeviceCreate) s in
      (ret, if ret < 0 then s
            else acquire (DevNode minor) (s\<lparr>children := children s @
              [\<lparr>ch_minor = minor, ch_name = name, ch_class = cls, ch_data = d\<rparr>]\<rparr>)))"

definition device_destroy :: "int \<Rightarrow> world \<Rightarrow> world option" where
  "device_destroy minor s = do {
     s \<leftarrow> release (DevNode minor) s;
     Some (s\<lparr>children := filter (\<lambda>ch. ch_minor ch \<noteq> minor) (children s)\<rparr>)
   }"

section \<open>Release\<close>

text \<open>\<open>__bafs_ctrl_release\<close> and \<open>bafs_ctrl_release\<close>; \<open>bafs_get_ctrl\<close> is in \<^verbatim>\<open>types.h\<close>.\<close>

definition bafs_get_ctrl :: "addr \<Rightarrow> world \<Rightarrow> world option" where
  "bafs_get_ctrl c s = do { x \<leftarrow> ctrls s c; kref_get (KCtrl c) s }"

definition bafs_ctrl_release_kref :: "addr \<Rightarrow> world \<Rightarrow> world option" where
  "bafs_ctrl_release_kref c s = do {
     x \<leftarrow> ctrls s c;
     s \<leftarrow> device_destroy (ctrl_minor x) s;
     s \<leftarrow> release (DevRef CoreDev) s;
     s \<leftarrow> release (Cdev (ctrl_minor x)) s;
     s \<leftarrow> release (PciEnabled (pdev x)) s;
     s \<leftarrow> release (PciRegion (pdev x)) s;
     let s = clear_flag (PciMaster (pdev x)) s;
     s \<leftarrow> release (DevRef (PciDev (pdev x))) s;
     s \<leftarrow> ctrl_ida_remove (ctrl_id x) s;
     s \<leftarrow> bafs_put_minor_number (ctrl_minor x) s;
     kfree_ctrl c s
   }"

definition bafs_ctrl_release :: "addr \<Rightarrow> world \<Rightarrow> world option" where
  "bafs_ctrl_release c s = do {
     x \<leftarrow> ctrls s c;
     kref_put (KCtrl c) (bafs_ctrl_release_kref c) s
   }"

section \<open>Construction\<close>

text \<open>The labels of \<open>bafs_ctrl_alloc\<close>, each falling through to the next.\<close>

definition out_clear_pci_drvdata :: "nat \<Rightarrow> addr \<Rightarrow> world \<Rightarrow> world option" where
  "out_clear_pci_drvdata p c s = do {
     let s = s\<lparr>pci_drvdata := (pci_drvdata s)(p := None)\<rparr>;
     let s = clear_flag (PciMaster p) s;
     s \<leftarrow> release (DevRef (PciDev p)) s;
     kfree_ctrl c s
   }"

definition out_release_pci_region :: "nat \<Rightarrow> addr \<Rightarrow> world \<Rightarrow> world option" where
  "out_release_pci_region p c s = do {
     s \<leftarrow> release (PciRegion p) s;
     out_clear_pci_drvdata p c s
   }"

definition out_disable_pci_device :: "nat \<Rightarrow> addr \<Rightarrow> world \<Rightarrow> world option" where
  "out_disable_pci_device p c s = do {
     s \<leftarrow> release (PciEnabled p) s;
     out_release_pci_region p c s
   }"

definition out_minor_put :: "nat \<Rightarrow> addr \<Rightarrow> world \<Rightarrow> world option" where
  "out_minor_put p c s = do {
     x \<leftarrow> ctrls s c;
     s \<leftarrow> bafs_put_minor_number (ctrl_minor x) s;
     out_disable_pci_device p c s
   }"

definition out_ctrl_id_put :: "nat \<Rightarrow> addr \<Rightarrow> world \<Rightarrow> world option" where
  "out_ctrl_id_put p c s = do {
     x \<leftarrow> ctrls s c;
     s \<leftarrow> ctrl_ida_remove (ctrl_id x) s;
     out_minor_put p c s
   }"

definition out_cdev_del :: "nat \<Rightarrow> addr \<Rightarrow> world \<Rightarrow> world option" where
  "out_cdev_del p c s = do {
     x \<leftarrow> ctrls s c;
     s \<leftarrow> release (DevRef CoreDev) s;
     s \<leftarrow> release (Cdev (ctrl_minor x)) s;
     out_ctrl_id_put p c s
   }"

definition fails :: "int \<Rightarrow> world option \<Rightarrow> (int \<times> addr option \<times> world) option" where
  "fails ret k = do { s \<leftarrow> k; Some (ret, None, s) }"

text \<open>
  \<open>bafs_ctrl_alloc\<close>, in three parts: the part of the device model, the part of the numbers,
  and the PCI part, which comes first in the code.
\<close>

definition ctrl_alloc_device ::
    "kernel \<Rightarrow> nat \<Rightarrow> addr \<Rightarrow> world \<Rightarrow> (int \<times> addr option \<times> world) option" where
  "ctrl_alloc_device K p c s = do {
     x \<leftarrow> ctrls s c;
     let (ret, s) = ask (k_ret K CdevAdd) s;
     if ret < 0 then fails ret (out_ctrl_id_put p c s)
     else do {
       let s = acquire (Cdev (ctrl_minor x)) s;
       let s = acquire (DevRef CoreDev) s;
       let (ret, s) = device_create K (ctrl_minor x) BAFS_CTRL_CLASS_NAME
                        (BAFS_CTRL_DEVICE_NAME (ctrl_id x)) (Some (DrvCtrl c)) s;
       if ret < 0 then fails ret (out_cdev_del p c s)
       else Some (0, Some c, kref_init (KCtrl c) s)
     }
   }"

definition ctrl_alloc_numbers ::
    "kernel \<Rightarrow> nat \<Rightarrow> addr \<Rightarrow> world \<Rightarrow> (int \<times> addr option \<times> world) option" where
  "ctrl_alloc_numbers K p c s = do {
     x \<leftarrow> ctrls s c;
     let s = s\<lparr>ctrls := (ctrls s)(c \<mapsto> x\<lparr>pdev := p\<rparr>)\<rparr>;
     let (ret, s) = bafs_get_minor_number K s;
     if ret < 0 then fails ret (out_disable_pci_device p c s)
     else do {
       let s = s\<lparr>ctrls := (ctrls s)(c \<mapsto> x\<lparr>pdev := p, ctrl_minor := ret\<rparr>)\<rparr>;
       let (id, s) = ctrl_ida_get K s;
       if id < 0 then fails id (out_minor_put p c s)
       else ctrl_alloc_device K p c
              (s\<lparr>ctrls := (ctrls s)(c \<mapsto> x\<lparr>pdev := p, ctrl_minor := ret, ctrl_id := id\<rparr>)\<rparr>)
     }
   }"

definition bafs_ctrl_alloc :: "kernel \<Rightarrow> nat \<Rightarrow> world \<Rightarrow> (int \<times> addr option \<times> world) option" where
  "bafs_ctrl_alloc K p s =
     (let (ok, s) = ask (k_alloc K) s in
      if \<not> ok then Some (- ENOMEM, None, s)
      else do {
        let c = next_addr s;
        let s = s\<lparr>next_addr := Suc c, ctrls := (ctrls s)(c \<mapsto> \<lparr>pdev = 0, ctrl_minor = 0, ctrl_id = 0\<rparr>)\<rparr>;
        let s = acquire (DevRef (PciDev p)) s;
        let s = set_flag (PciMaster p) s;
        let s = s\<lparr>pci_drvdata := (pci_drvdata s)(p \<mapsto> c)\<rparr>;
        let (ret, s) = ask (k_ret K PciRequestRegion) s;
        if ret < 0 then fails ret (out_clear_pci_drvdata p c s)
        else do {
          let s = acquire (PciRegion p) s;
          let (ret, s) = ask (k_ret K PciEnableDevice) s;
          if ret < 0 then fails ret (out_release_pci_region p c s)
          else ctrl_alloc_numbers K p c (acquire (PciEnabled p) s)
        }
      })"

section \<open>Id pools and reference counts\<close>

interpretation minor_pool: id_pool bafs_get_minor_number bafs_put_minor_number minor_ida
  by unfold_locales
    (auto simp: bafs_get_minor_number_def bafs_put_minor_number_def ask_def ida_ok_def split: if_splits)

interpretation ctrl_pool: id_pool ctrl_ida_get ctrl_ida_remove ctrl_ida
  by unfold_locales
    (auto simp: ctrl_ida_get_def ctrl_ida_remove_def ask_def ida_ok_def split: if_splits)

definition ctrl_count :: "addr \<Rightarrow> world \<Rightarrow> nat" where
  "ctrl_count c s = (if ctrls s c = None then 0 else krefs s (KCtrl c))"

lemma bafs_get_ctrl_live:
  "ctrls s c \<noteq> None \<Longrightarrow> 0 < krefs s (KCtrl c) \<Longrightarrow>
     bafs_get_ctrl c s = Some (s\<lparr>krefs := (krefs s)(KCtrl c := Suc (krefs s (KCtrl c)))\<rparr>)"
  by (auto simp: bafs_get_ctrl_def kref_get_def)

lemma bafs_ctrl_release_shared:
  "ctrls s c \<noteq> None \<Longrightarrow> 1 < krefs s (KCtrl c) \<Longrightarrow>
     bafs_ctrl_release c s = Some (s\<lparr>krefs := (krefs s)(KCtrl c := krefs s (KCtrl c) - 1)\<rparr>)"
  by (cases "krefs s (KCtrl c)") (auto simp: bafs_ctrl_release_def kref_put_def)

interpretation ctrl_ref: refcounted "bafs_get_ctrl c" "bafs_ctrl_release c" "ctrl_count c" for c
proof
  fix s s'
  show "0 < ctrl_count c s \<Longrightarrow> \<exists>s'. bafs_get_ctrl c s = Some s' \<and> ctrl_count c s' = Suc (ctrl_count c s)"
    by (cases "ctrls s c") (simp_all add: ctrl_count_def bafs_get_ctrl_live)
  show "1 < ctrl_count c s \<Longrightarrow> \<exists>s'. bafs_ctrl_release c s = Some s' \<and> Suc (ctrl_count c s') = ctrl_count c s"
    by (cases "ctrls s c") (simp_all add: ctrl_count_def bafs_ctrl_release_shared)
  show "bafs_get_ctrl c s = Some s' \<Longrightarrow> bafs_ctrl_release c s' = Some s"
    by (auto simp: bafs_get_ctrl_def kref_get_def bafs_ctrl_release_shared elim!: bind_SomeE split: if_splits)
  show "ctrl_count c s = 0 \<Longrightarrow> bafs_get_ctrl c s = None \<and> bafs_ctrl_release c s = None"
    by (auto simp: ctrl_count_def bafs_get_ctrl_def bafs_ctrl_release_def kref_get_def kref_put_def
        split: if_splits)
qed

section \<open>Construction either completes or undoes itself\<close>

lemmas ctrl_out_defs = out_clear_pci_drvdata_def out_release_pci_region_def out_disable_pci_device_def
  out_minor_put_def out_ctrl_id_put_def out_cdev_del_def fails_def

definition children_ok :: "world \<Rightarrow> bool" where
  "children_ok s \<longleftrightarrow> (\<forall>ch \<in> set (children s). 0 \<le> ch_minor ch \<and> nat (ch_minor ch) \<in> minor_ida s)"

text \<open>The object and the kernel state of a controller with its numbers.\<close>

definition ctrl_created :: "nat \<Rightarrow> int \<Rightarrow> int \<Rightarrow> world \<Rightarrow> world" where
  "ctrl_created p minor cid s =
     (let c = next_addr s in
      s\<lparr>next_addr := Suc c, ctrls := (ctrls s)(c \<mapsto> \<lparr>pdev = p, ctrl_minor = minor, ctrl_id = cid\<rparr>),
        krefs := (krefs s)(KCtrl c := 1),
        res := (res s)(DevRef (PciDev p) := Suc (res s (DevRef (PciDev p))), PciMaster p := 1,
          PciRegion p := Suc (res s (PciRegion p)), PciEnabled p := Suc (res s (PciEnabled p)),
          Cdev minor := Suc (res s (Cdev minor)), DevRef CoreDev := Suc (res s (DevRef CoreDev)),
          DevNode minor := Suc (res s (DevNode minor))),
        minor_ida := insert (nat minor) (minor_ida s), ctrl_ida := insert (nat cid) (ctrl_ida s),
        children := children s @ [\<lparr>ch_minor = minor, ch_name = BAFS_CTRL_DEVICE_NAME cid,
          ch_class = BAFS_CTRL_CLASS_NAME, ch_data = Some (DrvCtrl c)\<rparr>],
        pci_drvdata := (pci_drvdata s)(p \<mapsto> c)\<rparr>)"

lemma bafs_ctrl_alloc_cases:
  assumes "fresh s" and "ida_ok K" and "pci_drvdata s p = None" and "res s (PciMaster p) = 0"
  shows "yields (bafs_ctrl_alloc K p s) (\<lambda>(ret, c, s').
    if ret < 0 then c = None \<and> restored s s'
    else ret = 0 \<and> c = Some (next_addr s) \<and>
      (\<exists>x. ctrls s' (next_addr s) = Some x \<and> 0 \<le> ctrl_minor x \<and> 0 \<le> ctrl_id x \<and>
        nat (ctrl_minor x) \<notin> minor_ida s \<and> nat (ctrl_id x) \<notin> ctrl_ida s \<and>
        s' = (ctrl_created p (ctrl_minor x) (ctrl_id x) s)\<lparr>now := now s'\<rparr>))"
  using assms
  by (simp add: bafs_ctrl_alloc_def ctrl_alloc_numbers_def ctrl_alloc_device_def prim_defs Let_def
      device_create_def bafs_get_minor_number_def ctrl_ida_get_def ctrl_out_defs freshD fun_upd_idem
      restored_def bafs_put_minor_number_def ctrl_ida_remove_def ctrl_created_def ida_notin ida_diff
      fun_upd_twist)

text \<open>
  C12. \<open>bafs_ctrl_alloc\<close> either returns 0 with a controller that holds one reference and
  exactly the PCI, character device and device model resources its release gives back, or
  returns a negative error after undoing every step it had taken, whichever of the eight
  calls fails.
\<close>

theorem bafs_ctrl_alloc_spec:
  assumes "fresh s" and "ida_ok K" and "pci_drvdata s p = None" and "res s (PciMaster p) = 0"
  shows "yields (bafs_ctrl_alloc K p s) (\<lambda>(ret, c, s').
    if ret < 0 then c = None \<and> restored s s'
    else ret = 0 \<and> c = Some (next_addr s) \<and>
      (\<exists>x. ctrls s' (next_addr s) = Some x \<and> 0 \<le> ctrl_minor x \<and> 0 \<le> ctrl_id x \<and>
        nat (ctrl_minor x) \<notin> minor_ida s \<and> nat (ctrl_id x) \<notin> ctrl_ida s \<and>
        s' = (ctrl_created p (ctrl_minor x) (ctrl_id x) s)\<lparr>now := now s'\<rparr>))"
  using assms by (rule bafs_ctrl_alloc_cases)

theorem bafs_ctrl_alloc_spec_witness:
  "yields (bafs_ctrl_alloc demo_kernel 5 (empty_world demo_user)) (\<lambda>(ret, c, s').
     if ret < 0 then c = None \<and> restored (empty_world demo_user) s' else ret = 0 \<and> c = Some 1)"
proof -
  have "pci_drvdata (empty_world demo_user) 5 = None" "res (empty_world demo_user) (PciMaster 5) = 0"
    by (simp_all add: empty_world_def)
  from bafs_ctrl_alloc_spec [OF fresh_empty_world demo_kernel_ok(2) this]
  show ?thesis
    by (rule yields_mono) (auto simp: empty_world_def split: if_splits)
qed

text \<open>The release of the last reference of a controller that was just made.\<close>

lemma ctrl_created_release:
  assumes "fresh s" and "res s (PciMaster p) = 0" and "children_ok s"
    and "0 \<le> minor" "nat minor \<notin> minor_ida s" and "0 \<le> cid" "nat cid \<notin> ctrl_ida s"
  shows "bafs_ctrl_release (next_addr s) ((ctrl_created p minor cid s)\<lparr>now := n\<rparr>) =
    Some (s\<lparr>now := n, next_addr := Suc (next_addr s), pci_drvdata := (pci_drvdata s)(p \<mapsto> next_addr s)\<rparr>)"
proof -
  have "filter (\<lambda>ch. ch_minor ch \<noteq> minor) (children s) = children s"
    using assms(3,5) by (intro filter_True) (auto simp: children_ok_def)
  with assms show ?thesis
    by (simp add: ctrl_created_def bafs_ctrl_release_def bafs_ctrl_release_kref_def prim_defs Let_def
        device_destroy_def ctrl_ida_remove_def bafs_put_minor_number_def freshD fun_upd_idem
        fun_upd_twist)
qed

text \<open>
  C13. Probing a PCI device and removing it again, with no other reference to the controller
  taken in between, leaves the world as it was but for the driver data pointer of the PCI
  device, which still holds the address of the freed controller (the kernel clears it
  when it unbinds the driver).
\<close>

theorem ctrl_alloc_release_roundtrip:
  assumes "fresh s" and "ida_ok K" and "pci_drvdata s p = None" and "res s (PciMaster p) = 0"
    and "children_ok s" and "bafs_ctrl_alloc K p s = Some (0, Some c, s')"
  shows "yields (bafs_ctrl_release c s') (\<lambda>s''.
    pci_drvdata s'' p = Some c \<and> ctrls s'' c = None \<and> restored s (s''\<lparr>pci_drvdata := pci_drvdata s\<rparr>))"
proof -
  obtain n where n: "now s' = n" by blast
  from bafs_ctrl_alloc_cases [OF assms(1-4)] assms(6)
  obtain x :: bafs_ctrl where c: "c = next_addr s" and x: "0 \<le> ctrl_minor x" "0 \<le> ctrl_id x"
    "nat (ctrl_minor x) \<notin> minor_ida s" "nat (ctrl_id x) \<notin> ctrl_ida s"
    and s': "s' = (ctrl_created p (ctrl_minor x) (ctrl_id x) s)\<lparr>now := n\<rparr>"
    by (simp add: n) blast
  have "bafs_ctrl_release c s' = Some (s\<lparr>now := n, next_addr := Suc (next_addr s),
      pci_drvdata := (pci_drvdata s)(p \<mapsto> next_addr s)\<rparr>)"
    unfolding c s' by (rule ctrl_created_release [OF assms(1,4,5) x(1,3,2,4)])
  with assms(1) c show ?thesis
    by (simp add: restored_def freshD)
qed

theorem ctrl_alloc_release_roundtrip_witness:
  "yields (bafs_ctrl_alloc demo_kernel 5 (empty_world demo_user)) (\<lambda>(ret, c, s').
     ret = 0 \<and> c = Some 1 \<and> yields (bafs_ctrl_release 1 s') (\<lambda>s''.
       pci_drvdata s'' 5 = Some 1 \<and> ctrls s'' 1 = None \<and>
       restored (empty_world demo_user) (s''\<lparr>pci_drvdata := pci_drvdata (empty_world demo_user)\<rparr>)))"
proof -
  have w: "pci_drvdata (empty_world demo_user) 5 = None" "res (empty_world demo_user) (PciMaster 5) = 0"
    "children_ok (empty_world demo_user)"
    by (simp_all add: empty_world_def children_ok_def)
  obtain s' where "bafs_ctrl_alloc demo_kernel 5 (empty_world demo_user) = Some (0, Some 1, s')"
    by (simp add: bafs_ctrl_alloc_def ctrl_alloc_numbers_def ctrl_alloc_device_def prim_defs Let_def
        device_create_def bafs_get_minor_number_def ctrl_ida_get_def demo_kernel_def empty_world_def)
  with ctrl_alloc_release_roundtrip [OF fresh_empty_world demo_kernel_ok(2) w this]
  show ?thesis by simp
qed

end
