(* ===== verification/Bafs_Mem.thy ===== *)
theory Bafs_Mem
  imports Bafs_Ctx Bafs_Ctrl_Dev
begin

text \<open>
  \<^verbatim>\<open>module/bafs/mem.c\<close>: registration of a memory range, pinning it into a process by mmap,
  the release of its last reference, the revocation callback of the NVIDIA driver and the
  removal of a DMA mapping. A loop over an array is a recursion on the number of
  remaining rounds, a \<open>list_for_each_entry_safe\<close> loop a recursion on the list as it is
  when the loop starts (each round unlinks at most its own element).
\<close>

section \<open>Page geometry\<close>

definition page_count :: "u64 \<Rightarrow> u64 \<Rightarrow> nat \<Rightarrow> u64" where
  "page_count sz ps sh = drop_bit sh (sz + ps - 1)"

definition mask_of :: "u64 \<Rightarrow> u64" where
  "mask_of ps = NOT (ps - 1)"

text \<open>
  The length mapped in round \<open>i\<close>: of pinning, where the product is 64 bits wide and the
  granularity an \<open>unsigned\<close>, and of DMA mapping, where both are \<open>unsigned\<close>.
\<close>

definition pin_gran :: "nat \<Rightarrow> u64 \<Rightarrow> u64 \<Rightarrow> u32" where
  "pin_gran i ps sz =
     (if of_nat i * ps > sz then ucast ps - ucast (of_nat i * ps - sz) else ucast ps)"

definition dma_gran :: "nat \<Rightarrow> u32 \<Rightarrow> u64 \<Rightarrow> u32" where
  "dma_gran i g sz =
     (if ucast (of_nat i * g :: u32) > sz then g - ucast (ucast (of_nat i * g :: u32) - sz) else g)"

section \<open>Pinning\<close>

text \<open>\<open>pin_bafs_cpu_mem\<close>: \<open>alloc_page\<close> for each entry; \<open>None\<close> as index when all succeeded.\<close>

fun cpu_alloc_loop :: "kernel \<Rightarrow> addr \<Rightarrow> nat \<Rightarrow> nat \<Rightarrow> world \<Rightarrow> (nat option \<times> world) option" where
  "cpu_alloc_loop K m i 0 s = Some (None, s)"
| "cpu_alloc_loop K m i (Suc k) s = do {
     let (ok, s) = ask (k_alloc K) s;
     x \<leftarrow> mems s m;
     ps \<leftarrow> cpu_page_table x;
     _ \<leftarrow> nth_opt ps i;
     if \<not> ok then Some (Some i, s)
     else do {
       let p = next_addr s;
       let s = acquire (Page p) (s\<lparr>next_addr := Suc p\<rparr>);
       s \<leftarrow> upd_mem m (cpu_page_table_update (\<lambda>_. Some (ps[i := Some p]))) s;
       cpu_alloc_loop K m (Suc i) k s
     }
   }"

text \<open>The cleanup loop \<open>for (i = i - 1; i >= 0; i--)\<close>, from the index where the other stopped.\<close>

fun cpu_free_down :: "addr \<Rightarrow> nat \<Rightarrow> world \<Rightarrow> world option" where
  "cpu_free_down m 0 s = Some s"
| "cpu_free_down m (Suc i) s = do {
     x \<leftarrow> mems s m;
     ps \<leftarrow> cpu_page_table x;
     e \<leftarrow> nth_opt ps i;
     p \<leftarrow> e;
     s \<leftarrow> release (Page p) s;
     cpu_free_down m i s
   }"

definition cpu_out_clean_page_table :: "addr \<Rightarrow> nat \<Rightarrow> world \<Rightarrow> world option" where
  "cpu_out_clean_page_table m i s = do {
     s \<leftarrow> cpu_free_down m i s;
     s \<leftarrow> release (Buf PageArray) s;
     upd_mem m (cpu_page_table_update (\<lambda>_. None)) s
   }"

definition pin_bafs_cpu_mem :: "kernel \<Rightarrow> addr \<Rightarrow> world \<Rightarrow> (int \<times> world) option" where
  "pin_bafs_cpu_mem K m s = do {
     s \<leftarrow> upd_mem m (\<lambda>x. x\<lparr>page_size := PAGE_SIZE, page_shift := PAGE_SHIFT,
            n_pages := page_count (mem_size x) PAGE_SIZE PAGE_SHIFT,
            page_mask := mask_of PAGE_SIZE\<rparr>) s;
     x \<leftarrow> mems s m;
     if mem_vaddr x AND page_mask x \<noteq> mem_vaddr x then Some (- EINVAL, s)
     else do {
       let (ok, s) = ask (k_alloc K) s;
       if \<not> ok then do {
         s \<leftarrow> upd_mem m (cpu_page_table_update (\<lambda>_. None)) s;
         Some (- ENOMEM, s)
       }
       else do {
         let s = acquire (Buf PageArray) s;
         s \<leftarrow> upd_mem m (cpu_page_table_update
                (\<lambda>_. Some (replicate (unat (n_pages x)) None))) s;
         (failed, s) \<leftarrow> cpu_alloc_loop K m 0 (unat (n_pages x)) s;
         case failed of
           Some i \<Rightarrow> do { s \<leftarrow> cpu_out_clean_page_table m i s; Some (- ENOMEM, s) }
         | None \<Rightarrow> do {
             let (ret, s) = ask (k_ret K VmMapPagesZero) s;
             if ret \<noteq> 0 then do {
               s \<leftarrow> cpu_out_clean_page_table m (unat (n_pages x)) s;
               Some (- ENOMEM, s)
             }
             else Some (0, s)
           }
       }
     }
   }"

text \<open>The NVIDIA interfaces that give pages and page tables back.\<close>

definition p2p_put_pages :: "kernel \<Rightarrow> addr \<Rightarrow> world \<Rightarrow> world option" where
  "p2p_put_pages K m s = do {
     s \<leftarrow> release (CudaPin m) s;
     if k_put_frees_table K then release (CudaTable m) s else Some s
   }"

definition p2p_dma_unmap_pages :: "kernel \<Rightarrow> addr \<Rightarrow> world \<Rightarrow> world option" where
  "p2p_dma_unmap_pages K d s = do {
     s \<leftarrow> release (CudaDmaMap d) s;
     if k_unmap_frees_mapping K then release (CudaMapping d) s else Some s
   }"

abbreviation p2p_free_page_table :: "addr \<Rightarrow> world \<Rightarrow> world option" where
  "p2p_free_page_table m \<equiv> release (CudaTable m)"

abbreviation p2p_free_dma_mapping :: "addr \<Rightarrow> world \<Rightarrow> world option" where
  "p2p_free_dma_mapping d \<equiv> release (CudaMapping d)"

fun cuda_dma_free_loop :: "addr list \<Rightarrow> world \<Rightarrow> world option" where
  "cuda_dma_free_loop [] s = Some s"
| "cuda_dma_free_loop (d # ds) s = do {
     y \<leftarrow> dmas s d;
     s \<leftarrow> (if cuda_mapping y \<noteq> None then do {
              s \<leftarrow> p2p_free_dma_mapping d s;
              upd_dma d (cuda_mapping_update (\<lambda>_. None)) s
            } else Some s);
     cuda_dma_free_loop ds s
   }"

definition release_bafs_cuda_mem :: "addr option \<Rightarrow> world \<Rightarrow> world option" where
  "release_bafs_cuda_mem data s =
     (case data of
        None \<Rightarrow> Some s
      | Some m \<Rightarrow> do {
          x \<leftarrow> mems s m;
          s \<leftarrow> spin_lock (MemLock m) s;
          s \<leftarrow> (if mem_state x \<noteq> DEAD then do {
                   s \<leftarrow> cuda_dma_free_loop (dma_list x) s;
                   s \<leftarrow> upd_mem m (mem_state_update (\<lambda>_. DEAD_CB)) s;
                   s \<leftarrow> p2p_free_page_table m s;
                   upd_mem m (cuda_page_table_update (\<lambda>_. None)) s
                 } else Some s);
          spin_unlock (MemLock m) s
        })"

fun cuda_page_geometry :: "p2p_page_size \<Rightarrow> (u64 \<times> nat) option" where
  "cuda_page_geometry NVIDIA_P2P_PAGE_SIZE_4KB = Some (4 * 1024, 12)"
| "cuda_page_geometry NVIDIA_P2P_PAGE_SIZE_64KB = Some (64 * 1024, 16)"
| "cuda_page_geometry NVIDIA_P2P_PAGE_SIZE_128KB = Some (128 * 1024, 17)"
| "cuda_page_geometry NVIDIA_P2P_PAGE_SIZE_OTHER = None"

abbreviation phys_to_pfn :: "u64 \<Rightarrow> u64" where
  "phys_to_pfn a \<equiv> drop_bit PAGE_SHIFT a"

definition io_remap_pfn_range :: "kernel \<Rightarrow> u64 \<Rightarrow> u64 \<Rightarrow> u64 \<Rightarrow> world \<Rightarrow> int \<times> world" where
  "io_remap_pfn_range K va pfn len s =
     (let (ret, s) = ask (k_ret K IoRemapPfnRange) s in
      (ret, if ret = 0 then s\<lparr>remaps := remaps s @ [\<lparr>rmp_vaddr = va, rmp_pfn = pfn, rmp_len = len\<rparr>]\<rparr>
            else s))"

fun cuda_remap_loop :: "kernel \<Rightarrow> addr \<Rightarrow> nat \<Rightarrow> nat \<Rightarrow> world \<Rightarrow> (int \<times> world) option" where
  "cuda_remap_loop K m i 0 s = Some (0, s)"
| "cuda_remap_loop K m i (Suc k) s = do {
     x \<leftarrow> mems s m;
     pt \<leftarrow> cuda_page_table x;
     phys \<leftarrow> nth_opt (pt_phys pt) i;
     let (ret, s) = io_remap_pfn_range K (mem_vaddr x + of_nat i * page_size x) (phys_to_pfn phys)
                      (ucast (pin_gran i (page_size x) (mem_size x))) s;
     if ret \<noteq> 0 then Some (ret, s) else cuda_remap_loop K m (Suc i) k s
   }"

definition cuda_out_delete_page_table :: "kernel \<Rightarrow> addr \<Rightarrow> int \<Rightarrow> world \<Rightarrow> (int \<times> world) option" where
  "cuda_out_delete_page_table K m ret s = do {
     s \<leftarrow> p2p_put_pages K m s;
     s \<leftarrow> upd_mem m (cuda_page_table_update (\<lambda>_. None)) s;
     Some (ret, s)
   }"

definition pin_bafs_cuda_mem :: "kernel \<Rightarrow> addr \<Rightarrow> nat \<Rightarrow> world \<Rightarrow> (int \<times> world) option" where
  "pin_bafs_cuda_mem K m v s = do {
     let (ret, s) = ask (k_ret K P2pGetPages) s;
     if ret < 0 then Some (ret, s)
     else do {
       let (pt, s) = ask (k_p2p_table K) s;
       let s = acquire (CudaPin m) (acquire (CudaTable m) s);
       s \<leftarrow> upd_mem m (cuda_page_table_update (\<lambda>_. Some pt)) s;
       if \<not> pt_compatible pt then cuda_out_delete_page_table K m (- EFAULT) s
       else case cuda_page_geometry (pt_page_size pt) of
         None \<Rightarrow> cuda_out_delete_page_table K m (- EINVAL) s
       | Some (psz, sh) \<Rightarrow> do {
           s \<leftarrow> upd_mem m (\<lambda>x. x\<lparr>page_size := psz, page_shift := sh, page_mask := mask_of psz\<rparr>) s;
           x \<leftarrow> mems s m;
           first \<leftarrow> nth_opt (pt_phys pt) 0;
           if mem_vaddr x AND page_mask x \<noteq> mem_vaddr x
           then cuda_out_delete_page_table K m (- EINVAL) s
           else do {
             let n = page_count (mem_size x) psz sh;
             s \<leftarrow> upd_mem m (n_pages_update (\<lambda>_. n)) s;
             if n \<noteq> ucast (pt_entries pt) then cuda_out_delete_page_table K m (- ENOMEM) s
             else do {
               s \<leftarrow> upd_vma v (vm_noncached_update (\<lambda>_. True)) s;
               (ret, s) \<leftarrow> cuda_remap_loop K m 0 (unat n) s;
               if ret \<noteq> 0 then cuda_out_delete_page_table K m ret s else Some (0, s)
             }
           }
         }
     }
   }"

section \<open>Release of a registered memory\<close>

fun cpu_free_up :: "addr \<Rightarrow> nat \<Rightarrow> nat \<Rightarrow> world \<Rightarrow> world option" where
  "cpu_free_up m i 0 s = Some s"
| "cpu_free_up m i (Suc k) s = do {
     x \<leftarrow> mems s m;
     ps \<leftarrow> cpu_page_table x;
     e \<leftarrow> nth_opt ps i;
     p \<leftarrow> e;
     s \<leftarrow> release (Page p) s;
     cpu_free_up m (Suc i) k s
   }"

text \<open>The body of \<open>__bafs_mem_release\<close> under \<open>mem->lock\<close>.\<close>

definition mem_release_pages :: "kernel \<Rightarrow> addr \<Rightarrow> world \<Rightarrow> world option" where
  "mem_release_pages K m s = do {
     x \<leftarrow> mems s m;
     if mem_state x = STALE then Some s
     else do {
       s \<leftarrow> (if mem_loc x = BAFS_MEM_CPU then
                (if cpu_page_table x \<noteq> None then do {
                   s \<leftarrow> cpu_free_up m 0 (unat (n_pages x)) s;
                   release (Buf PageArray) s
                 } else Some s)
              else if mem_loc x = BAFS_MEM_CUDA then
                (if mem_state x \<noteq> DEAD_CB \<and> cuda_page_table x \<noteq> None then do {
                   s \<leftarrow> p2p_put_pages K m s;
                   s \<leftarrow> p2p_free_page_table m s;
                   upd_mem m (cuda_page_table_update (\<lambda>_. None)) s
                 } else Some s)
              else Some s);
       upd_mem m (mem_state_update (\<lambda>_. DEAD)) s
     }
   }"

text \<open>\<open>list_del\<close> from \<open>ctx->mem_list\<close> and \<open>xa_erase\<close> from \<open>ctx->bafs_mem_xa\<close>, under \<open>ctx->lock\<close>.\<close>

definition ctx_forget_mem :: "addr \<Rightarrow> addr \<Rightarrow> u32 \<Rightarrow> world \<Rightarrow> world option" where
  "ctx_forget_mem c m i s = do {
     cx \<leftarrow> ctxs s c;
     ml \<leftarrow> list_unlink m (mem_list cx);
     upd_ctx c (\<lambda>cx. cx\<lparr>mem_list := ml, bafs_mem_xa := (bafs_mem_xa cx)(i := None)\<rparr>) s
   }"

definition bafs_mem_release_kref :: "kernel \<Rightarrow> addr \<Rightarrow> world \<Rightarrow> world option" where
  "bafs_mem_release_kref K m s = do {
     x \<leftarrow> mems s m;
     let c = mem_ctx x;
     s \<leftarrow> spin_lock (CtxLock c) s;
     s \<leftarrow> ctx_forget_mem c m (mem_id x) s;
     s \<leftarrow> spin_unlock (CtxLock c) s;
     s \<leftarrow> spin_lock (MemLock m) s;
     s \<leftarrow> mem_release_pages K m s;
     s \<leftarrow> spin_unlock (MemLock m) s;
     s \<leftarrow> kfree_mem m s;
     bafs_put_ctx c s
   }"

definition bafs_mem_put :: "kernel \<Rightarrow> addr \<Rightarrow> world \<Rightarrow> world option" where
  "bafs_mem_put K m s = kref_put (KMem m) (bafs_mem_release_kref K m) s"

section \<open>Registration\<close>

definition mem_zero :: bafs_mem where
  "mem_zero = \<lparr>mem_ctx = 0, dma_list = [], mem_id = 0, mem_loc = 0, mem_state = STALE,
     mem_vaddr = 0, mem_size = 0, page_size = 0, page_shift = 0, page_mask = 0, n_pages = 0,
     cuda_page_table = None, cpu_page_table = None\<rparr>"

definition bafs_core_reg_mem :: "kernel \<Rightarrow> u64 \<Rightarrow> addr \<Rightarrow> world \<Rightarrow> (int \<times> world) option" where
  "bafs_core_reg_mem K argp c s = do {
     let (ok, s) = ask (k_copy K) s;
     if \<not> ok then Some (- EFAULT, s)
     else do {
       let params = u_reg (user s) argp;
       let (ok, s) = ask (k_alloc K) s;
       if \<not> ok then Some (- ENOMEM, s)
       else do {
         let m = next_addr s;
         let s = s\<lparr>next_addr := Suc m, mems := (mems s)(m \<mapsto> mem_zero)\<rparr>;
         s \<leftarrow> kref_get (KCtx c) s;
         s \<leftarrow> upd_mem m (\<lambda>x. x\<lparr>mem_state := STALE, mem_size := ucast (rm_size params),
                mem_loc := rm_loc params, mem_ctx := c\<rparr>) s;
         let s = kref_init (KMem m) s;
         s \<leftarrow> spin_lock (CtxLock c) s;
         cx \<leftarrow> ctxs s c;
         let (idx, s) = ask (\<lambda>n. k_xa_index K n (\<lambda>i. bafs_mem_xa cx i \<noteq> None)) s;
         case idx of
           None \<Rightarrow> do {
             s \<leftarrow> spin_unlock (CtxLock c) s;
             s \<leftarrow> bafs_put_ctx c s;
             s \<leftarrow> kfree_mem m s;
             Some (- ENOMEM, s)
           }
         | Some i \<Rightarrow> do {
             s \<leftarrow> upd_mem m (mem_id_update (\<lambda>_. i)) s;
             s \<leftarrow> upd_ctx c (\<lambda>cx. cx\<lparr>bafs_mem_xa := (bafs_mem_xa cx)(i \<mapsto> m),
                    mem_list := m # mem_list cx\<rparr>) s;
             s \<leftarrow> spin_unlock (CtxLock c) s;
             let (ok, s) = ask (k_copy K) s;
             if \<not> ok then do {
               s \<leftarrow> spin_lock (CtxLock c) s;
               s \<leftarrow> ctx_forget_mem c m i s;
               s \<leftarrow> spin_unlock (CtxLock c) s;
               s \<leftarrow> bafs_put_ctx c s;
               s \<leftarrow> kfree_mem m s;
               Some (- EFAULT, s)
             }
             else Some (0, s\<lparr>user := (user s)\<lparr>u_reg :=
                    (u_reg (user s))(argp := params\<lparr>rm_handle := i + 1\<rparr>)\<rparr>\<rparr>)
           }
       }
     }
   }"

section \<open>Removing a DMA mapping\<close>

fun dma_unmap_up :: "nat \<Rightarrow> u32 \<Rightarrow> u64 \<Rightarrow> u64 list \<Rightarrow> nat \<Rightarrow> nat \<Rightarrow> world \<Rightarrow> world option" where
  "dma_unmap_up p g sz as i 0 s = Some s"
| "dma_unmap_up p g sz as i (Suc k) s = do {
     a \<leftarrow> nth_opt as i;
     s \<leftarrow> release (DmaMap p a (dma_gran i g sz)) s;
     dma_unmap_up p g sz as (Suc i) k s
   }"

definition unmap_dma :: "kernel \<Rightarrow> addr \<Rightarrow> world \<Rightarrow> world option" where
  "unmap_dma K d s = do {
     y \<leftarrow> dmas s d;
     let m = dma_mem y;
     x \<leftarrow> mems s m;
     dl \<leftarrow> list_unlink d (dma_list x);
     s \<leftarrow> upd_mem m (dma_list_update (\<lambda>_. dl)) s;
     cc \<leftarrow> ctrls s (dma_ctrl y);
     s \<leftarrow> (if mem_loc x = BAFS_MEM_CPU then
              (case dma_addrs y of
                 None \<Rightarrow> Some s
               | Some as \<Rightarrow> do {
                   s \<leftarrow> dma_unmap_up (pdev cc) (map_gran y) (mem_size x) as 0 (unat (n_pages x)) s;
                   s \<leftarrow> release (Buf DmaAddrs) s;
                   upd_dma d (dma_addrs_update (\<lambda>_. None)) s
                 })
            else if mem_loc x = BAFS_MEM_CUDA then
              (if mem_state x \<noteq> DEAD_CB \<and> cuda_mapping y \<noteq> None then do {
                 s \<leftarrow> p2p_dma_unmap_pages K d s;
                 s \<leftarrow> p2p_free_dma_mapping d s;
                 upd_dma d (cuda_mapping_update (\<lambda>_. None)) s
               } else Some s)
            else Some s);
     s \<leftarrow> kfree_dma d s;
     bafs_ctrl_release (dma_ctrl y) s
   }"

section \<open>mmap and munmap of a registered memory\<close>

fun mem_release_loop :: "kernel \<Rightarrow> addr \<Rightarrow> addr list \<Rightarrow> world \<Rightarrow> world option" where
  "mem_release_loop K m [] s = Some s"
| "mem_release_loop K m (d # ds) s = do {
     s \<leftarrow> unmap_dma K d s;
     s \<leftarrow> bafs_mem_put K m s;
     mem_release_loop K m ds s
   }"

text \<open>\<open>bafs_mem_release\<close>, the \<open>close\<close> operation of the mapping; \<open>v\<close> names the vma.\<close>

definition bafs_mem_release :: "kernel \<Rightarrow> nat \<Rightarrow> world \<Rightarrow> world option" where
  "bafs_mem_release K v s = do {
     vma \<leftarrow> vmas s v;
     case vm_private_data vma of
       None \<Rightarrow> Some s
     | Some m \<Rightarrow> do {
         x \<leftarrow> mems s m;
         let c = mem_ctx x;
         s \<leftarrow> kref_get (KCtx c) s;
         s \<leftarrow> spin_lock (MemLock m) s;
         s \<leftarrow> mem_release_loop K m (dma_list x) s;
         s \<leftarrow> spin_unlock (MemLock m) s;
         s \<leftarrow> upd_vma v (vm_private_data_update (\<lambda>_. None)) s;
         s \<leftarrow> bafs_mem_put K m s;
         bafs_put_ctx c s
       }
   }"

definition pin_bafs_mem :: "kernel \<Rightarrow> nat \<Rightarrow> addr \<Rightarrow> world \<Rightarrow> (int \<times> world) option" where
  "pin_bafs_mem K v c s = do {
     vma \<leftarrow> vmas s v;
     let id = (ucast (vm_pgoff vma - 1) :: u32);
     s \<leftarrow> kref_get (KCtx c) s;
     s \<leftarrow> spin_lock (CtxLock c) s;
     cx \<leftarrow> ctxs s c;
     let mem = bafs_mem_xa cx id;
     s \<leftarrow> spin_unlock (CtxLock c) s;
     s \<leftarrow> bafs_put_ctx c s;
     case mem of
       None \<Rightarrow> Some (- EINVAL, s)
     | Some m \<Rightarrow> do {
         s \<leftarrow> kref_get (KMem m) s;
         s \<leftarrow> spin_lock (MemLock m) s;
         s \<leftarrow> upd_mem m (mem_vaddr_update (\<lambda>_. vm_start vma)) s;
         x \<leftarrow> mems s m;
         (ret, s) \<leftarrow> (if mem_loc x = BAFS_MEM_CPU then pin_bafs_cpu_mem K m s
                       else if mem_loc x = BAFS_MEM_CUDA then pin_bafs_cuda_mem K m v s
                       else Some (- EINVAL, s));
         s \<leftarrow> (if ret \<noteq> 0 then Some s
                else do {
                  s \<leftarrow> upd_mem m (mem_state_update (\<lambda>_. LIVE)) s;
                  upd_vma v (\<lambda>vma. vma\<lparr>vm_ops_set := True, vm_private_data := Some m,
                    vm_flags := (vm_flags vma OR VM_DONTCOPY) OR VM_DONTEXPAND\<rparr>) s
                });
         s \<leftarrow> spin_unlock (MemLock m) s;
         s \<leftarrow> bafs_mem_put K m s;
         Some (ret, s)
       }
   }"

section \<open>Page geometry is exact\<close>

text \<open>The page sizes the driver uses, with their shifts.\<close>

definition geometry :: "u64 \<Rightarrow> nat \<Rightarrow> bool" where
  "geometry ps sh \<longleftrightarrow> (ps, sh) \<in> {(4096, 12), (65536, 16), (131072, 17)}"

lemma geometry_exp: "geometry ps sh \<Longrightarrow> ps = 2 ^ sh \<and> 12 \<le> sh \<and> sh \<le> 17"
  by (auto simp: geometry_def)

lemma unat_geometry: "geometry ps sh \<Longrightarrow> unat ps = 2 ^ sh"
  using geometry_exp [of ps sh] unat_exp_u64 [of sh] by auto

lemma cuda_page_geometry_ok: "cuda_page_geometry c = Some (ps, sh) \<Longrightarrow> geometry ps sh"
  by (cases c) (auto simp: geometry_def)

lemma geometry_cpu [simp]: "geometry 4096 12"
  by (simp add: geometry_def)

lemma unat_ucast_u32_u64 [simp]: "unat (ucast (w :: u32) :: u64) = unat w"
proof -
  have "unat w < 2 ^ 64" using unsigned_less [of w, where 'a = nat] by simp
  then show ?thesis by (simp only: unsigned_ucast_eq) (simp add: take_bit_nat_eq_self)
qed

lemma page_count_div:
  assumes "geometry ps sh" and "unat sz < 2 ^ 32"
  shows "unat (page_count sz ps sh) = (unat sz + 2 ^ sh - 1) div 2 ^ sh"
proof -
  from geometry_exp [OF assms(1)] have ps: "ps = 2 ^ sh" and sh: "sh \<le> 17" by auto
  have "(2 :: nat) ^ sh \<le> 2 ^ 17" using sh by (intro power_increasing) auto
  with assms(2) have "unat sz + 2 ^ sh \<le> 2 ^ 64" by simp
  with sh show ?thesis
    unfolding page_count_def ps by (intro unat_page_count) auto
qed

lemma page_index_bound:
  assumes "geometry ps sh" and "unat sz < 2 ^ 32" and "i < unat (page_count sz ps sh)"
  shows "i * 2 ^ sh < unat sz"
proof -
  have "Suc i * 2 ^ sh \<le> unat sz + 2 ^ sh - 1"
    using assms(3) unfolding page_count_div [OF assms(1,2)]
    by (intro less_eq_div_iff_mult_less_eq [THEN iffD1]) auto
  moreover have "(0 :: nat) < 2 ^ sh" by simp
  ultimately show ?thesis unfolding mult_Suc by linarith
qed

lemma page_count_le:
  assumes "geometry ps sh" and "unat sz < 2 ^ 32"
  shows "unat (page_count sz ps sh) \<le> 2 ^ 20"
proof (rule ccontr)
  assume "\<not> unat (page_count sz ps sh) \<le> 2 ^ 20"
  then have "2 ^ 20 * 2 ^ sh < unat sz"
    using page_index_bound [OF assms, of "2 ^ 20"] by simp
  moreover have "(2 :: nat) ^ 12 \<le> 2 ^ sh"
    using geometry_exp [OF assms(1)] by (intro power_increasing) auto
  ultimately show False using assms(2) by simp
qed

text \<open>
  C14. The number of pages computed by pinning is exact for every registered size (a 32-bit
  number of bytes) and each of the page sizes 4, 64 and 128 KB: the pages cover the
  memory, one page less would not, the 64-bit sum does not wrap, and the count fits the
  \<open>int\<close> loop counters.
\<close>

theorem page_count_covers:
  assumes "geometry ps sh" and "unat sz < 2 ^ 32" and "n = unat (page_count sz ps sh)"
  shows "unat sz \<le> n * unat ps \<and> (0 < n \<longrightarrow> (n - 1) * unat ps < unat sz) \<and> n \<le> 2 ^ 20"
proof (intro conjI impI)
  note n = assms(3) [unfolded page_count_div [OF assms(1,2)]]
  have "unat sz + 2 ^ sh - 1 < Suc n * 2 ^ sh"
    unfolding n by (intro div_less_iff_less_mult [THEN iffD1]) auto
  then show "unat sz \<le> n * unat ps"
    unfolding unat_geometry [OF assms(1)] by simp
  show "(n - 1) * unat ps < unat sz" if "0 < n"
    using page_index_bound [OF assms(1,2), of "n - 1"] that
    unfolding unat_geometry [OF assms(1)] assms(3) by simp
  show "n \<le> 2 ^ 20" unfolding assms(3) by (rule page_count_le [OF assms(1,2)])
qed

lemma of_nat_mult_page:
  assumes "geometry ps sh" and "unat sz < 2 ^ 32" and "i < unat (page_count sz ps sh)"
  shows "unat (of_nat i * ps) = i * 2 ^ sh"
    and "unat (of_nat i * ucast ps :: u32) = i * 2 ^ sh"
proof -
  from page_index_bound [OF assms] assms(2) have lt: "i * 2 ^ sh < 2 ^ 32" by simp
  have "of_nat i * ps = of_nat (i * 2 ^ sh)"
    using geometry_exp [OF assms(1)] by simp
  then show "unat (of_nat i * ps) = i * 2 ^ sh"
    using lt unat_of_nat_small [where 'a = 64, of "i * 2 ^ sh"] by simp
  have "(ucast ps :: u32) = 2 ^ sh"
    using assms(1) by (auto simp: geometry_def)
  then have "(of_nat i * ucast ps :: u32) = of_nat (i * 2 ^ sh)"
    by simp
  then show "unat (of_nat i * ucast ps :: u32) = i * 2 ^ sh"
    using lt unat_of_nat_small [where 'a = 32, of "i * 2 ^ sh"] by simp
qed

lemma gran_full:
  assumes "geometry ps sh" and "unat sz < 2 ^ 32" and "i < unat (page_count sz ps sh)"
  shows "pin_gran i ps sz = ucast ps \<and> dma_gran i (ucast ps) sz = ucast ps"
proof -
  note bound = page_index_bound [OF assms]
  have "\<not> of_nat i * ps > sz"
    using bound of_nat_mult_page(1) [OF assms] by (simp add: word_less_nat_alt)
  moreover have "\<not> ucast (of_nat i * ucast ps :: u32) > sz"
    using bound of_nat_mult_page(2) [OF assms] by (simp add: word_less_nat_alt)
  ultimately show ?thesis by (simp add: pin_gran_def dma_gran_def)
qed

text \<open>
  The length mapped for a page is the full page size in every round of both loops: the
  branch that shortens it compares the start of the page with the size and is never
  taken, so the last page is mapped in full also when the memory ends inside it.
\<close>

theorem gran_is_page_size:
  assumes "geometry ps sh" and "unat sz < 2 ^ 32" and "i < unat (page_count sz ps sh)"
  shows "pin_gran i ps sz = ucast ps \<and> dma_gran i (ucast ps) sz = ucast ps"
  using assms by (rule gran_full)

theorem page_count_covers_witness:
  "unat (5000 :: u64) \<le> 2 * unat (4096 :: u64) \<and> (2 - 1) * unat (4096 :: u64) < unat (5000 :: u64)"
proof -
  have "2 = unat (page_count 5000 4096 12)" by (simp add: page_count_def)
  from page_count_covers [OF geometry_cpu _ this] show ?thesis by simp
qed

theorem gran_is_page_size_witness:
  "pin_gran 1 4096 5000 = 4096 \<and> dma_gran 1 4096 5000 = 4096"
  using gran_is_page_size [of 4096 12 5000 1] by (simp add: page_count_def)

section \<open>The pages of a pinned CPU memory\<close>

text \<open>The ledger with one more, or one less, of each of \<open>q\<close> consecutive pages.\<close>

definition add_pages :: "addr \<Rightarrow> nat \<Rightarrow> (resource \<Rightarrow> nat) \<Rightarrow> (resource \<Rightarrow> nat)" where
  "add_pages b q f = (\<lambda>r. case r of Page p \<Rightarrow> if b \<le> p \<and> p < b + q then Suc (f r) else f r | _ \<Rightarrow> f r)"

definition del_pages :: "addr \<Rightarrow> nat \<Rightarrow> (resource \<Rightarrow> nat) \<Rightarrow> (resource \<Rightarrow> nat)" where
  "del_pages b q f = (\<lambda>r. case r of Page p \<Rightarrow> if b \<le> p \<and> p < b + q then f r - 1 else f r | _ \<Rightarrow> f r)"

lemma del_add_pages [simp]: "del_pages b q (add_pages b q f) = f"
  by (auto simp: del_pages_def add_pages_def fun_eq_iff split: resource.splits)

lemma add_pages_0 [simp]: "add_pages b 0 f = f"
  by (auto simp: add_pages_def fun_eq_iff split: resource.splits)

lemma del_pages_0 [simp]: "del_pages b 0 f = f"
  by (auto simp: del_pages_def fun_eq_iff split: resource.splits)

lemma add_pages_Suc: "add_pages (Suc b) q (f(Page b := Suc (f (Page b)))) = add_pages b (Suc q) f"
  by (auto simp: add_pages_def fun_eq_iff split: resource.splits)

lemma del_pages_last: "del_pages b q (f(Page (b + q) := f (Page (b + q)) - 1)) = del_pages b (Suc q) f"
  by (auto simp: del_pages_def fun_eq_iff split: resource.splits)

lemma del_pages_first: "del_pages (Suc b) q (f(Page b := f (Page b) - Suc 0)) = del_pages b (Suc q) f"
  by (auto simp: del_pages_def fun_eq_iff split: resource.splits)

lemma pages_other [simp]:
  "(\<And>p. r \<noteq> Page p) \<Longrightarrow> add_pages b q f r = f r"
  "(\<And>p. r \<noteq> Page p) \<Longrightarrow> del_pages b q f r = f r"
  by (auto simp: add_pages_def del_pages_def split: resource.splits)

lemma pages_upd_other:
  "(\<And>p. r \<noteq> Page p) \<Longrightarrow> add_pages b q (f(r := v)) = (add_pages b q f)(r := v)"
  "(\<And>p. r \<noteq> Page p) \<Longrightarrow> del_pages b q (f(r := v)) = (del_pages b q f)(r := v)"
  by (auto simp: add_pages_def del_pages_def fun_eq_iff split: resource.splits)

lemma add_pages_in [simp]: "b \<le> p \<Longrightarrow> p < b + q \<Longrightarrow> add_pages b q f (Page p) = Suc (f (Page p))"
  by (simp add: add_pages_def)

text \<open>The page array after \<open>q\<close> of \<open>n\<close> allocations, with consecutive pages from \<open>b\<close>.\<close>

definition page_array :: "addr \<Rightarrow> nat \<Rightarrow> nat \<Rightarrow> addr option list" where
  "page_array b q n = map Some [b..<b + q] @ replicate (n - q) None"

lemma length_page_array [simp]: "q \<le> n \<Longrightarrow> length (page_array b q n) = n"
  by (simp add: page_array_def)

lemma nth_page_array: "q \<le> n \<Longrightarrow> i < q \<Longrightarrow> page_array b q n ! i = Some (b + i)"
  by (simp add: page_array_def nth_append)

lemma page_array_step: "q < n \<Longrightarrow> (page_array b q n)[q := Some (b + q)] = page_array b (Suc q) n"
  by (auto simp: page_array_def list_update_append Suc_diff_Suc [symmetric])

text \<open>How many of the next \<open>k\<close> answers from \<open>n\<close> on are successes in a row, and how many are asked for.\<close>

primrec ok_run :: "(nat \<Rightarrow> bool) \<Rightarrow> nat \<Rightarrow> nat \<Rightarrow> nat" where
  "ok_run P n 0 = 0"
| "ok_run P n (Suc k) = (if P n then Suc (ok_run P (Suc n) k) else 0)"

lemma ok_run_le [simp]: "ok_run P n k \<le> k"
  by (induction k arbitrary: n) auto

definition asked :: "nat \<Rightarrow> nat \<Rightarrow> nat" where
  "asked q k = (if q = k then k else Suc q)"

lemma cpu_alloc_loop_eq:
  assumes "mems s m = Some x" and "cpu_page_table x = Some (page_array b i (i + k))"
    and "next_addr s = b + i" and "q = ok_run (k_alloc K) (now s) k"
  shows "cpu_alloc_loop K m i k s =
     Some (if q = k then None else Some (i + q),
       s\<lparr>now := now s + asked q k, next_addr := b + i + q, res := add_pages (b + i) q (res s),
         mems := (mems s)(m \<mapsto> x\<lparr>cpu_page_table := Some (page_array b (i + q) (i + k))\<rparr>)\<rparr>)"
  using assms
proof (induction k arbitrary: i s x q)
  case 0
  then show ?case by (simp add: asked_def fun_upd_idem)
next
  case (Suc k)
  let ?x = "x\<lparr>cpu_page_table := Some (page_array b (Suc i) (Suc i + k))\<rparr>"
  let ?s = "s\<lparr>now := Suc (now s), next_addr := b + Suc i,
      res := (res s)(Page (b + i) := Suc (res s (Page (b + i)))), mems := (mems s)(m \<mapsto> ?x)\<rparr>"
  show ?case
  proof (cases "k_alloc K (now s)")
    case True
    then obtain r where r: "q = Suc r" "r = ok_run (k_alloc K) (now ?s) k"
      using Suc.prems(4) by simp
    have "cpu_alloc_loop K m i (Suc k) s = cpu_alloc_loop K m (Suc i) k ?s"
      using Suc.prems(1-3) True
      by (simp add: Let_def ask_def acquire_def upd_mem_def page_array_step [of i "Suc (i + k)" b, simplified])
    also have "\<dots> = Some (if r = k then None else Some (Suc i + r),
       ?s\<lparr>now := now ?s + asked r k, next_addr := b + Suc i + r, res := add_pages (b + Suc i) r (res ?s),
         mems := (mems ?s)(m \<mapsto> ?x\<lparr>cpu_page_table := Some (page_array b (Suc i + r) (Suc i + k))\<rparr>)\<rparr>)"
      using r(2) by (intro Suc.IH) simp_all
    finally show ?thesis
      using r(1) by (simp add: add_pages_Suc asked_def del: fun_upd_apply)
  next
    case False
    with Suc.prems show ?thesis
      by (simp add: ask_def asked_def fun_upd_idem)
  qed
qed

lemma cpu_free_down_eq:
  assumes "mems s m = Some x" and "cpu_page_table x = Some (page_array b q n)" and "q \<le> n" and "i \<le> q"
    and "\<And>p. b \<le> p \<Longrightarrow> p < b + i \<Longrightarrow> 0 < res s (Page p)"
  shows "cpu_free_down m i s = Some (s\<lparr>res := del_pages b i (res s)\<rparr>)"
  using assms
proof (induction i arbitrary: s)
  case 0
  then show ?case by simp
next
  case (Suc i)
  let ?s = "s\<lparr>res := (res s)(Page (b + i) := res s (Page (b + i)) - 1)\<rparr>"
  have "0 < res s (Page (b + i))" using Suc.prems(5) by simp
  then have "cpu_free_down m (Suc i) s = cpu_free_down m i ?s"
    using Suc.prems(1-4) by (simp add: release_def nth_page_array)
  also have "\<dots> = Some (?s\<lparr>res := del_pages b i (res ?s)\<rparr>)"
    using Suc.prems by (intro Suc.IH) simp_all
  finally show ?case
    by (simp add: del_pages_last [of b i "res s", simplified])
qed

lemma cpu_free_up_eq:
  assumes "mems s m = Some x" and "cpu_page_table x = Some (page_array b q n)" and "q \<le> n" and "i + k \<le> q"
    and "\<And>p. b + i \<le> p \<Longrightarrow> p < b + i + k \<Longrightarrow> 0 < res s (Page p)"
  shows "cpu_free_up m i k s = Some (s\<lparr>res := del_pages (b + i) k (res s)\<rparr>)"
  using assms
proof (induction k arbitrary: i s)
  case 0
  then show ?case by simp
next
  case (Suc k)
  let ?s = "s\<lparr>res := (res s)(Page (b + i) := res s (Page (b + i)) - 1)\<rparr>"
  have "0 < res s (Page (b + i))" using Suc.prems(5) by simp
  then have "cpu_free_up m i (Suc k) s = cpu_free_up m (Suc i) k ?s"
    using Suc.prems(1-4) by (simp add: release_def nth_page_array)
  also have "\<dots> = Some (?s\<lparr>res := del_pages (b + Suc i) k (res ?s)\<rparr>)"
    using Suc.prems by (intro Suc.IH) simp_all
  finally show ?case
    by (simp add: del_pages_first)
qed

text \<open>The page geometry that \<open>pin_bafs_cpu_mem\<close> writes before it allocates.\<close>

definition cpu_geom :: "bafs_mem \<Rightarrow> bafs_mem" where
  "cpu_geom x = x\<lparr>page_size := PAGE_SIZE, page_shift := PAGE_SHIFT,
     n_pages := page_count (mem_size x) PAGE_SIZE PAGE_SHIFT, page_mask := mask_of PAGE_SIZE\<rparr>"

lemma cpu_geom_simps [simp]:
  "mem_vaddr (cpu_geom x) = mem_vaddr x" "page_mask (cpu_geom x) = mask_of PAGE_SIZE"
  "mem_ctx (cpu_geom x) = mem_ctx x" "mem_state (cpu_geom x) = mem_state x"
  "mem_loc (cpu_geom x) = mem_loc x" "mem_id (cpu_geom x) = mem_id x"
  "mem_size (cpu_geom x) = mem_size x" "dma_list (cpu_geom x) = dma_list x"
  "page_size (cpu_geom x) = PAGE_SIZE" "n_pages (cpu_geom x) = page_count (mem_size x) PAGE_SIZE PAGE_SHIFT"
  "cpu_page_table (cpu_geom x) = cpu_page_table x" "cuda_page_table (cpu_geom x) = cuda_page_table x"
  by (simp_all add: cpu_geom_def)

lemma cpu_out_clean_page_table_eq:
  assumes "mems s m = Some x" and "cpu_page_table x = Some (page_array b q n)" and "q \<le> n"
    and "res s = add_pages b q f" and "f (Buf PageArray) = Suc k"
  shows "cpu_out_clean_page_table m q s =
    Some (s\<lparr>res := f(Buf PageArray := k), mems := (mems s)(m \<mapsto> x\<lparr>cpu_page_table := None\<rparr>)\<rparr>)"
proof -
  have "cpu_free_down m q s = Some (s\<lparr>res := del_pages b q (res s)\<rparr>)"
    using assms(1-3) by (rule cpu_free_down_eq) (auto simp: assms(4))
  with assms show ?thesis
    by (simp add: cpu_out_clean_page_table_def release_def upd_mem_def)
qed

lemma pin_bafs_cpu_mem_eq:
  assumes "mems s m = Some x" and "n = unat (page_count (mem_size x) PAGE_SIZE PAGE_SHIFT)"
    and "q = ok_run (k_alloc K) (Suc (now s)) n" and "b = next_addr s"
  shows "pin_bafs_cpu_mem K m s = Some (
    if mem_vaddr x AND mask_of PAGE_SIZE \<noteq> mem_vaddr x
    then (- EINVAL, s\<lparr>mems := (mems s)(m \<mapsto> cpu_geom x)\<rparr>)
    else if \<not> k_alloc K (now s)
    then (- ENOMEM, s\<lparr>now := Suc (now s), mems := (mems s)(m \<mapsto> (cpu_geom x)\<lparr>cpu_page_table := None\<rparr>)\<rparr>)
    else if q \<noteq> n
    then (- ENOMEM, s\<lparr>now := Suc (Suc (now s + q)), next_addr := b + q,
        mems := (mems s)(m \<mapsto> (cpu_geom x)\<lparr>cpu_page_table := None\<rparr>)\<rparr>)
    else if k_ret K VmMapPagesZero (Suc (now s + n)) \<noteq> 0
    then (- ENOMEM, s\<lparr>now := Suc (Suc (now s + n)), next_addr := b + n,
        mems := (mems s)(m \<mapsto> (cpu_geom x)\<lparr>cpu_page_table := None\<rparr>)\<rparr>)
    else (0, s\<lparr>now := Suc (Suc (now s + n)), next_addr := b + n,
        res := add_pages b n ((res s)(Buf PageArray := Suc (res s (Buf PageArray)))),
        mems := (mems s)(m \<mapsto> (cpu_geom x)\<lparr>cpu_page_table := Some (page_array b n n)\<rparr>)\<rparr>))"
proof -
  let ?x0 = "(cpu_geom x)\<lparr>cpu_page_table := Some (replicate n None)\<rparr>"
  let ?r = "(res s)(Buf PageArray := Suc (res s (Buf PageArray)))"
  let ?s0 = "s\<lparr>now := Suc (now s), res := ?r, mems := (mems s)(m \<mapsto> ?x0)\<rparr>"
  let ?s1 = "s\<lparr>now := Suc (now s) + asked q n, next_addr := b + q, res := add_pages b q ?r,
      mems := (mems s)(m \<mapsto> (cpu_geom x)\<lparr>cpu_page_table := Some (page_array b q n)\<rparr>)\<rparr>"
  have q: "q \<le> n" using assms(3) by simp
  have loop: "cpu_alloc_loop K m 0 n ?s0 = Some (if q = n then None else Some q, ?s1)"
    using cpu_alloc_loop_eq [of ?s0 m ?x0 b 0 n q K] assms(3,4)
    by (simp add: page_array_def del: fun_upd_apply) (simp add: page_array_def)
  note clean_eq = cpu_out_clean_page_table_eq [where x = "(cpu_geom x)\<lparr>cpu_page_table := Some (page_array b q n)\<rparr>"
      and b = b and n = n and f = ?r and k = "res s (Buf PageArray)"]
  have clean0: "cpu_out_clean_page_table m q ?s1 = Some (s\<lparr>now := Suc (now s) + asked q n,
      next_addr := b + q, mems := (mems s)(m \<mapsto> (cpu_geom x)\<lparr>cpu_page_table := None\<rparr>)\<rparr>)"
    by (subst clean_eq) (use q in simp_all)
  have clean: "cpu_out_clean_page_table m q (?s1\<lparr>now := t\<rparr>) = Some (s\<lparr>now := t, next_addr := b + q,
      mems := (mems s)(m \<mapsto> (cpu_geom x)\<lparr>cpu_page_table := None\<rparr>)\<rparr>)" for t
    by (subst clean_eq) (use q in simp_all)
  show ?thesis
  proof (cases "q = n")
    case True
    with clean loop assms(1,2) show ?thesis
      unfolding cpu_geom_def
      by (simp add: pin_bafs_cpu_mem_def upd_mem_def ask_def acquire_def Let_def asked_def)
  next
    case False
    with clean0 loop assms(1,2) show ?thesis
      unfolding cpu_geom_def
      by (simp add: pin_bafs_cpu_mem_def upd_mem_def ask_def acquire_def Let_def asked_def)
  qed
qed

section \<open>Reference counts of registered memories\<close>

lemma bafs_mem_put_shared [simp]:
  "1 < krefs s (KMem m) \<Longrightarrow>
     bafs_mem_put K m s = Some (s\<lparr>krefs := (krefs s)(KMem m := krefs s (KMem m) - 1)\<rparr>)"
  by (cases "krefs s (KMem m)") (auto simp: bafs_mem_put_def kref_put_def)

lemma bafs_mem_put_last:
  "krefs s (KMem m) = 1 \<Longrightarrow>
     bafs_mem_put K m s = bafs_mem_release_kref K m (s\<lparr>krefs := (krefs s)(KMem m := 0)\<rparr>)"
  by (simp add: bafs_mem_put_def kref_put_def)

interpretation mem_ref: refcounted "kref_get (KMem m)" "bafs_mem_put K m" "\<lambda>s. krefs s (KMem m)" for m K
proof
  fix s s'
  show "0 < krefs s (KMem m) \<Longrightarrow> \<exists>s'. kref_get (KMem m) s = Some s' \<and> krefs s' (KMem m) = Suc (krefs s (KMem m))"
    by (simp add: kref_get_def)
  show "1 < krefs s (KMem m) \<Longrightarrow> \<exists>s'. bafs_mem_put K m s = Some s' \<and> Suc (krefs s' (KMem m)) = krefs s (KMem m)"
    by simp
  show "kref_get (KMem m) s = Some s' \<Longrightarrow> bafs_mem_put K m s' = Some s"
    by (auto simp: kref_get_def split: if_splits)
  show "krefs s (KMem m) = 0 \<Longrightarrow> kref_get (KMem m) s = None \<and> bafs_mem_put K m s = None"
    by (simp add: kref_get_def bafs_mem_put_def kref_put_def)
qed

section \<open>Registration\<close>

text \<open>A newly registered memory and the state after its registration as number \<open>i\<close>.\<close>

definition mem_new :: "addr \<Rightarrow> u32 \<Rightarrow> BAFS_IOC_REG_MEM_PARAMS \<Rightarrow> bafs_mem" where
  "mem_new c i params = mem_zero\<lparr>mem_size := ucast (rm_size params), mem_loc := rm_loc params,
     mem_ctx := c, mem_id := i\<rparr>"

definition registered :: "addr \<Rightarrow> u32 \<Rightarrow> u64 \<Rightarrow> world \<Rightarrow> world" where
  "registered c i argp s =
     (let m = next_addr s; params = u_reg (user s) argp; cx = the (ctxs s c) in
      s\<lparr>next_addr := Suc m, mems := (mems s)(m \<mapsto> mem_new c i params),
        krefs := (krefs s)(KCtx c := Suc (krefs s (KCtx c)), KMem m := 1),
        ctxs := (ctxs s)(c \<mapsto> cx\<lparr>bafs_mem_xa := (bafs_mem_xa cx)(i \<mapsto> m), mem_list := m # mem_list cx\<rparr>),
        user := (user s)\<lparr>u_reg := (u_reg (user s))(argp := params\<lparr>rm_handle := i + 1\<rparr>)\<rparr>\<rparr>)"

lemma bafs_core_reg_mem_eq:
  assumes "fresh s" and "xa_index_ok K" and "ctxs s c = Some cx" and "0 < krefs s (KCtx c)"
    and "CtxLock c \<notin> held s" and t: "t = now s"
    and idx: "idx = k_xa_index K (t + 2) (\<lambda>i. bafs_mem_xa cx i \<noteq> None)"
  shows "bafs_core_reg_mem K argp c s = Some (
    if \<not> k_copy K t then (- EFAULT, s\<lparr>now := t + 1\<rparr>)
    else if \<not> k_alloc K (t + 1) then (- ENOMEM, s\<lparr>now := t + 2\<rparr>)
    else if idx = None then (- ENOMEM, s\<lparr>now := t + 3, next_addr := Suc (next_addr s)\<rparr>)
    else if \<not> k_copy K (t + 3) then (- EFAULT, s\<lparr>now := t + 4, next_addr := Suc (next_addr s)\<rparr>)
    else (0, (registered c (the idx) argp s)\<lparr>now := t + 4\<rparr>))"
proof (cases idx)
  case None
  with assms show ?thesis
    by (simp add: bafs_core_reg_mem_def prim_defs Let_def freshD fun_upd_idem)
next
  case (Some i)
  then have "bafs_mem_xa cx i = None"
    using xa_index_fresh [OF assms(2), of "t + 2" "\<lambda>i. bafs_mem_xa cx i \<noteq> None" i] idx by simp
  with Some assms show ?thesis
    by (simp add: bafs_core_reg_mem_def prim_defs Let_def freshD fun_upd_idem ctx_forget_mem_def
        registered_def mem_new_def mem_zero_def numeral_3_eq_3)
qed

text \<open>
  C15. Registration either returns 0 with a stale memory of the requested size and kind that
  holds a reference on the context, is linked in its list and is entered in its table
  under an unused number whose successor is the handle the user gets (never 0, at most
  \<open>2^31\<close>), or returns an error after undoing everything, in every one of its four failures.
\<close>

theorem bafs_core_reg_mem_spec:
  assumes "fresh s" and "xa_index_ok K" and "ctxs s c = Some cx" and "0 < krefs s (KCtx c)"
    and "CtxLock c \<notin> held s"
  shows "yields (bafs_core_reg_mem K argp c s) (\<lambda>(ret, s').
    if ret = 0 then \<exists>i. s' = (registered c i argp s)\<lparr>now := now s'\<rparr> \<and> bafs_mem_xa cx i = None \<and>
        rm_handle (u_reg (user s') argp) = i + 1 \<and> 0 < unat (i + 1) \<and> unat (i + 1) \<le> 2 ^ 31
    else ret \<in> {- EFAULT, - ENOMEM} \<and> restored s s')"
proof -
  let ?idx = "k_xa_index K (now s + 2) (\<lambda>i. bafs_mem_xa cx i \<noteq> None)"
  note eq = bafs_core_reg_mem_eq [OF assms refl refl, of argp]
  show ?thesis
  proof (cases ?idx)
    case None
    then show ?thesis unfolding eq by (simp add: restored_def)
  next
    case (Some i)
    from xa_index_fresh [OF assms(2) this]
    have i: "bafs_mem_xa cx i = None" "unat i < 2 ^ 31" by simp_all
    then have "unat (i + 1) = unat i + 1"
      by (simp add: unat_word_ariths)
    with i Some show ?thesis unfolding eq by (simp add: restored_def registered_def Let_def)
  qed
qed

theorem bafs_core_reg_mem_spec_witness:
  "yields (bafs_core_reg_mem demo_kernel 0 1 demo_ctx_world) (\<lambda>(ret, s').
    if ret = 0 then \<exists>i. s' = (registered 1 i 0 demo_ctx_world)\<lparr>now := now s'\<rparr> \<and>
        rm_handle (u_reg (user s') 0) = i + 1 \<and> 0 < unat (i + 1) \<and> unat (i + 1) \<le> 2 ^ 31
    else ret \<in> {- EFAULT, - ENOMEM} \<and> restored demo_ctx_world s')"
proof -
  have "ctxs demo_ctx_world 1 = Some \<lparr>bafs_mem_xa = Map.empty, mem_list = [], ctx_tgid = 77\<rparr>"
    "0 < krefs demo_ctx_world (KCtx 1)" "CtxLock 1 \<notin> held demo_ctx_world"
    by (simp_all add: demo_ctx_world_def empty_world_def)
  from bafs_core_reg_mem_spec [OF fresh_demo_ctx_world demo_kernel_ok(1) this, of 0]
  show ?thesis by (rule yields_mono) (auto split: if_splits)
qed

section \<open>Releasing the last reference\<close>

lemma mem_release_pages_cpu:
  assumes "mems s m = Some x" and "mem_state x \<noteq> STALE" and "mem_loc x = BAFS_MEM_CPU"
    and "n = unat (n_pages x)" and "cpu_page_table x = Some (page_array b n n)"
    and "\<And>p. b \<le> p \<Longrightarrow> p < b + n \<Longrightarrow> 0 < res s (Page p)" and "0 < res s (Buf PageArray)"
  shows "mem_release_pages K m s =
    Some (s\<lparr>res := (del_pages b n (res s))(Buf PageArray := res s (Buf PageArray) - 1),
      mems := (mems s)(m \<mapsto> x\<lparr>mem_state := DEAD\<rparr>)\<rparr>)"
proof -
  have "cpu_free_up m 0 n s = Some (s\<lparr>res := del_pages b n (res s)\<rparr>)"
    using cpu_free_up_eq [of s m x b n n 0 n] assms by simp
  with assms show ?thesis
    by (simp add: mem_release_pages_def release_def upd_mem_def)
qed

lemma mem_release_pages_stale:
  "mems s m = Some x \<Longrightarrow> mem_state x = STALE \<Longrightarrow> mem_release_pages K m s = Some s"
  by (simp add: mem_release_pages_def)

text \<open>
  The last reference of a memory whose pages are given back by \<open>mem_release_pages\<close> to the
  ledger \<open>r\<close>: the memory is unlinked from its context, freed, and its reference on the
  context is given back.
\<close>

lemma bafs_mem_release_kref_eq:
  assumes x: "mems s m = Some x" and c: "c = mem_ctx x" and cx: "ctxs s c = Some cx"
    and "m \<in> set (mem_list cx)" and "CtxLock c \<notin> held s" and "MemLock m \<notin> held s"
    and k: "1 < krefs s (KCtx c)"
    and rel: "\<And>t. mems t m = Some x \<Longrightarrow> res t = res s \<Longrightarrow>
      \<exists>x'. mem_release_pages K m t = Some (t\<lparr>res := r, mems := (mems t)(m \<mapsto> x')\<rparr>)"
  shows "bafs_mem_release_kref K m s =
    Some (s\<lparr>mems := (mems s)(m := None), res := r,
      krefs := (krefs s)(KMem m := 0, KCtx c := krefs s (KCtx c) - 1),
      ctxs := (ctxs s)(c \<mapsto> cx\<lparr>mem_list := remove1 m (mem_list cx),
        bafs_mem_xa := (bafs_mem_xa cx)(mem_id x := None)\<rparr>)\<rparr>)"
proof -
  let ?t = "s\<lparr>ctxs := (ctxs s)(c \<mapsto> cx\<lparr>mem_list := remove1 m (mem_list cx),
        bafs_mem_xa := (bafs_mem_xa cx)(mem_id x := None)\<rparr>),
      held := insert (MemLock m) (held s)\<rparr>"
  obtain x' where r: "mem_release_pages K m ?t = Some (?t\<lparr>res := r, mems := (mems ?t)(m \<mapsto> x')\<rparr>)"
    using rel [of ?t] x by auto
  show ?thesis
    using assms(1-7) r
    by (simp add: bafs_mem_release_kref_def prim_defs ctx_forget_mem_def Let_def fun_upd_idem)
qed

end
