(* ===== verification/Bafs_Mem_Life.thy ===== *)
theory Bafs_Mem_Life
  imports Bafs_Mem
begin

text \<open>
  The life of a registered memory: pinning it by mmap, unmapping it, and the release of its
  last reference, for CPU and for CUDA memory. The states are given in closed form, so
  that a round trip is one equation.
\<close>

section \<open>Pinning CPU memory\<close>

lemma cpu_geom_same_table [simp]: "(cpu_geom x)\<lparr>cpu_page_table := cpu_page_table x\<rparr> = cpu_geom x"
  by (cases x) (simp add: cpu_geom_def)

text \<open>
  \<open>pin_bafs_cpu_mem\<close> is all or nothing: when it returns 0 the memory has a page table
  with one allocated page per entry, as many as its size needs; when it fails (an
  unaligned address, the page array, any one of the pages, the mapping) every page and the
  array have been given back and the memory has no new page table.
\<close>

theorem pin_bafs_cpu_mem_spec:
  assumes "mems s m = Some x" and "n = unat (page_count (mem_size x) PAGE_SIZE PAGE_SHIFT)"
  shows "yields (pin_bafs_cpu_mem K m s) (\<lambda>(ret, s').
    if ret = 0 then mem_vaddr x AND mask_of PAGE_SIZE = mem_vaddr x \<and>
        res s' = add_pages (next_addr s) n ((res s)(Buf PageArray := Suc (res s (Buf PageArray)))) \<and>
        mems s' = (mems s)(m \<mapsto> (cpu_geom x)\<lparr>cpu_page_table := Some (map Some [next_addr s..<next_addr s + n])\<rparr>)
    else ret \<in> {- EINVAL, - ENOMEM} \<and> res s' = res s \<and>
        (\<exists>t \<in> {cpu_page_table x, None}. mems s' = (mems s)(m \<mapsto> (cpu_geom x)\<lparr>cpu_page_table := t\<rparr>)))"
  unfolding pin_bafs_cpu_mem_eq [OF assms refl refl] by (simp add: page_array_def)

theorem pin_bafs_cpu_mem_spec_witness:
  "yields (pin_bafs_cpu_mem demo_kernel 2 (demo_ctx_world\<lparr>mems := [2 \<mapsto> mem_zero\<lparr>mem_size := 5000\<rparr>]\<rparr>))
    (\<lambda>(ret, s'). ret = 0 \<longrightarrow> res s' (Page 2) = 1 \<and> res s' (Page 3) = 1 \<and> res s' (Page 4) = 0)"
proof -
  let ?s = "demo_ctx_world\<lparr>mems := [2 \<mapsto> mem_zero\<lparr>mem_size := 5000\<rparr>]\<rparr>"
  have s: "mems ?s 2 = Some (mem_zero\<lparr>mem_size := 5000\<rparr>)" by simp
  have n: "2 = unat (page_count (mem_size (mem_zero\<lparr>mem_size := 5000\<rparr>)) PAGE_SIZE PAGE_SHIFT)"
    by (simp add: page_count_def)
  have "next_addr ?s = 2" "\<And>p. res ?s (Page p) = 0"
    by (simp_all add: demo_ctx_world_def)
  with pin_bafs_cpu_mem_spec [OF s n, of demo_kernel] show ?thesis
    by (elim yields_mono) (auto simp: add_pages_def)
qed

text \<open>The memory after a successful mmap at \<open>va\<close>, with its pages from address \<open>b\<close> on.\<close>

definition cpu_pinned :: "u64 \<Rightarrow> addr \<Rightarrow> bafs_mem \<Rightarrow> bafs_mem" where
  "cpu_pinned va b x =
     (let n = unat (page_count (mem_size x) PAGE_SIZE PAGE_SHIFT) in
      (cpu_geom (x\<lparr>mem_vaddr := va\<rparr>))\<lparr>cpu_page_table := Some (page_array b n n), mem_state := LIVE\<rparr>)"

lemma cpu_pinned_simps [simp]:
  "mem_ctx (cpu_pinned va b x) = mem_ctx x" "mem_id (cpu_pinned va b x) = mem_id x"
  "dma_list (cpu_pinned va b x) = dma_list x" "mem_state (cpu_pinned va b x) = LIVE"
  "mem_vaddr (cpu_pinned va b x) = va" "mem_loc (cpu_pinned va b x) = mem_loc x"
  "mem_size (cpu_pinned va b x) = mem_size x" "page_size (cpu_pinned va b x) = PAGE_SIZE"
  "n_pages (cpu_pinned va b x) = page_count (mem_size x) PAGE_SIZE PAGE_SHIFT"
  by (simp_all add: cpu_pinned_def Let_def)

lemma cpu_pinned_table:
  "n = unat (n_pages (cpu_pinned va b x)) \<Longrightarrow>
     cpu_page_table (cpu_pinned va b x) = Some (page_array b n n)"
  by (simp add: cpu_pinned_def Let_def)

definition vma_pinned :: "addr \<Rightarrow> vm_area \<Rightarrow> vm_area" where
  "vma_pinned m vma = vma\<lparr>vm_ops_set := True, vm_private_data := Some m,
     vm_flags := (vm_flags vma OR VM_DONTCOPY) OR VM_DONTEXPAND\<rparr>"

text \<open>The handle of a memory is the page offset of its mapping.\<close>

definition vma_id :: "vm_area \<Rightarrow> u32" where
  "vma_id vma = ucast (vm_pgoff vma - 1)"

lemma pin_bafs_mem_unknown:
  assumes "vmas s v = Some vma" and "0 < krefs s (KCtx c)" and "CtxLock c \<notin> held s"
    and "ctxs s c = Some cx" and "bafs_mem_xa cx (vma_id vma) = None"
  shows "pin_bafs_mem K v c s = Some (- EINVAL, s)"
  using assms by (simp add: pin_bafs_mem_def prim_defs Let_def vma_id_def fun_upd_idem)

text \<open>What \<open>pin_bafs_mem\<close> does after the memory is found: the pinning proper and what follows it.\<close>

lemma pin_bafs_mem_step:
  assumes "vmas s v = Some vma" and "0 < krefs s (KCtx c)" and "CtxLock c \<notin> held s"
    and "ctxs s c = Some cx" and "bafs_mem_xa cx (vma_id vma) = Some m"
    and "mems s m = Some x" and "0 < krefs s (KMem m)" and "MemLock m \<notin> held s"
    and t: "t = s\<lparr>krefs := (krefs s)(KMem m := Suc (krefs s (KMem m))), held := insert (MemLock m) (held s),
      mems := (mems s)(m \<mapsto> x\<lparr>mem_vaddr := vm_start vma\<rparr>)\<rparr>"
  shows "pin_bafs_mem K v c s = do {
     (ret, s) \<leftarrow> (if mem_loc x = BAFS_MEM_CPU then pin_bafs_cpu_mem K m t
                   else if mem_loc x = BAFS_MEM_CUDA then pin_bafs_cuda_mem K m v t
                   else Some (- EINVAL, t));
     s \<leftarrow> (if ret \<noteq> 0 then Some s
            else do {
              s \<leftarrow> upd_mem m (mem_state_update (\<lambda>_. LIVE)) s;
              upd_vma v (vma_pinned m) s
            });
     s \<leftarrow> spin_unlock (MemLock m) s;
     s \<leftarrow> bafs_mem_put K m s;
     Some (ret, s)
   }"
  unfolding vma_pinned_def [abs_def] using assms
  by (simp add: pin_bafs_mem_def prim_defs Let_def vma_id_def fun_upd_idem)

lemma pin_bafs_mem_cpu_eq:
  assumes "vmas s v = Some vma" and "0 < krefs s (KCtx c)" and "CtxLock c \<notin> held s"
    and "ctxs s c = Some cx" and "bafs_mem_xa cx (vma_id vma) = Some m"
    and "mems s m = Some x" and "0 < krefs s (KMem m)" and "MemLock m \<notin> held s"
    and loc: "mem_loc x = BAFS_MEM_CPU" and n: "n = unat (page_count (mem_size x) PAGE_SIZE PAGE_SHIFT)"
    and q: "q = ok_run (k_alloc K) (Suc (now s)) n" and b: "b = next_addr s"
    and g: "g = cpu_geom (x\<lparr>mem_vaddr := vm_start vma\<rparr>)"
  shows "pin_bafs_mem K v c s = Some (
    if vm_start vma AND mask_of PAGE_SIZE \<noteq> vm_start vma
    then (- EINVAL, s\<lparr>mems := (mems s)(m \<mapsto> g)\<rparr>)
    else if \<not> k_alloc K (now s)
    then (- ENOMEM, s\<lparr>now := Suc (now s), mems := (mems s)(m \<mapsto> g\<lparr>cpu_page_table := None\<rparr>)\<rparr>)
    else if q \<noteq> n
    then (- ENOMEM, s\<lparr>now := Suc (Suc (now s + q)), next_addr := b + q,
        mems := (mems s)(m \<mapsto> g\<lparr>cpu_page_table := None\<rparr>)\<rparr>)
    else if k_ret K VmMapPagesZero (Suc (now s + n)) \<noteq> 0
    then (- ENOMEM, s\<lparr>now := Suc (Suc (now s + n)), next_addr := b + n,
        mems := (mems s)(m \<mapsto> g\<lparr>cpu_page_table := None\<rparr>)\<rparr>)
    else (0, s\<lparr>now := Suc (Suc (now s + n)), next_addr := b + n,
        res := add_pages b n ((res s)(Buf PageArray := Suc (res s (Buf PageArray)))),
        mems := (mems s)(m \<mapsto> cpu_pinned (vm_start vma) b x),
        vmas := (vmas s)(v \<mapsto> vma_pinned m vma)\<rparr>))"
proof -
  let ?t = "s\<lparr>krefs := (krefs s)(KMem m := Suc (krefs s (KMem m))), held := insert (MemLock m) (held s),
      mems := (mems s)(m \<mapsto> x\<lparr>mem_vaddr := vm_start vma\<rparr>)\<rparr>"
  have "n = unat (page_count (mem_size (x\<lparr>mem_vaddr := vm_start vma\<rparr>)) PAGE_SIZE PAGE_SHIFT)"
    by (simp add: n)
  from pin_bafs_cpu_mem_eq [of ?t m "x\<lparr>mem_vaddr := vm_start vma\<rparr>" n q K b, OF _ this] q b
  show ?thesis
    unfolding pin_bafs_mem_step [OF assms(1-8) refl]
    using assms(1,3,7,8) loc
    by (simp add: spin_unlock_def upd_mem_def upd_vma_def g [symmetric] cpu_pinned_def Let_def
        n [symmetric] fun_upd_idem split: if_split)
qed

section \<open>What a DMA mapping of a CPU memory owns\<close>

text \<open>
  A mapping owns one bus mapping per page, of the length \<open>map_gran\<close>, and its array of
  addresses. \<open>dma_pdev\<close> is the PCI device of its controller.
\<close>

definition maps_of :: "nat \<Rightarrow> u32 \<Rightarrow> u64 list \<Rightarrow> resource \<Rightarrow> nat" where
  "maps_of p g as r =
     (case r of DmaMap p' a g' \<Rightarrow> if p' = p \<and> g' = g then count_list as a else 0 | _ \<Rightarrow> 0)"

definition dma_owns :: "nat \<Rightarrow> bafs_mem_dma \<Rightarrow> resource \<Rightarrow> nat" where
  "dma_owns p y r =
     maps_of p (map_gran y) (the (dma_addrs y)) r + (if r = Buf DmaAddrs then 1 else 0)"

lemma maps_of_Nil [simp]: "maps_of p g [] r = 0"
  by (simp add: maps_of_def split: resource.split)

lemma maps_of_Cons: "maps_of p g (a # as) r = maps_of p g as r + (if r = DmaMap p a g then 1 else 0)"
  by (auto simp: maps_of_def split: resource.split)

lemma maps_of_snoc: "maps_of p g (as @ [a]) r = maps_of p g as r + (if r = DmaMap p a g then 1 else 0)"
  by (auto simp: maps_of_def split: resource.split)

lemma maps_of_other [simp]: "maps_of p g as (Buf b) = 0" "maps_of p g as (Page q) = 0"
  by (simp_all add: maps_of_def)

definition dma_pdev :: "world \<Rightarrow> bafs_mem_dma \<Rightarrow> nat" where
  "dma_pdev s y = pdev (the (ctrls s (dma_ctrl y)))"

text \<open>The page geometry of a pinned memory, and a mapping that fits it.\<close>

definition mem_geom :: "bafs_mem \<Rightarrow> bool" where
  "mem_geom x \<longleftrightarrow> (\<exists>sh. geometry (page_size x) sh \<and> unat (mem_size x) < 2 ^ 32 \<and>
     n_pages x = page_count (mem_size x) (page_size x) sh)"

definition dma_fits :: "bafs_mem \<Rightarrow> bafs_mem_dma \<Rightarrow> bool" where
  "dma_fits x y \<longleftrightarrow> map_gran y = ucast (page_size x) \<and>
     (\<exists>as. dma_addrs y = Some as \<and> length as = unat (n_pages x))"

lemma mem_geom_gran: "mem_geom x \<Longrightarrow> i < unat (n_pages x) \<Longrightarrow>
    dma_gran i (ucast (page_size x)) (mem_size x) = ucast (page_size x)"
  by (auto simp: mem_geom_def gran_full)

lemma dma_unmap_up_eq:
  assumes "\<And>j. j < length as \<Longrightarrow> dma_gran j g sz = g" and "i + k = length as"
    and "\<And>r. maps_of p g (drop i as) r \<le> res s r"
  shows "dma_unmap_up p g sz as i k s = Some (s\<lparr>res := (\<lambda>r. res s r - maps_of p g (drop i as) r)\<rparr>)"
  using assms(2,3)
proof (induction k arbitrary: i s)
  case 0
  then show ?case by simp
next
  case (Suc k)
  have i: "i < length as" and drop: "drop i as = as ! i # drop (Suc i) as"
    using Suc.prems(1) by (auto simp: Cons_nth_drop_Suc)
  let ?s = "s\<lparr>res := (res s)(DmaMap p (as ! i) g := res s (DmaMap p (as ! i) g) - 1)\<rparr>"
  have pos: "0 < res s (DmaMap p (as ! i) g)"
    using Suc.prems(2) [of "DmaMap p (as ! i) g"] by (simp add: drop maps_of_Cons)
  have "dma_unmap_up p g sz as i (Suc k) s = dma_unmap_up p g sz as (Suc i) k ?s"
    using i pos assms(1) [OF i] by (simp add: release_def)
  also have "\<dots> = Some (?s\<lparr>res := (\<lambda>r. res ?s r - maps_of p g (drop (Suc i) as) r)\<rparr>)"
  proof (rule Suc.IH)
    fix r show "maps_of p g (drop (Suc i) as) r \<le> res ?s r"
      using Suc.prems(2) [of r] by (auto simp: drop maps_of_Cons split: if_splits)
  qed (use Suc.prems in simp)
  also have "(\<lambda>r. res ?s r - maps_of p g (drop (Suc i) as) r) = (\<lambda>r. res s r - maps_of p g (drop i as) r)"
    by (auto simp: drop maps_of_Cons)
  finally show ?case by simp
qed

lemma unmap_dma_cpu_eq:
  assumes "dmas s d = Some y" and "m = dma_mem y" and "mems s m = Some x" and "d \<in> set (dma_list x)"
    and "mem_loc x = BAFS_MEM_CPU" and "mem_geom x" and "dma_fits x y"
    and "c = dma_ctrl y" and "ctrls s c \<noteq> None" and "1 < krefs s (KCtrl c)"
    and own: "\<And>r. dma_owns (dma_pdev s y) y r \<le> res s r"
  shows "unmap_dma K d s = Some (s\<lparr>mems := (mems s)(m \<mapsto> x\<lparr>dma_list := remove1 d (dma_list x)\<rparr>),
      dmas := (dmas s)(d := None), krefs := (krefs s)(KCtrl c := krefs s (KCtrl c) - 1),
      res := (\<lambda>r. res s r - dma_owns (dma_pdev s y) y r)\<rparr>)"
proof -
  obtain cc as where cc: "ctrls s c = Some cc" and as: "dma_addrs y = Some as" "length as = unat (n_pages x)"
    and g: "map_gran y = ucast (page_size x)"
    using assms by (auto simp: dma_fits_def)
  then have p: "dma_pdev s y = pdev cc" using assms(8) by (simp add: dma_pdev_def)
  let ?s = "s\<lparr>mems := (mems s)(m \<mapsto> x\<lparr>dma_list := remove1 d (dma_list x)\<rparr>)\<rparr>"
  have le: "maps_of (pdev cc) (map_gran y) as r \<le> res s r" for r
    using own [of r] by (simp add: dma_owns_def p as)
  have "dma_unmap_up (pdev cc) (map_gran y) (mem_size x) as 0 (unat (n_pages x)) ?s =
      Some (?s\<lparr>res := (\<lambda>r. res ?s r - maps_of (pdev cc) (map_gran y) (drop 0 as) r)\<rparr>)"
    by (rule dma_unmap_up_eq) (use as le mem_geom_gran [OF assms(6)] in \<open>simp_all add: g\<close>)
  moreover have "0 < res s (Buf DmaAddrs)"
    using own [of "Buf DmaAddrs"] by (simp add: dma_owns_def)
  moreover have "(\<lambda>r. res s r - maps_of (pdev cc) (map_gran y) as r)(Buf DmaAddrs := res s (Buf DmaAddrs) - Suc 0)
      = (\<lambda>r. res s r - dma_owns (dma_pdev s y) y r)"
    by (auto simp: fun_eq_iff dma_owns_def p as)
  ultimately show ?thesis
    using assms(1-5,8,10) cc as
    by (simp add: unmap_dma_def list_unlink_def upd_mem_def upd_dma_def release_def kfree_dma_def
        bafs_ctrl_release_shared)
qed

section \<open>Removing all mappings of a memory\<close>

text \<open>What a list of mappings owns, and the references the removal gives back.\<close>

definition dmas_own :: "world \<Rightarrow> addr list \<Rightarrow> resource \<Rightarrow> nat" where
  "dmas_own s ds r = (\<Sum>d \<leftarrow> ds. dma_owns (dma_pdev s (the (dmas s d))) (the (dmas s d)) r)"

definition dmas_refs :: "world \<Rightarrow> addr \<Rightarrow> addr list \<Rightarrow> kobj \<Rightarrow> nat" where
  "dmas_refs s m ds k =
     (case k of
        KMem m' \<Rightarrow> if m' = m then length ds else 0
      | KCtrl c \<Rightarrow> length (filter (\<lambda>d. dma_ctrl (the (dmas s d)) = c) ds)
      | _ \<Rightarrow> 0)"

lemma dmas_own_Nil [simp]: "dmas_own s [] r = 0"
  by (simp add: dmas_own_def)

lemma dmas_refs_Nil [simp]: "dmas_refs s m [] k = 0"
  by (simp add: dmas_refs_def split: kobj.split)

lemma dmas_own_cong:
  "(\<And>d. d \<in> set ds \<Longrightarrow> dmas t d = dmas s d) \<Longrightarrow> ctrls t = ctrls s \<Longrightarrow> dmas_own t ds r = dmas_own s ds r"
  unfolding dmas_own_def dma_pdev_def by (intro arg_cong [where f = sum_list] map_cong) auto

lemma dmas_refs_cong:
  "(\<And>d. d \<in> set ds \<Longrightarrow> dmas t d = dmas s d) \<Longrightarrow> dmas_refs t m ds k = dmas_refs s m ds k"
  unfolding dmas_refs_def
  by (auto split: kobj.split intro!: arg_cong [where f = length] filter_cong)

lemma dmas_refs_Cons:
  "dmas_refs s m (d # ds) k = dmas_refs s m ds k +
     (if k = KMem m \<or> k = KCtrl (dma_ctrl (the (dmas s d))) then 1 else 0)"
  by (auto simp: dmas_refs_def split: kobj.split)

text \<open>The mappings of a memory: each of them fits it, and its controller exists.\<close>

definition dmas_ok :: "world \<Rightarrow> addr \<Rightarrow> bafs_mem \<Rightarrow> addr list \<Rightarrow> bool" where
  "dmas_ok s m x ds \<longleftrightarrow> distinct ds \<and> (\<forall>d \<in> set ds. \<exists>y. dmas s d = Some y \<and> dma_mem y = m \<and>
     dma_fits x y \<and> ctrls s (dma_ctrl y) \<noteq> None)"

text \<open>The state in which a list of mappings of a memory is gone.\<close>

definition dmas_removed :: "addr \<Rightarrow> bafs_mem \<Rightarrow> addr list \<Rightarrow> world \<Rightarrow> world" where
  "dmas_removed m x ds s =
     s\<lparr>mems := (mems s)(m \<mapsto> x\<lparr>dma_list := []\<rparr>), dmas := (\<lambda>d. if d \<in> set ds then None else dmas s d),
       krefs := (\<lambda>k. krefs s k - dmas_refs s m ds k), res := (\<lambda>r. res s r - dmas_own s ds r)\<rparr>"

lemma mem_release_loop_eq:
  assumes "mems s m = Some x" and "dma_list x = ds" and "dmas_ok s m x ds"
    and "mem_loc x = BAFS_MEM_CPU" and "mem_geom x"
    and "\<And>k. 0 < dmas_refs s m ds k \<Longrightarrow> dmas_refs s m ds k < krefs s k"
    and "\<And>r. dmas_own s ds r \<le> res s r"
  shows "mem_release_loop K m ds s = Some (dmas_removed m x ds s)"
  using assms
proof (induction ds arbitrary: s x)
  case Nil
  have "x\<lparr>dma_list := []\<rparr> = x" using Nil.prems(2) by (cases x) simp
  with Nil.prems(1) show ?case by (simp add: dmas_removed_def fun_upd_idem)
next
  case (Cons d ds)
  from Cons.prems(3) obtain y where y: "dmas s d = Some y" "dma_mem y = m" "dma_fits x y"
      "ctrls s (dma_ctrl y) \<noteq> None" and d: "d \<notin> set ds" and ok: "dmas_ok s m x ds"
    by (auto simp: dmas_ok_def)
  let ?c = "dma_ctrl y" and ?x = "x\<lparr>dma_list := ds\<rparr>"
  let ?t = "s\<lparr>mems := (mems s)(m \<mapsto> ?x), dmas := (dmas s)(d := None),
      res := (\<lambda>r. res s r - dma_owns (dma_pdev s y) y r),
      krefs := (krefs s)(KCtrl ?c := krefs s (KCtrl ?c) - 1, KMem m := krefs s (KMem m) - 1)\<rparr>"
  have refs: "1 < krefs s (KCtrl ?c)" "1 < krefs s (KMem m)"
    using Cons.prems(6) [of "KCtrl ?c"] Cons.prems(6) [of "KMem m"] y(1)
    by (auto simp: dmas_refs_Cons)
  have own: "dmas_own s (d # ds) r = dma_owns (dma_pdev s y) y r + dmas_own s ds r" for r
    by (simp add: dmas_own_def y(1))
  have refs_eq: "dmas_refs ?t m ds k = dmas_refs s m ds k" for k
    using d by (intro dmas_refs_cong) auto
  have own_eq: "dmas_own ?t ds r = dmas_own s ds r" for r
    using d by (intro dmas_own_cong) auto
  have le: "dma_owns (dma_pdev s y) y r \<le> res s r" for r
    using Cons.prems(7) [of r] own [of r] by simp
  have "unmap_dma K d s = Some (s\<lparr>mems := (mems s)(m \<mapsto> ?x), dmas := (dmas s)(d := None),
      krefs := (krefs s)(KCtrl ?c := krefs s (KCtrl ?c) - 1), res := (\<lambda>r. res s r - dma_owns (dma_pdev s y) y r)\<rparr>)"
    using unmap_dma_cpu_eq [OF y(1) y(2) [symmetric] Cons.prems(1) _ Cons.prems(4,5) y(3) refl y(4) refs(1) le]
      Cons.prems(2) by simp
  then have "mem_release_loop K m (d # ds) s = mem_release_loop K m ds ?t"
    using refs by simp
  also have "\<dots> = Some (dmas_removed m ?x ds ?t)"
  proof (rule Cons.IH)
    show "dmas_ok ?t m ?x ds"
      using ok d by (auto simp: dmas_ok_def dma_fits_def)
    show "mem_geom ?x" using Cons.prems(5) by (simp add: mem_geom_def)
    show "dmas_refs ?t m ds k < krefs ?t k" if "0 < dmas_refs ?t m ds k" for k
      using that Cons.prems(6) [of k] y(1) unfolding refs_eq
      by (auto simp: dmas_refs_Cons split: if_splits)
    show "dmas_own ?t ds r \<le> res ?t r" for r
      using Cons.prems(7) [of r] own [of r] unfolding own_eq by simp
  qed (use Cons.prems in simp_all)
  also have "dmas_removed m ?x ds ?t = dmas_removed m x (d # ds) s"
    unfolding dmas_removed_def refs_eq own_eq
    by (rule world.equality) (auto simp: fun_eq_iff dmas_refs_Cons own y(1))
  finally show ?case .
qed

section \<open>Unmapping a pinned CPU memory\<close>

text \<open>A pinned CPU memory owns its pages, at \<open>n\<close> consecutive addresses from \<open>b\<close>, and the page array.\<close>

definition pages_owned :: "addr \<Rightarrow> nat \<Rightarrow> resource \<Rightarrow> nat" where
  "pages_owned b n r = (case r of Page p \<Rightarrow> if b \<le> p \<and> p < b + n then 1 else 0 | Buf PageArray \<Rightarrow> 1 | _ \<Rightarrow> 0)"

definition cpu_live :: "addr \<Rightarrow> bafs_mem \<Rightarrow> bool" where
  "cpu_live b x \<longleftrightarrow> mem_loc x = BAFS_MEM_CPU \<and> mem_state x \<noteq> STALE \<and> mem_geom x \<and>
     cpu_page_table x = Some (page_array b (unat (n_pages x)) (unat (n_pages x)))"

lemma cpu_live_pinned:
  "mem_loc x = BAFS_MEM_CPU \<Longrightarrow> unat (mem_size x) < 2 ^ 32 \<Longrightarrow> cpu_live b (cpu_pinned va b x)"
  by (auto simp: cpu_live_def mem_geom_def cpu_pinned_table intro!: exI [of _ 12])

lemma mem_release_pages_live:
  assumes "mems s m = Some x" and "cpu_live b x" and "\<And>r. pages_owned b (unat (n_pages x)) r \<le> res s r"
  shows "mem_release_pages K m s =
    Some (s\<lparr>res := (\<lambda>r. res s r - pages_owned b (unat (n_pages x)) r),
      mems := (mems s)(m \<mapsto> x\<lparr>mem_state := DEAD\<rparr>)\<rparr>)"
proof -
  let ?n = "unat (n_pages x)"
  have "0 < res s (Page p)" if "b \<le> p" "p < b + ?n" for p
    using assms(3) [of "Page p"] that by (simp add: pages_owned_def)
  moreover have "0 < res s (Buf PageArray)"
    using assms(3) [of "Buf PageArray"] by (simp add: pages_owned_def)
  moreover have "(del_pages b ?n (res s))(Buf PageArray := res s (Buf PageArray) - 1) =
      (\<lambda>r. res s r - pages_owned b ?n r)"
    by (auto simp: fun_eq_iff del_pages_def pages_owned_def split: resource.split buf.split)
  ultimately show ?thesis
    using mem_release_pages_cpu [of s m x ?n b K] assms(1,2) by (simp add: cpu_live_def)
qed

text \<open>The context without the memory, and the state after the memory and its mappings are gone.\<close>

definition ctx_without :: "addr \<Rightarrow> u32 \<Rightarrow> bafs_ctx \<Rightarrow> bafs_ctx" where
  "ctx_without m i cx = cx\<lparr>mem_list := remove1 m (mem_list cx), bafs_mem_xa := (bafs_mem_xa cx)(i := None)\<rparr>"

text \<open>The state after a memory is gone, with \<open>D\<close> the remaining mappings and \<open>R\<close> the remaining ledger.\<close>

definition gone :: "nat \<Rightarrow> addr \<Rightarrow> bafs_mem \<Rightarrow> bafs_ctx \<Rightarrow> (addr \<rightharpoonup> bafs_mem_dma) \<Rightarrow> (resource \<Rightarrow> nat) \<Rightarrow> world \<Rightarrow> world" where
  "gone v m x cx D R s =
     s\<lparr>mems := (mems s)(m := None), dmas := D, res := R,
       krefs := (\<lambda>k. krefs s k - dmas_refs s m (dma_list x) k)(KMem m := 0),
       ctxs := (ctxs s)(mem_ctx x \<mapsto> ctx_without m (mem_id x) cx),
       vmas := (vmas s)(v \<mapsto> (the (vmas s v))\<lparr>vm_private_data := None\<rparr>)\<rparr>"

text \<open>
  \<open>bafs_mem_release\<close> for any kind of memory, from what its loop over the mappings and what
  the release of its pages do.
\<close>

lemma bafs_mem_release_gen:
  assumes v: "vmas s v = Some vma" "vm_private_data vma = Some m" and x: "mems s m = Some x"
    and c: "c = mem_ctx x" "ctxs s c = Some cx" "0 < krefs s (KCtx c)"
    and "m \<in> set (mem_list cx)" and lk: "CtxLock c \<notin> held s" "MemLock m \<notin> held s"
    and ds: "ds = dma_list x" and km: "krefs s (KMem m) = Suc (length ds)"
    and loop: "\<And>t. t = s\<lparr>krefs := (krefs s)(KCtx c := Suc (krefs s (KCtx c))), held := insert (MemLock m) (held s)\<rparr> \<Longrightarrow>
      mem_release_loop K m ds t = Some (t\<lparr>mems := (mems s)(m \<mapsto> x\<lparr>dma_list := []\<rparr>), dmas := D,
        krefs := (\<lambda>k. krefs t k - dmas_refs s m ds k), res := R\<rparr>)"
    and rel: "\<And>u. mems u m = Some (x\<lparr>dma_list := []\<rparr>) \<Longrightarrow> res u = R \<Longrightarrow>
      \<exists>x'. mem_release_pages K m u = Some (u\<lparr>res := R', mems := (mems u)(m \<mapsto> x')\<rparr>)"
  shows "bafs_mem_release K v s = bafs_put_ctx c (gone v m x cx D R' s)"
proof -
  let ?s = "s\<lparr>krefs := (krefs s)(KCtx c := Suc (krefs s (KCtx c))), held := insert (MemLock m) (held s)\<rparr>"
  let ?u = "s\<lparr>mems := (mems s)(m \<mapsto> x\<lparr>dma_list := []\<rparr>), dmas := D,
      krefs := (\<lambda>k. krefs ?s k - dmas_refs s m ds k), res := R,
      vmas := (vmas s)(v \<mapsto> vma\<lparr>vm_private_data := None\<rparr>)\<rparr>"
  let ?t = "?u\<lparr>krefs := (krefs ?u)(KMem m := 0)\<rparr>"
  have lockless: "held s - {MemLock m} = held s" using lk(2) by simp
  have "bafs_mem_release K v s = do { s \<leftarrow> bafs_mem_put K m ?u; bafs_put_ctx c s }"
    using v x c ds lk loop [OF refl]
    by (simp add: bafs_mem_release_def prim_defs Let_def lockless)
  moreover have "krefs ?u (KMem m) = 1"
    using km by (simp add: dmas_refs_def)
  moreover have "bafs_mem_release_kref K m ?t = Some (?t\<lparr>mems := (mems ?t)(m := None), res := R',
      krefs := (krefs ?t)(KMem m := 0, KCtx c := krefs ?t (KCtx c) - 1),
      ctxs := (ctxs ?t)(c \<mapsto> ctx_without m (mem_id (x\<lparr>dma_list := []\<rparr>)) cx)\<rparr>)"
    unfolding ctx_without_def using c lk assms(7) rel
    by (intro bafs_mem_release_kref_eq [where x = "x\<lparr>dma_list := []\<rparr>"]) (simp_all add: dmas_refs_def)
  moreover have "?t\<lparr>mems := (mems ?t)(m := None), res := R',
      krefs := (krefs ?t)(KMem m := 0, KCtx c := krefs ?t (KCtx c) - 1),
      ctxs := (ctxs ?t)(c \<mapsto> ctx_without m (mem_id (x\<lparr>dma_list := []\<rparr>)) cx)\<rparr> = gone v m x cx D R' s"
    using v(1) c(1) ds by (intro world.equality) (auto simp: gone_def dmas_refs_def fun_eq_iff)
  ultimately show ?thesis by (simp add: bafs_mem_put_last)
qed

abbreviation mem_gone :: "nat \<Rightarrow> addr \<Rightarrow> addr \<Rightarrow> bafs_mem \<Rightarrow> bafs_ctx \<Rightarrow> world \<Rightarrow> world" where
  "mem_gone v m b x cx s \<equiv> gone v m x cx (\<lambda>d. if d \<in> set (dma_list x) then None else dmas s d)
     (\<lambda>r. res s r - (dmas_own s (dma_list x) r + pages_owned b (unat (n_pages x)) r)) s"

lemma bafs_mem_release_eq:
  assumes v: "vmas s v = Some vma" "vm_private_data vma = Some m" and x: "mems s m = Some x"
    and live: "cpu_live b x" and c: "c = mem_ctx x" "ctxs s c = Some cx" "0 < krefs s (KCtx c)"
    and m: "m \<in> set (mem_list cx)" and lk: "CtxLock c \<notin> held s" "MemLock m \<notin> held s"
    and ds: "ds = dma_list x" "dmas_ok s m x ds" and km: "krefs s (KMem m) = Suc (length ds)"
    and kc: "\<And>e. 0 < dmas_refs s m ds (KCtrl e) \<Longrightarrow> dmas_refs s m ds (KCtrl e) < krefs s (KCtrl e)"
    and own: "\<And>r. dmas_own s ds r + pages_owned b (unat (n_pages x)) r \<le> res s r"
  shows "bafs_mem_release K v s = bafs_put_ctx c (mem_gone v m b x cx s)"
  unfolding ds(1) [symmetric]
proof (rule bafs_mem_release_gen [OF v x c m lk ds(1) km])
  fix t assume t: "t = s\<lparr>krefs := (krefs s)(KCtx c := Suc (krefs s (KCtx c))), held := insert (MemLock m) (held s)\<rparr>"
  have f: "mems t = mems s" "dmas t = dmas s" "ctrls t = ctrls s" "res t = res s"
    by (simp_all add: t)
  have same: "dmas_refs t m ds k = dmas_refs s m ds k" "dmas_own t ds r = dmas_own s ds r" for k r
    by (auto simp: f intro!: dmas_refs_cong dmas_own_cong)
  have refs: "dmas_refs s m ds k < krefs t k" if "0 < dmas_refs s m ds k" for k
    using that kc km by (cases k) (auto simp: dmas_refs_def t split: if_splits)
  have "mem_release_loop K m ds t = Some (dmas_removed m x ds t)"
    using live x ds(1) [symmetric] ds(2) refs own
    by (intro mem_release_loop_eq) (auto simp: same cpu_live_def dmas_ok_def f intro: add_leD1)
  then show "mem_release_loop K m ds t = Some (t\<lparr>mems := (mems s)(m \<mapsto> x\<lparr>dma_list := []\<rparr>),
      dmas := (\<lambda>d. if d \<in> set ds then None else dmas s d), krefs := (\<lambda>k. krefs t k - dmas_refs s m ds k),
      res := (\<lambda>r. res s r - dmas_own s ds r)\<rparr>)"
    unfolding dmas_removed_def same f .
next
  fix u :: world assume u: "mems u m = Some (x\<lparr>dma_list := []\<rparr>)" "res u = (\<lambda>r. res s r - dmas_own s ds r)"
  have live': "cpu_live b (x\<lparr>dma_list := []\<rparr>)" using live by (simp add: cpu_live_def mem_geom_def)
  have "pages_owned b (unat (n_pages x)) r \<le> res s r - dmas_own s ds r" for r
    using own [of r] by simp
  then show "\<exists>x'. mem_release_pages K m u = Some (u\<lparr>res := (\<lambda>r. res s r -
      (dmas_own s ds r + pages_owned b (unat (n_pages x)) r)), mems := (mems u)(m \<mapsto> x')\<rparr>)"
    using mem_release_pages_live [OF u(1) live', of K] by (simp add: u(2)) (rule exI, rule refl)
qed

section \<open>Register, map, unmap\<close>

lemma bafs_core_reg_mem_success:
  assumes "fresh s" and "xa_index_ok K" and "ctxs s c = Some cx" and "0 < krefs s (KCtx c)"
    and "CtxLock c \<notin> held s" and "bafs_core_reg_mem K argp c s = Some (0, s')"
  obtains i where "s' = (registered c i argp s)\<lparr>now := now s + 4\<rparr>" "bafs_mem_xa cx i = None" "unat i < 2 ^ 31"
proof -
  let ?idx = "k_xa_index K (now s + 2) (\<lambda>i. bafs_mem_xa cx i \<noteq> None)"
  from assms(6) obtain i where i: "?idx = Some i"
    and s': "s' = (registered c i argp s)\<lparr>now := now s + 4\<rparr>"
    unfolding bafs_core_reg_mem_eq [OF assms(1-5) refl refl] by (auto split: if_splits)
  from xa_index_fresh [OF assms(2) i] have "bafs_mem_xa cx i = None" "unat i < 2 ^ 31" by simp_all
  with s' that show thesis by blast
qed

lemma registered_simps:
  assumes "ctxs s c = Some cx"
  shows "mems (registered c i argp s) = (mems s)(next_addr s \<mapsto> mem_new c i (u_reg (user s) argp))"
    "krefs (registered c i argp s) = (krefs s)(KCtx c := Suc (krefs s (KCtx c)), KMem (next_addr s) := 1)"
    "ctxs (registered c i argp s) = (ctxs s)(c \<mapsto> cx\<lparr>bafs_mem_xa := (bafs_mem_xa cx)(i \<mapsto> next_addr s),
       mem_list := next_addr s # mem_list cx\<rparr>)"
    "held (registered c i argp s) = held s" "vmas (registered c i argp s) = vmas s"
    "next_addr (registered c i argp s) = Suc (next_addr s)" "res (registered c i argp s) = res s"
    "dmas (registered c i argp s) = dmas s" "ctrls (registered c i argp s) = ctrls s"
    "rm_handle (u_reg (user (registered c i argp s)) argp) = i + 1"
  using assms by (simp_all add: registered_def Let_def)

lemma mem_new_simps [simp]:
  "mem_loc (mem_new c i params) = rm_loc params" "mem_ctx (mem_new c i params) = c"
  "mem_id (mem_new c i params) = i" "dma_list (mem_new c i params) = []"
  "mem_size (mem_new c i params) = ucast (rm_size params)" "mem_state (mem_new c i params) = STALE"
  by (simp_all add: mem_new_def mem_zero_def)

lemma pin_bafs_mem_cpu_success:
  assumes "vmas s v = Some vma" and "0 < krefs s (KCtx c)" and "CtxLock c \<notin> held s"
    and "ctxs s c = Some cx" and "bafs_mem_xa cx (vma_id vma) = Some m"
    and "mems s m = Some x" and "0 < krefs s (KMem m)" and "MemLock m \<notin> held s"
    and "mem_loc x = BAFS_MEM_CPU" and n: "n = unat (page_count (mem_size x) PAGE_SIZE PAGE_SHIFT)"
    and "pin_bafs_mem K v c s = Some (0, s')"
  shows "s' = s\<lparr>now := Suc (Suc (now s + n)), next_addr := next_addr s + n,
        res := (\<lambda>r. res s r + pages_owned (next_addr s) n r),
        mems := (mems s)(m \<mapsto> cpu_pinned (vm_start vma) (next_addr s) x),
        vmas := (vmas s)(v \<mapsto> vma_pinned m vma)\<rparr>"
proof -
  have "add_pages b n ((res s)(Buf PageArray := Suc (res s (Buf PageArray)))) =
      (\<lambda>r. res s r + pages_owned b n r)" for b
    by (auto simp: add_pages_def pages_owned_def fun_eq_iff split: resource.split buf.split)
  then show ?thesis
    using assms(11) unfolding pin_bafs_mem_cpu_eq [OF assms(1-10) refl refl refl]
    by (auto split: if_splits)
qed

lemma ucast_u32_u64_u32 [simp]: "ucast (ucast (w :: u32) :: u64) = w"
  by (rule bit_word_eqI) (simp add: bit_unsigned_iff)

text \<open>The handle of the user is found again in the page offset of the mapping.\<close>

lemma vma_id_handle:
  assumes "vm_pgoff vma = ucast (i + 1 :: u32)" and "unat i < 2 ^ 31"
  shows "vma_id vma = i"
proof -
  have "unat (i + 1) = unat i + 1" using assms(2) by (simp add: unat_word_ariths)
  then have "unat (ucast (i + 1) :: u64) = unat i + 1" by simp
  then have "unat (ucast (i + 1) - 1 :: u64) = unat i" by (simp add: unat_sub_if')
  then have "(ucast (i + 1) - 1 :: u64) = ucast i"
    by (simp add: word_unat_eq_iff)
  then show ?thesis
    by (simp add: vma_id_def assms(1))
qed

text \<open>
  C16. A CPU memory that is registered, mapped at the page offset that is its handle, and
  unmapped again leaves nothing behind: the pages, the page array, the object, its entry in
  the table and in the list of the context and its reference on the context are gone, and
  the world is the one before the registration, but for the parameter block of the user
  and the mapping itself.
\<close>

theorem reg_map_unmap_roundtrip:
  assumes "fresh s" and "xa_index_ok K" and c: "ctxs s c = Some cx" "0 < krefs s (KCtx c)"
    and lk: "CtxLock c \<notin> held s" and v: "vmas s v = Some vma"
    and cpu: "rm_loc (u_reg (user s) argp) = BAFS_MEM_CPU"
    and reg: "bafs_core_reg_mem K argp c s = Some (0, s1)"
    and hnd: "vm_pgoff vma = ucast (rm_handle (u_reg (user s1) argp))"
    and pin: "pin_bafs_mem K v c s1 = Some (0, s2)"
  shows "yields (bafs_mem_release K v s2) (\<lambda>s3. restored s (s3\<lparr>user := user s, vmas := vmas s\<rparr>))"
proof -
  let ?m = "next_addr s"
  from bafs_core_reg_mem_success [OF assms(1,2) c lk reg] obtain i where
    s1: "s1 = (registered c i argp s)\<lparr>now := now s + 4\<rparr>" and i: "bafs_mem_xa cx i = None" "unat i < 2 ^ 31" .
  note regs = registered_simps [OF c(1), of i argp]
  let ?x = "mem_new c i (u_reg (user s) argp)"
  let ?n = "unat (page_count (mem_size ?x) PAGE_SIZE PAGE_SHIFT)"
  have id: "vma_id vma = i" using hnd i(2) by (intro vma_id_handle) (simp_all add: s1 regs)
  have s2: "s2 = s1\<lparr>now := Suc (Suc (now s1 + ?n)), next_addr := next_addr s1 + ?n,
        res := (\<lambda>r. res s1 r + pages_owned (next_addr s1) ?n r),
        mems := (mems s1)(?m \<mapsto> cpu_pinned (vm_start vma) (next_addr s1) ?x),
        vmas := (vmas s1)(v \<mapsto> vma_pinned ?m vma)\<rparr>"
    by (rule pin_bafs_mem_cpu_success [OF _ _ _ _ _ _ _ _ _ refl pin, where vma = vma and cx =
      "cx\<lparr>bafs_mem_xa := (bafs_mem_xa cx)(i \<mapsto> ?m), mem_list := ?m # mem_list cx\<rparr>"])
      (use assms(1) v lk c cpu in \<open>simp_all add: s1 regs id freshD\<close>)
  let ?p = "cpu_pinned (vm_start vma) (next_addr s1) ?x"
  let ?cx = "cx\<lparr>bafs_mem_xa := (bafs_mem_xa cx)(i \<mapsto> ?m), mem_list := ?m # mem_list cx\<rparr>"
  have live: "cpu_live (next_addr s1) ?p"
    using cpu unsigned_less [of "rm_size (u_reg (user s) argp)", where 'a = nat] by (intro cpu_live_pinned) simp_all
  have "bafs_mem_release K v s2 = bafs_put_ctx c (mem_gone v ?m (next_addr s1) ?p ?cx s2)"
    by (rule bafs_mem_release_eq [OF _ _ _ live _ _ _ _ _ _ refl, where vma = "vma_pinned ?m vma"])
      (use assms(1) c(2) lk in \<open>simp_all add: s2 s1 regs vma_pinned_def freshD dmas_ok_def\<close>)
  also have "\<dots> = Some ((mem_gone v ?m (next_addr s1) ?p ?cx s2)\<lparr>krefs := krefs s\<rparr>)"
    using c(2) assms(1)
    by (subst bafs_put_ctx_shared) (auto simp: gone_def s2 s1 regs fun_eq_iff freshD)
  finally show ?thesis
    using assms(1) c(1) i(1)
    by (simp add: restored_def gone_def s2 s1 regs ctx_without_def registered_def Let_def freshD fun_upd_idem)
qed

text \<open>The world of the witnesses: the context of thread group 77 and a mapping at page offset 1.\<close>

definition demo_vma :: vm_area where
  "demo_vma = \<lparr>vm_start = 0x10000, vm_pgoff = 1, vm_private_data = None, vm_ops_set = False,
     vm_noncached = False, vm_flags = 0\<rparr>"

definition demo_vma_world :: world where
  "demo_vma_world = demo_ctx_world\<lparr>vmas := [0 \<mapsto> demo_vma]\<rparr>"

lemma demo_vma_world_simps [simp]:
  "fresh demo_vma_world" "vmas demo_vma_world = [0 \<mapsto> demo_vma]" "now demo_vma_world = 0"
  "ctxs demo_vma_world = [1 \<mapsto> \<lparr>bafs_mem_xa = Map.empty, mem_list = [], ctx_tgid = 77\<rparr>]"
  "krefs demo_vma_world = (\<lambda>_. 0)(KCtx 1 := 1)" "held demo_vma_world = {}" "next_addr demo_vma_world = 2"
  "user demo_vma_world = demo_user" "mems demo_vma_world = Map.empty" "ctrls demo_vma_world = Map.empty"
  "dmas demo_vma_world = Map.empty" "res demo_vma_world = (\<lambda>_. 0)(PidRef 77 := 1)" "remaps demo_vma_world = []"
  by (simp_all add: demo_vma_world_def demo_ctx_world_def empty_world_def fresh_def)

lemma demo_kernel_simps [simp]:
  "k_alloc demo_kernel n" "k_copy demo_kernel n" "k_ret demo_kernel e n = 0"
  "k_xa_index demo_kernel n (\<lambda>i. False) = Some 0" "k_dma_map demo_kernel n = Some (of_nat n * 4096)"
  "k_p2p_table demo_kernel n = demo_table" "\<not> k_put_frees_table demo_kernel"
  by (simp_all add: demo_kernel_def)

lemma ok_run_all [simp]: "(\<And>n. P n) \<Longrightarrow> ok_run P t k = k"
  by (induction k arbitrary: t) auto

abbreviation demo_cx :: bafs_ctx where
  "demo_cx \<equiv> \<lparr>bafs_mem_xa = Map.empty, mem_list = [], ctx_tgid = 77\<rparr>"

lemma demo_registered:
  "bafs_core_reg_mem demo_kernel 0 1 demo_vma_world =
     Some (0, (registered 1 0 0 demo_vma_world)\<lparr>now := 4\<rparr>)"
  using bafs_core_reg_mem_eq [where s = demo_vma_world and K = demo_kernel and c = 1 and cx = demo_cx and argp = 0,
      OF _ demo_kernel_ok(1) _ _ _ refl refl]
  by simp

lemmas demo_regs = registered_simps [where s = demo_vma_world and c = 1 and cx = demo_cx and i = 0 and argp = 0, simplified]

lemma demo_pinned: "\<exists>s. pin_bafs_mem demo_kernel 0 1 ((registered 1 0 0 demo_vma_world)\<lparr>now := 4\<rparr>) = Some (0, s)"
proof -
  let ?cx = "\<lparr>bafs_mem_xa = [0 \<mapsto> 2], mem_list = [2], ctx_tgid = 77\<rparr>"
  have "0x10000 AND - PAGE_SIZE = (0x10000 :: u64)" by simp
  then show ?thesis
    using pin_bafs_mem_cpu_eq [where s = "(registered 1 0 0 demo_vma_world)\<lparr>now := 4\<rparr>" and K = demo_kernel and v = 0
      and c = 1 and cx = ?cx and vma = demo_vma and m = 2 and x = "mem_new 1 0 (u_reg demo_user 0)",
      OF _ _ _ _ _ _ _ _ _ refl refl refl refl]
    by (simp add: demo_regs vma_id_def demo_vma_def mask_of_def demo_user_def BAFS_MEM_CPU_def)
qed

theorem reg_map_unmap_roundtrip_witness:
  "\<exists>s1 s2. bafs_core_reg_mem demo_kernel 0 1 demo_vma_world = Some (0, s1) \<and>
     pin_bafs_mem demo_kernel 0 1 s1 = Some (0, s2) \<and>
     yields (bafs_mem_release demo_kernel 0 s2) (\<lambda>s3.
       restored demo_vma_world (s3\<lparr>user := user demo_vma_world, vmas := vmas demo_vma_world\<rparr>))"
proof -
  let ?s = "(registered 1 0 0 demo_vma_world)\<lparr>now := 4\<rparr>"
  obtain s2 where s2: "pin_bafs_mem demo_kernel 0 1 ?s = Some (0, s2)" using demo_pinned by blast
  have "vm_pgoff demo_vma = ucast (rm_handle (u_reg (user ?s) 0))"
    by (simp add: registered_def Let_def demo_vma_def)
  with reg_map_unmap_roundtrip [OF _ demo_kernel_ok(1) _ _ _ _ _ demo_registered this s2]
  show ?thesis
    using demo_registered s2 by (fastforce simp: demo_user_def BAFS_MEM_CPU_def)
qed

text \<open>
  C17. Mapping by handle, for memory that is not CUDA memory: the memory whose number is one less
  than the page offset of the mapping is looked up in the caller's context; an unknown handle is
  \<open>-EINVAL\<close> and changes nothing; a CPU memory at an aligned address is pinned and becomes
  live, and the mapping points to it. A failure keeps the state of the memory, its mappings and every
  resource, but not the memory itself: the new address and page geometry stay, and after
  \<open>-ENOMEM\<close> the pointer to the page table is null. No reference or lock is kept.
\<close>

theorem pin_bafs_mem_spec:
  assumes "vmas s v = Some vma" and "0 < krefs s (KCtx c)" and "CtxLock c \<notin> held s" and "ctxs s c = Some cx"
    and mem: "\<And>m. bafs_mem_xa cx (vma_id vma) = Some m \<Longrightarrow>
      mems s m = Some x \<and> 0 < krefs s (KMem m) \<and> MemLock m \<notin> held s \<and> mem_loc x \<noteq> BAFS_MEM_CUDA"
  shows "yields (pin_bafs_mem K v c s) (\<lambda>(ret, s').
    case bafs_mem_xa cx (vma_id vma) of
      None \<Rightarrow> ret = - EINVAL \<and> s' = s
    | Some m \<Rightarrow>
        if mem_loc x \<noteq> BAFS_MEM_CPU then
          ret = - EINVAL \<and> s' = s\<lparr>mems := (mems s)(m \<mapsto> x\<lparr>mem_vaddr := vm_start vma\<rparr>)\<rparr>
        else if vm_start vma AND mask_of PAGE_SIZE \<noteq> vm_start vma then
          ret = - EINVAL \<and> s' = s\<lparr>mems := (mems s)(m \<mapsto> cpu_geom (x\<lparr>mem_vaddr := vm_start vma\<rparr>))\<rparr>
        else if ret = 0 then
          s' = s\<lparr>now := now s', next_addr := next_addr s', res := res s',
            mems := (mems s)(m \<mapsto> cpu_pinned (vm_start vma) (next_addr s) x),
            vmas := (vmas s)(v \<mapsto> vma_pinned m vma)\<rparr> \<and>
          (\<forall>r. res s' r = res s r + pages_owned (next_addr s)
             (unat (page_count (mem_size x) PAGE_SIZE PAGE_SHIFT)) r)
        else ret = - ENOMEM \<and> s' = s\<lparr>now := now s', next_addr := next_addr s',
            mems := (mems s)(m \<mapsto> (cpu_geom (x\<lparr>mem_vaddr := vm_start vma\<rparr>))\<lparr>cpu_page_table := None\<rparr>)\<rparr>)"
proof (cases "bafs_mem_xa cx (vma_id vma)")
  case None
  with pin_bafs_mem_unknown [OF assms(1-4) this, of K] show ?thesis by simp
next
  case (Some m)
  note m = mem [OF Some]
  have res: "add_pages b n ((res s)(Buf PageArray := Suc (res s (Buf PageArray)))) r = res s r + pages_owned b n r" for b n r
    by (auto simp: add_pages_def pages_owned_def split: resource.split buf.split)
  show ?thesis
  proof (cases "mem_loc x = BAFS_MEM_CPU")
    case True
    with Some res pin_bafs_mem_cpu_eq [OF assms(1-4) Some _ _ _ _ refl refl refl refl, of x K] m
    show ?thesis by auto
  next
    case False
    with Some m assms(1-4) show ?thesis
      by (simp add: pin_bafs_mem_step [OF assms(1-4) Some _ _ _ refl] spin_unlock_def fun_upd_idem)
  qed
qed

text \<open>The handle of the registration at address 2 is found and the memory pinned, and a free handle is refused.\<close>

theorem pin_bafs_mem_spec_witness:
  "(\<exists>s. pin_bafs_mem demo_kernel 0 1 ((registered 1 0 0 demo_vma_world)\<lparr>now := 4\<rparr>) = Some (0, s) \<and>
     mems s 2 = Some (cpu_pinned 0x10000 3 (mem_new 1 0 (u_reg demo_user 0))) \<and> res s (Page 3) = 1 \<and> res s (Page 4) = 1) \<and>
   yields (pin_bafs_mem demo_kernel 0 1 demo_vma_world) (\<lambda>(ret, s'). ret = - EINVAL \<and> s' = demo_vma_world)"
proof
  let ?s = "(registered 1 0 0 demo_vma_world)\<lparr>now := 4\<rparr>"
  let ?cx = "\<lparr>bafs_mem_xa = [0 \<mapsto> 2], mem_list = [2], ctx_tgid = 77\<rparr>"
  obtain s where s: "pin_bafs_mem demo_kernel 0 1 ?s = Some (0, s)" using demo_pinned by blast
  have cpu: "mem_loc (mem_new 1 0 (u_reg demo_user 0)) = BAFS_MEM_CPU" "BAFS_MEM_CPU \<noteq> BAFS_MEM_CUDA"
    by (simp_all add: demo_user_def BAFS_MEM_CPU_def BAFS_MEM_CUDA_def)
  have n: "unat (page_count (mem_size (mem_new 1 0 (u_reg demo_user 0))) PAGE_SIZE PAGE_SHIFT) = 2"
    by (simp add: demo_user_def page_count_def)
  have "0x10000 AND - PAGE_SIZE = (0x10000 :: u64)" by simp
  then have al: "vm_start demo_vma AND mask_of PAGE_SIZE = vm_start demo_vma" by (simp add: demo_vma_def mask_of_def)
  have w: "vmas ?s 0 = Some demo_vma" "0 < krefs ?s (KCtx 1)" "CtxLock 1 \<notin> held ?s" "ctxs ?s 1 = Some ?cx"
    "vma_id demo_vma = 0" "next_addr ?s = 3" "vm_start demo_vma = 0x10000" "res ?s (Page p) = 0" for p
    by (simp_all add: demo_regs vma_id_def demo_vma_def)
  from pin_bafs_mem_spec [OF w(1-4), where K = demo_kernel and x = "mem_new 1 0 (u_reg demo_user 0)"] s cpu al w(5-7)
  have eq: "s = ?s\<lparr>now := now s, next_addr := next_addr s, res := res s,
      mems := (mems ?s)(2 \<mapsto> cpu_pinned 0x10000 3 (mem_new 1 0 (u_reg demo_user 0))), vmas := (vmas ?s)(0 \<mapsto> vma_pinned 2 demo_vma)\<rparr>"
    and own: "\<forall>r. res s r = res ?s r + pages_owned 3 2 r"
    unfolding n by (simp_all add: demo_regs n)
  have "mems s 2 = Some (cpu_pinned 0x10000 3 (mem_new 1 0 (u_reg demo_user 0)))"
    using arg_cong [OF eq, of mems] by simp
  moreover have "res s (Page 3) = 1" "res s (Page 4) = 1" using own w(8) by (simp_all add: pages_owned_def)
  ultimately show "\<exists>s. pin_bafs_mem demo_kernel 0 1 ?s = Some (0, s) \<and>
     mems s 2 = Some (cpu_pinned 0x10000 3 (mem_new 1 0 (u_reg demo_user 0))) \<and> res s (Page 3) = 1 \<and> res s (Page 4) = 1" using s by blast
  show "yields (pin_bafs_mem demo_kernel 0 1 demo_vma_world) (\<lambda>(ret, s'). ret = - EINVAL \<and> s' = demo_vma_world)"
    using pin_bafs_mem_spec [where s = demo_vma_world and K = demo_kernel and v = 0 and c = 1 and vma = demo_vma and cx = demo_cx]
    by simp
qed

text \<open>
  C18. Unmapping a pinned CPU memory (of which the driver may have made any number of DMA mappings)
  removes every mapping with its bus addresses and its references on the controllers and
  on the memory, then frees the pages and the memory, takes it out of its context, and gives
  the context's reference back. No lock is taken twice and nothing is released twice: the
  run ends.
\<close>

theorem munmap_releases_all:
  assumes "vmas s v = Some vma" "vm_private_data vma = Some m" and "mems s m = Some x"
    and "cpu_live b x" and "c = mem_ctx x" "ctxs s c = Some cx" "1 < krefs s (KCtx c)"
    and "m \<in> set (mem_list cx)" and "CtxLock c \<notin> held s" "MemLock m \<notin> held s"
    and "ds = dma_list x" "dmas_ok s m x ds" and "krefs s (KMem m) = Suc (length ds)"
    and "\<And>e. 0 < dmas_refs s m ds (KCtrl e) \<Longrightarrow> dmas_refs s m ds (KCtrl e) < krefs s (KCtrl e)"
    and "\<And>r. dmas_own s ds r + pages_owned b (unat (n_pages x)) r \<le> res s r"
  shows "yields (bafs_mem_release K v s) (\<lambda>s'. mems s' = (mems s)(m := None) \<and> held s' = held s \<and>
    (\<forall>d. dmas s' d = (if d \<in> set ds then None else dmas s d)) \<and>
    (\<forall>r. res s' r + (dmas_own s ds r + pages_owned b (unat (n_pages x)) r) = res s r) \<and>
    (\<forall>e. krefs s' (KCtrl e) + dmas_refs s m ds (KCtrl e) = krefs s (KCtrl e)) \<and>
    Suc (krefs s' (KCtx c)) = krefs s (KCtx c) \<and>
    ctxs s' = (ctxs s)(c \<mapsto> ctx_without m (mem_id x) cx) \<and>
    vmas s' = (vmas s)(v \<mapsto> vma\<lparr>vm_private_data := None\<rparr>))"
proof -
  let ?g = "mem_gone v m b x cx s"
  have "0 < krefs s (KCtx c)" using assms(7) by simp
  then have "bafs_mem_release K v s = bafs_put_ctx c ?g"
    using assms by (intro bafs_mem_release_eq) simp_all
  moreover have kg: "krefs ?g (KCtx c) = krefs s (KCtx c)"
    by (simp add: gone_def dmas_refs_def)
  ultimately have eq: "bafs_mem_release K v s =
      Some (?g\<lparr>krefs := (krefs ?g)(KCtx c := krefs s (KCtx c) - 1)\<rparr>)"
    using assms(7) by simp
  have "dmas_refs s m ds (KCtrl e) \<le> krefs s (KCtrl e)" for e
    using assms(14) [of e] by (cases "dmas_refs s m ds (KCtrl e)") simp_all
  then show ?thesis
    unfolding eq using assms(1,5,7,11,15) by (simp add: gone_def)
qed

text \<open>The demonstration memory after it was mapped.\<close>

definition demo_live_world :: world where
  "demo_live_world = demo_vma_world\<lparr>now := 8, next_addr := 5,
     mems := [2 \<mapsto> cpu_pinned 0x10000 3 (mem_new 1 0 (u_reg demo_user 0))],
     ctxs := [1 \<mapsto> \<lparr>bafs_mem_xa = [0 \<mapsto> 2], mem_list = [2], ctx_tgid = 77\<rparr>],
     krefs := (\<lambda>_. 0)(KCtx 1 := 2, KMem 2 := 1), vmas := [0 \<mapsto> vma_pinned 2 demo_vma],
     res := (\<lambda>_. 0)(PidRef 77 := 1, Buf PageArray := 1, Page 3 := 1, Page 4 := 1)\<rparr>"

abbreviation demo_mem :: bafs_mem where
  "demo_mem \<equiv> cpu_pinned 0x10000 3 (mem_new 1 0 (u_reg demo_user 0))"

lemma demo_live_world_simps [simp]:
  "mems demo_live_world = [2 \<mapsto> demo_mem]" "vmas demo_live_world = [0 \<mapsto> vma_pinned 2 demo_vma]"
  "ctxs demo_live_world = [1 \<mapsto> \<lparr>bafs_mem_xa = [0 \<mapsto> 2], mem_list = [2], ctx_tgid = 77\<rparr>]"
  "krefs demo_live_world = (\<lambda>_. 0)(KCtx 1 := 2, KMem 2 := 1)" "held demo_live_world = {}"
  "dmas demo_live_world = Map.empty" "ctrls demo_live_world = Map.empty"
  by (simp_all add: demo_live_world_def)

lemma demo_live:
  "cpu_live 3 demo_mem" "unat (n_pages demo_mem) = 2" "pages_owned 3 2 r \<le> res demo_live_world r"
  by (rule cpu_live_pinned)
    (auto simp: demo_live_world_def demo_user_def BAFS_MEM_CPU_def page_count_def pages_owned_def
      split: resource.split buf.split)

text \<open>The same with one DMA mapping, at address 8, for a controller at address 7.\<close>

definition demo_dma :: bafs_mem_dma where
  "demo_dma = \<lparr>dma_mem = 2, dma_ctrl = 7, cuda_mapping = None, n_addrs = 0, dma_addrs = Some [0x1000, 0x2000], map_gran = 4096\<rparr>"

definition demo_mapped_world :: world where
  "demo_mapped_world = demo_live_world\<lparr>next_addr := 9, mems := [2 \<mapsto> demo_mem\<lparr>dma_list := [8]\<rparr>], dmas := [8 \<mapsto> demo_dma],
     ctrls := [7 \<mapsto> \<lparr>pdev = 5, ctrl_minor = 1, ctrl_id = 0\<rparr>],
     krefs := (\<lambda>_. 0)(KCtx 1 := 2, KMem 2 := 2, KCtrl 7 := 2),
     res := (res demo_live_world)(DmaMap 5 0x1000 4096 := 1, DmaMap 5 0x2000 4096 := 1, Buf DmaAddrs := 1)\<rparr>"

lemma demo_mapped_world_simps [simp]:
  "mems demo_mapped_world = [2 \<mapsto> demo_mem\<lparr>dma_list := [8]\<rparr>]" "vmas demo_mapped_world = [0 \<mapsto> vma_pinned 2 demo_vma]"
  "ctxs demo_mapped_world = [1 \<mapsto> \<lparr>bafs_mem_xa = [0 \<mapsto> 2], mem_list = [2], ctx_tgid = 77\<rparr>]"
  "krefs demo_mapped_world = (\<lambda>_. 0)(KCtx 1 := 2, KMem 2 := 2, KCtrl 7 := 2)" "held demo_mapped_world = {}"
  "dmas demo_mapped_world = [8 \<mapsto> demo_dma]" "ctrls demo_mapped_world = [7 \<mapsto> \<lparr>pdev = 5, ctrl_minor = 1, ctrl_id = 0\<rparr>]"
  "res demo_mapped_world = (res demo_live_world)(DmaMap 5 0x1000 4096 := 1, DmaMap 5 0x2000 4096 := 1, Buf DmaAddrs := 1)"
  by (simp_all add: demo_mapped_world_def)

lemma demo_mapped:
  "dmas_ok demo_mapped_world 2 (demo_mem\<lparr>dma_list := [8]\<rparr>) [8]"
  "dmas_own demo_mapped_world [8] r + pages_owned 3 2 r \<le> res demo_mapped_world r"
  "dmas_own demo_mapped_world [8] (DmaMap 5 0x1000 4096) = 1" "dmas_refs demo_mapped_world 2 [8] (KCtrl 7) = 1"
  "0 < dmas_refs demo_mapped_world 2 [8] (KCtrl e) \<Longrightarrow> e = 7"
proof -
  show "dmas_ok demo_mapped_world 2 (demo_mem\<lparr>dma_list := [8]\<rparr>) [8]"
    using demo_live(2) by (simp add: dmas_ok_def demo_dma_def dma_fits_def)
  show "dmas_own demo_mapped_world [8] r + pages_owned 3 2 r \<le> res demo_mapped_world r"
    using demo_live(3) [of r]
    by (auto simp: dmas_own_def dma_owns_def dma_pdev_def demo_dma_def maps_of_def pages_owned_def demo_live_world_def
        split: resource.splits buf.splits)
qed (auto simp: dmas_own_def dma_owns_def dma_pdev_def demo_dma_def maps_of_def dmas_refs_def split: if_splits)

theorem munmap_releases_all_witness:
  "yields (bafs_mem_release demo_kernel 0 demo_mapped_world) (\<lambda>s'. mems s' = Map.empty \<and> dmas s' 8 = None \<and>
     res s' (DmaMap 5 0x1000 4096) = 0 \<and> res s' (Page 3) = 0 \<and> krefs s' (KCtrl 7) = 1 \<and> krefs s' (KCtx 1) = 1)"
proof -
  let ?x = "demo_mem\<lparr>dma_list := [8]\<rparr>"
  have "vm_private_data (vma_pinned 2 demo_vma) = Some 2" "cpu_live 3 ?x" "unat (n_pages ?x) = 2"
    using demo_live(1,2) by (simp_all add: vma_pinned_def cpu_live_def mem_geom_def)
  note w = this
  have own: "dmas_own demo_mapped_world [8] (Page 3) = 0" "pages_owned 3 2 (Page 3) = 1" "pages_owned 3 2 (DmaMap 5 0x1000 4096) = 0"
    "res demo_live_world (Page 3) = 1"
    by (simp_all add: dmas_own_def dma_owns_def pages_owned_def demo_live_world_def)
  note rel = munmap_releases_all [where s = demo_mapped_world and v = 0 and m = 2 and x = ?x and b = 3 and K = demo_kernel
      and c = 1 and cx = "\<lparr>bafs_mem_xa = [0 \<mapsto> 2], mem_list = [2], ctx_tgid = 77\<rparr>" and ds = "[8]",
      OF _ w(1) _ w(2), unfolded w(3)]
  show ?thesis
  proof (rule yields_mono [OF rel], goal_cases)
    case (14 s')
    then have "res s' r + (dmas_own demo_mapped_world [8] r + pages_owned 3 2 r) = res demo_mapped_world r"
      "krefs s' (KCtrl e) + dmas_refs demo_mapped_world 2 [8] (KCtrl e) = krefs demo_mapped_world (KCtrl e)" for r e by blast+
    from this(1) [of "DmaMap 5 0x1000 4096"] this(1) [of "Page 3"] this(2) [of 7] 14 show ?case
      using own demo_mapped(3,4) by simp
  qed (use demo_mapped in \<open>auto simp del: cpu_pinned_simps(9)\<close>)
qed

end
