(* ===== verification/Bafs_Cuda.thy ===== *)
theory Bafs_Cuda
  imports Bafs_Mem_Life
begin

text \<open>
  CUDA memory: pinning through the NVIDIA peer-to-peer interface, the layout of the pages
  in the process, the release of the pages, and the callback by which the NVIDIA driver
  revokes them. Whether \<open>nvidia_p2p_put_pages\<close> also frees the page table, and
  \<open>nvidia_p2p_dma_unmap_pages\<close> the mapping, are parameters of the kernel.
\<close>

section \<open>The layout of the pages\<close>

text \<open>
  What the NVIDIA driver promises of a page table: as many pages as it has entries, and at
  least one (a debug message reads the first).
\<close>

definition p2p_table_ok :: "cuda_pt \<Rightarrow> bool" where
  "p2p_table_ok pt \<longleftrightarrow> length (pt_phys pt) = unat (pt_entries pt) \<and> pt_phys pt \<noteq> []"

definition cuda_page_remap :: "u64 \<Rightarrow> u64 \<Rightarrow> cuda_pt \<Rightarrow> nat \<Rightarrow> remap" where
  "cuda_page_remap va ps pt j =
     \<lparr>rmp_vaddr = va + of_nat j * ps, rmp_pfn = phys_to_pfn (pt_phys pt ! j), rmp_len = ps\<rparr>"

lemma ucast_geometry: "geometry ps sh \<Longrightarrow> ucast (ucast ps :: u32) = ps"
  by (auto simp: geometry_def)

lemma ok_run_stop: "ok_run P t k \<noteq> k \<Longrightarrow> \<not> P (t + ok_run P t k)"
proof (induction k arbitrary: t)
  case (Suc k)
  then show ?case using Suc.IH [of "Suc t"] by (auto split: if_splits)
qed simp

text \<open>The loop of \<open>io_remap_pfn_range\<close>: it stops at the first error, after \<open>q\<close> pages.\<close>

lemma cuda_remap_loop_eq:
  assumes "mems s m = Some x" and "cuda_page_table x = Some pt" and "geometry (page_size x) sh"
    and "unat (mem_size x) < 2 ^ 32" and "i + k \<le> unat (page_count (mem_size x) (page_size x) sh)"
    and "i + k \<le> length (pt_phys pt)" and "q = ok_run (\<lambda>n. k_ret K IoRemapPfnRange n = 0) (now s) k"
  shows "cuda_remap_loop K m i k s =
    Some (if q = k then 0 else k_ret K IoRemapPfnRange (now s + q),
      s\<lparr>now := now s + asked q k,
        remaps := remaps s @ map (cuda_page_remap (mem_vaddr x) (page_size x) pt) [i..<i + q]\<rparr>)"
  using assms
proof (induction k arbitrary: i s q)
  case 0
  then show ?case by (simp add: asked_def)
next
  case (Suc k)
  have gran: "pin_gran i (page_size x) (mem_size x) = ucast (page_size x)"
    using gran_full [OF Suc.prems(3,4), of i] Suc.prems(5) by simp
  let ?s = "s\<lparr>now := Suc (now s),
      remaps := remaps s @ [cuda_page_remap (mem_vaddr x) (page_size x) pt i]\<rparr>"
  show ?case
  proof (cases "k_ret K IoRemapPfnRange (now s) = 0")
    case True
    then obtain r where r: "q = Suc r" "r = ok_run (\<lambda>n. k_ret K IoRemapPfnRange n = 0) (now ?s) k"
      using Suc.prems(7) by simp
    have "cuda_remap_loop K m i (Suc k) s = cuda_remap_loop K m (Suc i) k ?s"
      using Suc.prems(1,2,6) True gran ucast_geometry [OF Suc.prems(3)]
      by (simp add: io_remap_pfn_range_def ask_def cuda_page_remap_def)
    also have "\<dots> = Some (if r = k then 0 else k_ret K IoRemapPfnRange (now ?s + r),
      ?s\<lparr>now := now ?s + asked r k,
        remaps := remaps ?s @ map (cuda_page_remap (mem_vaddr x) (page_size x) pt) [Suc i..<Suc i + r]\<rparr>)"
      using Suc.prems(1-6) r(2) by (intro Suc.IH) simp_all
    finally have eq: "cuda_remap_loop K m i (Suc k) s = \<dots>" .
    moreover have "[i..<i + q] = i # [Suc i..<Suc i + r]"
      using r(1) by (simp add: upt_conv_Cons del: upt_Suc)
    ultimately show ?thesis
      using r(1) by (simp add: asked_def del: cuda_remap_loop.simps upt_Suc)
  next
    case False
    with Suc.prems show ?thesis
      by (simp add: io_remap_pfn_range_def ask_def asked_def)
  qed
qed

section \<open>Pinning\<close>

lemma cuda_out_delete_page_table_eq:
  assumes "mems t m = Some x" and "res t = (res s)(CudaTable m := Suc (res s (CudaTable m)), CudaPin m := Suc (res s (CudaPin m)))"
  shows "cuda_out_delete_page_table K m ret t = Some (ret, t\<lparr>
      res := (res s)(CudaTable m := res s (CudaTable m) + (if k_put_frees_table K then 0 else 1)),
      mems := (mems t)(m \<mapsto> x\<lparr>cuda_page_table := None\<rparr>)\<rparr>)"
  using assms
  by (simp add: cuda_out_delete_page_table_def p2p_put_pages_def release_def upd_mem_def fun_upd_idem fun_upd_twist)

text \<open>The memory after \<open>nvidia_p2p_get_pages\<close> and the choice of the page size.\<close>

definition cuda_geom :: "cuda_pt \<Rightarrow> u64 \<Rightarrow> nat \<Rightarrow> bafs_mem \<Rightarrow> bafs_mem" where
  "cuda_geom pt ps sh x = x\<lparr>cuda_page_table := Some pt, page_size := ps, page_shift := sh,
     page_mask := mask_of ps, n_pages := page_count (mem_size x) ps sh\<rparr>"

text \<open>
  C21. Pinning a CUDA memory succeeds only when the NVIDIA driver returned a compatible
  table of a known page size with exactly as many entries as the size needs and the address
  is aligned to that page size; then page \<open>j\<close> of the table is mapped, in full, at the
  address of the memory plus \<open>j\<close> pages, and the pin and the table are held. When it fails,
  the pages have been put back and the memory has no table.
\<close>

theorem pin_bafs_cuda_mem_spec:
  assumes x: "mems s m = Some x" and v: "vmas s v = Some vma" and sz: "unat (mem_size x) < 2 ^ 32"
    and pt: "pt = k_p2p_table K (Suc (now s))" "p2p_table_ok pt"
  shows "yields (pin_bafs_cuda_mem K m v s) (\<lambda>(ret, s').
    if ret = 0 then \<exists>ps sh. cuda_page_geometry (pt_page_size pt) = Some (ps, sh) \<and> pt_compatible pt \<and>
        mem_vaddr x AND mask_of ps = mem_vaddr x \<and> unat (page_count (mem_size x) ps sh) = unat (pt_entries pt) \<and>
        mems s' = (mems s)(m \<mapsto> cuda_geom pt ps sh x) \<and>
        remaps s' = remaps s @ map (cuda_page_remap (mem_vaddr x) ps pt) [0..<unat (pt_entries pt)] \<and>
        res s' = (res s)(CudaTable m := Suc (res s (CudaTable m)), CudaPin m := Suc (res s (CudaPin m)))
    else (mems s')(m := None) = (mems s)(m := None) \<and>
        (\<exists>x'. mems s' m = Some x' \<and> (cuda_page_table x' = None \<or> x' = x)) \<and>
        (\<forall>r. r \<noteq> CudaTable m \<longrightarrow> res s' r = res s r))"
proof (cases "k_ret K P2pGetPages (now s) < 0")
  case True
  with x show ?thesis
    by (simp add: pin_bafs_cuda_mem_def ask_def)
next
  case False
  let ?s1 = "s\<lparr>now := Suc (Suc (now s)),
    res := (res s)(CudaTable m := Suc (res s (CudaTable m)), CudaPin m := Suc (res s (CudaPin m))),
    mems := (mems s)(m \<mapsto> x\<lparr>cuda_page_table := Some pt\<rparr>)\<rparr>"
  have first: "nth_opt (pt_phys (k_p2p_table K (Suc (now s)))) 0 = Some (pt_phys (k_p2p_table K (Suc (now s))) ! 0)"
    using pt by (cases "pt_phys pt") (simp_all add: p2p_table_ok_def)
  note step = pin_bafs_cuda_mem_def ask_def acquire_def upd_mem_def upd_vma_def first
  show ?thesis
  proof (cases "cuda_page_geometry (pt_page_size pt)")
    case None
    with False x pt(1) show ?thesis
      by (simp add: step Let_def cuda_out_delete_page_table_eq [where s = s])
  next
    case (Some g)
    obtain ps sh where g: "g = (ps, sh)" by (cases g)
    let ?n = "page_count (mem_size x) ps sh"
    let ?x = "cuda_geom pt ps sh x"
    let ?s2 = "?s1\<lparr>mems := (mems s)(m \<mapsto> ?x), vmas := (vmas s)(v \<mapsto> vma\<lparr>vm_noncached := True\<rparr>)\<rparr>"
    have geo: "geometry ps sh" using Some g by (intro cuda_page_geometry_ok) simp
    have loop: "cuda_remap_loop K m 0 (unat ?n) ?s2 =
      Some (if q = unat ?n then 0 else k_ret K IoRemapPfnRange (now ?s2 + q),
        ?s2\<lparr>now := now ?s2 + asked q (unat ?n),
          remaps := remaps ?s2 @ map (cuda_page_remap (mem_vaddr x) ps pt) [0..<0 + q]\<rparr>)"
      if "q = ok_run (\<lambda>n. k_ret K IoRemapPfnRange n = 0) (now ?s2) (unat ?n)" "?n = ucast (pt_entries pt)" for q
      using cuda_remap_loop_eq [where s = ?s2 and m = m and x = ?x and pt = pt and sh = sh and i = 0 and k = "unat ?n" and q = q]
        that sz geo pt(2)
      by (simp add: cuda_geom_def p2p_table_ok_def)
    note out = cuda_out_delete_page_table_eq [where s = s]
    consider "\<not> pt_compatible pt" | "pt_compatible pt" "mem_vaddr x AND mask_of ps \<noteq> mem_vaddr x"
      | "pt_compatible pt" "mem_vaddr x AND mask_of ps = mem_vaddr x" "?n \<noteq> ucast (pt_entries pt)"
      | "pt_compatible pt" "mem_vaddr x AND mask_of ps = mem_vaddr x" "?n = ucast (pt_entries pt)"
      by blast
    then show ?thesis
    proof cases
      case 4
      let ?q = "ok_run (\<lambda>n. k_ret K IoRemapPfnRange n = 0) (Suc (Suc (now s))) (unat ?n)"
      have "?q \<noteq> unat ?n \<Longrightarrow> k_ret K IoRemapPfnRange (Suc (Suc (now s)) + ?q) \<noteq> 0"
        by (rule ok_run_stop)
      with 4 False x v pt(1) Some loop [OF _ 4(3), of ?q]
      show ?thesis
        by (cases "?q = unat ?n") (simp_all add: step Let_def g out cuda_geom_def)
    qed (use False x pt(1) Some in \<open>simp_all add: step Let_def g out\<close>)
  qed
qed

definition demo_cuda_world :: world where
  "demo_cuda_world = demo_vma_world\<lparr>mems := [2 \<mapsto> mem_zero\<lparr>mem_loc := BAFS_MEM_CUDA, mem_size := 65536,
     mem_vaddr := 0x10000\<rparr>]\<rparr>"

theorem pin_bafs_cuda_mem_spec_witness:
  "yields (pin_bafs_cuda_mem demo_kernel 2 0 demo_cuda_world) (\<lambda>(ret, s').
     ret = 0 \<longrightarrow> remaps s' = [\<lparr>rmp_vaddr = 0x10000, rmp_pfn = 0x40, rmp_len = 0x10000\<rparr>])"
proof -
  let ?x = "mem_zero\<lparr>mem_loc := BAFS_MEM_CUDA, mem_size := 65536, mem_vaddr := 0x10000\<rparr>"
  have w: "mems demo_cuda_world 2 = Some ?x" "vmas demo_cuda_world 0 = Some demo_vma"
    by (simp_all add: demo_cuda_world_def)
  have t: "unat (mem_size ?x) < 2 ^ 32" "demo_table = k_p2p_table demo_kernel (Suc (now demo_cuda_world))"
    "p2p_table_ok demo_table"
    by (simp_all add: p2p_table_ok_def demo_table_def)
  from pin_bafs_cuda_mem_spec [OF w t] show ?thesis
    by (rule yields_mono) (auto simp: demo_table_def demo_cuda_world_def cuda_page_remap_def)
qed

text \<open>
  C22. Whatever \<open>nvidia_p2p_put_pages\<close> does with the page table, one of the two paths is
  wrong: if it frees the table, the release of a live CUDA memory frees it a second time;
  if it does not, the error path of pinning, which calls only \<open>nvidia_p2p_put_pages\<close>,
  leaves the table behind.
\<close>

theorem cuda_table_double_free_or_leak:
  assumes "mems s m = Some x" and "mem_loc x = BAFS_MEM_CUDA" and "mem_state x = LIVE" and "cuda_page_table x \<noteq> None"
    and "res s (CudaTable m) = 1" and "res s (CudaPin m) = 1"
  shows "if k_put_frees_table K then mem_release_pages K m s = None
    else yields (cuda_out_delete_page_table K m ret s) (\<lambda>(ret', s').
      ret' = ret \<and> res s' (CudaPin m) = 0 \<and> res s' (CudaTable m) = 1 \<and>
      (\<exists>x'. mems s' m = Some x' \<and> cuda_page_table x' = None))"
  using assms
  by (simp add: mem_release_pages_def cuda_out_delete_page_table_def p2p_put_pages_def release_def upd_mem_def
      BAFS_MEM_CUDA_def BAFS_MEM_CPU_def)

theorem cuda_table_double_free_or_leak_witness:
  "mem_release_pages (demo_kernel\<lparr>k_put_frees_table := True\<rparr>) 2
     (demo_cuda_world\<lparr>mems := [2 \<mapsto> mem_zero\<lparr>mem_loc := BAFS_MEM_CUDA, mem_state := LIVE, cuda_page_table := Some demo_table\<rparr>],
        res := (\<lambda>_. 0)(CudaTable 2 := 1, CudaPin 2 := 1)\<rparr>) = None"
  using cuda_table_double_free_or_leak [where m = 2 and K = "demo_kernel\<lparr>k_put_frees_table := True\<rparr>"
      and x = "mem_zero\<lparr>mem_loc := BAFS_MEM_CUDA, mem_state := LIVE, cuda_page_table := Some demo_table\<rparr>"
      and s = "demo_cuda_world\<lparr>mems := [2 \<mapsto> mem_zero\<lparr>mem_loc := BAFS_MEM_CUDA, mem_state := LIVE,
        cuda_page_table := Some demo_table\<rparr>], res := (\<lambda>_. 0)(CudaTable 2 := 1, CudaPin 2 := 1)\<rparr>"]
  by simp

section \<open>Revocation\<close>

text \<open>The mappings of a CUDA memory, and how many of the mapping objects a list of them holds.\<close>

definition cuda_dmas_ok :: "world \<Rightarrow> addr \<Rightarrow> addr list \<Rightarrow> bool" where
  "cuda_dmas_ok s m ds \<longleftrightarrow> distinct ds \<and> (\<forall>d \<in> set ds. \<exists>y. dmas s d = Some y \<and> dma_mem y = m \<and>
     ctrls s (dma_ctrl y) \<noteq> None \<and> (cuda_mapping y \<noteq> None \<longrightarrow> 0 < res s (CudaMapping d)))"

definition mappings_of :: "world \<Rightarrow> addr list \<Rightarrow> resource \<Rightarrow> nat" where
  "mappings_of s ds r =
     (case r of CudaMapping d \<Rightarrow> if d \<in> set ds \<and> cuda_mapping (the (dmas s d)) \<noteq> None then 1 else 0 | _ \<Rightarrow> 0)"

definition mappings_freed :: "addr list \<Rightarrow> world \<Rightarrow> world" where
  "mappings_freed ds s =
     s\<lparr>res := (\<lambda>r. res s r - mappings_of s ds r),
       dmas := (\<lambda>d. if d \<in> set ds then map_option (cuda_mapping_update (\<lambda>_. None)) (dmas s d) else dmas s d)\<rparr>"

lemma cuda_dma_free_loop_eq:
  assumes "cuda_dmas_ok s m ds"
  shows "cuda_dma_free_loop ds s = Some (mappings_freed ds s)"
  using assms
proof (induction ds arbitrary: s)
  case Nil
  have "(\<lambda>r. res s r - mappings_of s [] r) = res s"
    by (auto simp: mappings_of_def fun_eq_iff split: resource.split)
  then show ?case by (simp add: mappings_freed_def)
next
  case (Cons d ds)
  then obtain y where y: "dmas s d = Some y" "cuda_mapping y \<noteq> None \<longrightarrow> 0 < res s (CudaMapping d)" and d: "d \<notin> set ds"
    by (auto simp: cuda_dmas_ok_def)
  let ?s = "if cuda_mapping y = None then s else s\<lparr>res := (res s)(CudaMapping d := res s (CudaMapping d) - 1),
      dmas := (dmas s)(d \<mapsto> y\<lparr>cuda_mapping := None\<rparr>)\<rparr>"
  have none: "y\<lparr>cuda_mapping := None\<rparr> = y" if "cuda_mapping y = None"
    using that by (cases y) simp
  have "cuda_dma_free_loop (d # ds) s = cuda_dma_free_loop ds ?s"
    using y by (cases "cuda_mapping y") (simp_all add: release_def upd_dma_def)
  also have "\<dots> = Some (mappings_freed ds ?s)"
    using Cons.prems d by (intro Cons.IH) (auto simp: cuda_dmas_ok_def)
  also have "mappings_freed ds ?s = mappings_freed (d # ds) s"
    using y(1) d none
    by (intro world.equality) (auto simp: mappings_freed_def mappings_of_def fun_eq_iff split: resource.split)
  finally show ?case .
qed

lemma unmap_dma_revoked_eq:
  assumes "dmas s d = Some y" and "m = dma_mem y" and "mems s m = Some x" and "d \<in> set (dma_list x)"
    and "mem_loc x = BAFS_MEM_CUDA" and "mem_state x = DEAD_CB"
    and "c = dma_ctrl y" and "ctrls s c \<noteq> None" and "1 < krefs s (KCtrl c)"
  shows "unmap_dma K d s = Some (s\<lparr>mems := (mems s)(m \<mapsto> x\<lparr>dma_list := remove1 d (dma_list x)\<rparr>),
      dmas := (dmas s)(d := None), krefs := (krefs s)(KCtrl c := krefs s (KCtrl c) - 1)\<rparr>)"
  using assms
  by (auto simp: unmap_dma_def list_unlink_def upd_mem_def kfree_dma_def bafs_ctrl_release_shared
      BAFS_MEM_CPU_def BAFS_MEM_CUDA_def)

lemma mem_release_loop_revoked:
  assumes "mems s m = Some x" and "dma_list x = ds" and "cuda_dmas_ok s m ds"
    and "mem_loc x = BAFS_MEM_CUDA" and "mem_state x = DEAD_CB"
    and "\<And>k. 0 < dmas_refs s m ds k \<Longrightarrow> dmas_refs s m ds k < krefs s k"
  shows "mem_release_loop K m ds s = Some (s\<lparr>mems := (mems s)(m \<mapsto> x\<lparr>dma_list := []\<rparr>),
      dmas := (\<lambda>d. if d \<in> set ds then None else dmas s d), krefs := (\<lambda>k. krefs s k - dmas_refs s m ds k)\<rparr>)"
  using assms
proof (induction ds arbitrary: s x)
  case Nil
  have "x\<lparr>dma_list := []\<rparr> = x" using Nil.prems(2) by (cases x) simp
  with Nil.prems(1) show ?case by (simp add: fun_upd_idem)
next
  case (Cons d ds)
  from Cons.prems(3) obtain y where y: "dmas s d = Some y" "dma_mem y = m" "ctrls s (dma_ctrl y) \<noteq> None"
      and d: "d \<notin> set ds" and ok: "cuda_dmas_ok s m ds"
    by (auto simp: cuda_dmas_ok_def)
  let ?c = "dma_ctrl y" and ?x = "x\<lparr>dma_list := ds\<rparr>"
  let ?t = "s\<lparr>mems := (mems s)(m \<mapsto> ?x), dmas := (dmas s)(d := None),
      krefs := (krefs s)(KCtrl ?c := krefs s (KCtrl ?c) - 1, KMem m := krefs s (KMem m) - 1)\<rparr>"
  have refs: "1 < krefs s (KCtrl ?c)" "1 < krefs s (KMem m)"
    using Cons.prems(6) [of "KCtrl ?c"] Cons.prems(6) [of "KMem m"] y(1) by (auto simp: dmas_refs_Cons)
  have refs_eq: "dmas_refs ?t m ds k = dmas_refs s m ds k" for k
    using d by (intro dmas_refs_cong) auto
  have "mem_release_loop K m (d # ds) s = mem_release_loop K m ds ?t"
    using unmap_dma_revoked_eq [OF y(1) y(2) [symmetric] Cons.prems(1) _ Cons.prems(4,5) refl y(3) refs(1)]
      Cons.prems(2) refs(2) by simp
  also have "\<dots> = Some (?t\<lparr>mems := (mems ?t)(m \<mapsto> ?x\<lparr>dma_list := []\<rparr>),
      dmas := (\<lambda>e. if e \<in> set ds then None else dmas ?t e), krefs := (\<lambda>k. krefs ?t k - dmas_refs ?t m ds k)\<rparr>)"
  proof (rule Cons.IH)
    show "cuda_dmas_ok ?t m ds" using ok d by (auto simp: cuda_dmas_ok_def)
    show "dmas_refs ?t m ds k < krefs ?t k" if "0 < dmas_refs ?t m ds k" for k
      using that Cons.prems(6) [of k] y(1) unfolding refs_eq by (auto simp: dmas_refs_Cons split: if_splits)
  qed (use Cons.prems in simp_all)
  also have "?t\<lparr>mems := (mems ?t)(m \<mapsto> ?x\<lparr>dma_list := []\<rparr>),
      dmas := (\<lambda>e. if e \<in> set ds then None else dmas ?t e), krefs := (\<lambda>k. krefs ?t k - dmas_refs ?t m ds k)\<rparr> =
    s\<lparr>mems := (mems s)(m \<mapsto> x\<lparr>dma_list := []\<rparr>),
      dmas := (\<lambda>e. if e \<in> set (d # ds) then None else dmas s e), krefs := (\<lambda>k. krefs s k - dmas_refs s m (d # ds) k)\<rparr>"
    unfolding refs_eq by (rule world.equality) (auto simp: fun_eq_iff dmas_refs_Cons y(1))
  finally show ?case .
qed

text \<open>The state after the callback.\<close>

definition revoked :: "addr \<Rightarrow> bafs_mem \<Rightarrow> world \<Rightarrow> world" where
  "revoked m x s =
     (mappings_freed (dma_list x) s)\<lparr>
       res := (\<lambda>r. res s r - (mappings_of s (dma_list x) r + (if r = CudaTable m then 1 else 0))),
       mems := (mems s)(m \<mapsto> x\<lparr>mem_state := DEAD_CB, cuda_page_table := None\<rparr>)\<rparr>"

lemma release_bafs_cuda_mem_eq:
  assumes "mems s m = Some x" and "mem_state x \<noteq> DEAD" and "cuda_dmas_ok s m (dma_list x)"
    and "0 < res s (CudaTable m)" and "MemLock m \<notin> held s"
  shows "release_bafs_cuda_mem (Some m) s = Some (revoked m x s)"
proof -
  let ?s = "s\<lparr>held := insert (MemLock m) (held s)\<rparr>"
  have loop: "cuda_dma_free_loop (dma_list x) ?s = Some (mappings_freed (dma_list x) ?s)"
    using assms(3) by (intro cuda_dma_free_loop_eq [where m = m]) (simp add: cuda_dmas_ok_def)
  have m: "mappings_of ?s = mappings_of s" by (simp add: mappings_of_def fun_eq_iff split: resource.split)
  have o: "mappings_of s (dma_list x) (CudaTable m) = 0" by (simp add: mappings_of_def)
  show ?thesis
    using assms(1,2,4,5) loop
    by (simp add: release_bafs_cuda_mem_def spin_lock_def spin_unlock_def upd_mem_def release_def revoked_def
        mappings_freed_def m o) (auto simp: fun_eq_iff o)
qed

lemma bafs_mem_release_revoked:
  assumes v: "vmas s v = Some vma" "vm_private_data vma = Some m" and x: "mems s m = Some x"
    and dead: "mem_loc x = BAFS_MEM_CUDA" "mem_state x = DEAD_CB"
    and c: "c = mem_ctx x" "ctxs s c = Some cx" "0 < krefs s (KCtx c)"
    and m: "m \<in> set (mem_list cx)" and lk: "CtxLock c \<notin> held s" "MemLock m \<notin> held s"
    and ds: "ds = dma_list x" "cuda_dmas_ok s m ds" and km: "krefs s (KMem m) = Suc (length ds)"
    and kc: "\<And>e. 0 < dmas_refs s m ds (KCtrl e) \<Longrightarrow> dmas_refs s m ds (KCtrl e) < krefs s (KCtrl e)"
  shows "bafs_mem_release K v s =
    bafs_put_ctx c (gone v m x cx (\<lambda>d. if d \<in> set ds then None else dmas s d) (res s) s)"
proof (rule bafs_mem_release_gen [OF v x c m lk ds(1) km])
  fix t assume t: "t = s\<lparr>krefs := (krefs s)(KCtx c := Suc (krefs s (KCtx c))), held := insert (MemLock m) (held s)\<rparr>"
  have f: "mems t = mems s" "dmas t = dmas s" "ctrls t = ctrls s" "res t = res s"
    by (simp_all add: t)
  have same: "dmas_refs t m ds k = dmas_refs s m ds k" for k
    by (rule dmas_refs_cong) (simp add: f)
  have refs: "dmas_refs s m ds k < krefs t k" if "0 < dmas_refs s m ds k" for k
    using that kc km by (cases k) (auto simp: dmas_refs_def t split: if_splits)
  have "mem_release_loop K m ds t = Some (t\<lparr>mems := (mems t)(m \<mapsto> x\<lparr>dma_list := []\<rparr>),
      dmas := (\<lambda>d. if d \<in> set ds then None else dmas t d), krefs := (\<lambda>k. krefs t k - dmas_refs t m ds k)\<rparr>)"
    using x ds(1) [symmetric] ds(2) refs dead
    by (intro mem_release_loop_revoked) (auto simp: same cuda_dmas_ok_def f)
  then show "mem_release_loop K m ds t = Some (t\<lparr>mems := (mems s)(m \<mapsto> x\<lparr>dma_list := []\<rparr>),
      dmas := (\<lambda>d. if d \<in> set ds then None else dmas s d), krefs := (\<lambda>k. krefs t k - dmas_refs s m ds k), res := res s\<rparr>)"
    unfolding same f by (simp add: t)
next
  fix u :: world assume u: "mems u m = Some (x\<lparr>dma_list := []\<rparr>)" "res u = res s"
  then have "mem_release_pages K m u =
      Some (u\<lparr>res := res s, mems := (mems u)(m \<mapsto> x\<lparr>dma_list := [], mem_state := DEAD\<rparr>)\<rparr>)"
    using dead by (simp add: mem_release_pages_def upd_mem_def BAFS_MEM_CUDA_def BAFS_MEM_CPU_def)
  then show "\<exists>x'. mem_release_pages K m u = Some (u\<lparr>res := res s, mems := (mems u)(m \<mapsto> x')\<rparr>)"
    by blast
qed

text \<open>The callback and then the unmapping.\<close>

lemma callback_then_unmapped:
  assumes v: "vmas s v = Some vma" "vm_private_data vma = Some m" and x: "mems s m = Some x"
    and cuda: "mem_loc x = BAFS_MEM_CUDA" "mem_state x = LIVE" "0 < res s (CudaTable m)"
    and c: "c = mem_ctx x" "ctxs s c = Some cx" "1 < krefs s (KCtx c)"
    and m: "m \<in> set (mem_list cx)" and lk: "CtxLock c \<notin> held s" "MemLock m \<notin> held s"
    and ds: "ds = dma_list x" "cuda_dmas_ok s m ds" and km: "krefs s (KMem m) = Suc (length ds)"
    and kc: "\<And>e. 0 < dmas_refs s m ds (KCtrl e) \<Longrightarrow> dmas_refs s m ds (KCtrl e) < krefs s (KCtrl e)"
  shows "yields (do { s \<leftarrow> release_bafs_cuda_mem (Some m) s; bafs_mem_release K v s }) (\<lambda>s'.
    mems s' = (mems s)(m := None) \<and> held s' = held s \<and>
    (\<forall>d. dmas s' d = (if d \<in> set ds then None else dmas s d)) \<and>
    (\<forall>r. res s' r = res s r - (mappings_of s ds r + (if r = CudaTable m then 1 else 0))) \<and>
    (\<forall>e. krefs s' (KCtrl e) + dmas_refs s m ds (KCtrl e) = krefs s (KCtrl e)) \<and>
    Suc (krefs s' (KCtx c)) = krefs s (KCtx c))"
proof -
  let ?x = "x\<lparr>mem_state := DEAD_CB, cuda_page_table := None\<rparr>"
  let ?t = "revoked m x s"
  have t: "vmas ?t = vmas s" "mems ?t = (mems s)(m \<mapsto> ?x)" "ctxs ?t = ctxs s" "krefs ?t = krefs s" "held ?t = held s"
    "ctrls ?t = ctrls s" "dmas ?t = (\<lambda>d. if d \<in> set ds then map_option (cuda_mapping_update (\<lambda>_. None)) (dmas s d) else dmas s d)"
    "res ?t = (\<lambda>r. res s r - (mappings_of s ds r + (if r = CudaTable m then 1 else 0)))"
    by (simp_all add: revoked_def mappings_freed_def ds(1))
  have same: "dmas_refs ?t m ds k = dmas_refs s m ds k" for k
  proof -
    have "filter (\<lambda>d. dma_ctrl (the (dmas ?t d)) = e) ds = filter (\<lambda>d. dma_ctrl (the (dmas s d)) = e) ds" for e
      using ds(2) by (intro filter_cong) (auto simp: t cuda_dmas_ok_def)
    then show ?thesis by (simp add: dmas_refs_def split: kobj.split)
  qed
  have ok: "cuda_dmas_ok ?t m ds"
    using ds(2) by (fastforce simp: cuda_dmas_ok_def t)
  have "release_bafs_cuda_mem (Some m) s = Some ?t"
    using x cuda ds lk by (intro release_bafs_cuda_mem_eq) simp_all
  moreover have "bafs_mem_release K v ?t = bafs_put_ctx c (gone v m ?x cx (\<lambda>d. if d \<in> set ds then None else dmas ?t d) (res ?t) ?t)"
    using v cuda c m lk ds(1) [symmetric] ok km kc
    by (intro bafs_mem_release_revoked [where vma = vma]) (simp_all add: t same)
  moreover have "krefs (gone v m ?x cx (\<lambda>d. if d \<in> set ds then None else dmas ?t d) (res ?t) ?t) (KCtx c) = krefs s (KCtx c)"
    by (simp add: gone_def t dmas_refs_def)
  moreover have "dmas_refs s m ds (KCtrl e) \<le> krefs s (KCtrl e)" for e
    using kc [of e] by (cases "dmas_refs s m ds (KCtrl e)") simp_all
  ultimately show ?thesis
    using c(3) by (simp add: gone_def t same ds(1) [symmetric])
qed

text \<open>
  A revocation: the NVIDIA driver takes down its pin and the DMA mappings that were made of the
  pages, and calls the callback, which has to free the objects that describe them.
\<close>

definition p2p_teardown :: "addr \<Rightarrow> world \<Rightarrow> world" where
  "p2p_teardown m s = s\<lparr>res := (\<lambda>r. case r of
     CudaPin m' \<Rightarrow> if m' = m then res s r - 1 else res s r
   | CudaDmaMap d \<Rightarrow> (case dmas s d of None \<Rightarrow> res s r
       | Some y \<Rightarrow> if dma_mem y = m \<and> cuda_mapping y \<noteq> None then 0 else res s r)
   | _ \<Rightarrow> res s r)\<rparr>"

definition p2p_revoke :: "addr \<Rightarrow> world \<Rightarrow> world option" where
  "p2p_revoke m s = release_bafs_cuda_mem (Some m) (p2p_teardown m s)"

text \<open>
  What the NVIDIA driver holds for a memory: the pin, the page table, and for every DMA mapping
  that was made, the mapping and the object that describes it.
\<close>

definition nv_owned :: "world \<Rightarrow> addr \<Rightarrow> addr list \<Rightarrow> resource \<Rightarrow> bool" where
  "nv_owned s m ds r \<longleftrightarrow> (case r of CudaPin m' \<Rightarrow> m' = m | CudaTable m' \<Rightarrow> m' = m
     | CudaMapping d \<Rightarrow> d \<in> set ds \<and> cuda_mapping (the (dmas s d)) \<noteq> None
     | CudaDmaMap d \<Rightarrow> d \<in> set ds \<and> cuda_mapping (the (dmas s d)) \<noteq> None | _ \<Rightarrow> False)"

lemma p2p_teardown_simps [simp]:
  "vmas (p2p_teardown m s) = vmas s" "mems (p2p_teardown m s) = mems s" "ctxs (p2p_teardown m s) = ctxs s"
  "krefs (p2p_teardown m s) = krefs s" "held (p2p_teardown m s) = held s" "ctrls (p2p_teardown m s) = ctrls s"
  "dmas (p2p_teardown m s) = dmas s" "res (p2p_teardown m s) (CudaTable t) = res s (CudaTable t)"
  "res (p2p_teardown m s) (CudaMapping d) = res s (CudaMapping d)"
  by (simp_all add: p2p_teardown_def)

lemma nv_released:
  assumes own: "\<And>r. nv_owned s m ds r \<Longrightarrow> res s r = 1" and ok: "cuda_dmas_ok s m ds"
    and all: "\<And>d y. dmas s d = Some y \<Longrightarrow> dma_mem y = m \<Longrightarrow> d \<in> set ds"
  shows "res (p2p_teardown m s) r - (mappings_of s ds r + (if r = CudaTable m then 1 else 0)) =
    (if nv_owned s m ds r then 0 else res s r)"
proof (cases r)
  case (CudaDmaMap d)
  show ?thesis
  proof (cases "dmas s d")
    case None
    with ok CudaDmaMap show ?thesis by (auto simp: p2p_teardown_def nv_owned_def mappings_of_def cuda_dmas_ok_def)
  next
    case (Some y)
    with ok all [OF Some] CudaDmaMap show ?thesis by (auto simp: p2p_teardown_def nv_owned_def mappings_of_def cuda_dmas_ok_def)
  qed
qed (use own [of r] in \<open>auto simp: p2p_teardown_def nv_owned_def mappings_of_def\<close>)

text \<open>
  C23. Revocation and unmapping of a live CUDA memory with any number of DMA mappings, in this
  order: each object that the NVIDIA driver held for the memory once (the pin, the page table, the
  DMA mappings and their objects) is released, none of them twice, and nothing else is; the
  unmapping that follows removes the driver's own objects and its references on the
  controllers and on the context.
\<close>

theorem revoked_then_unmapped:
  assumes v: "vmas s v = Some vma" "vm_private_data vma = Some m" and x: "mems s m = Some x"
    and cuda: "mem_loc x = BAFS_MEM_CUDA" "mem_state x = LIVE"
    and c: "c = mem_ctx x" "ctxs s c = Some cx" "1 < krefs s (KCtx c)"
    and m: "m \<in> set (mem_list cx)" and lk: "CtxLock c \<notin> held s" "MemLock m \<notin> held s"
    and ds: "ds = dma_list x" "cuda_dmas_ok s m ds" "\<And>d y. dmas s d = Some y \<Longrightarrow> dma_mem y = m \<Longrightarrow> d \<in> set ds"
    and km: "krefs s (KMem m) = Suc (length ds)"
    and kc: "\<And>e. 0 < dmas_refs s m ds (KCtrl e) \<Longrightarrow> dmas_refs s m ds (KCtrl e) < krefs s (KCtrl e)"
    and own: "\<And>r. nv_owned s m ds r \<Longrightarrow> res s r = 1"
  shows "yields (do { s \<leftarrow> p2p_revoke m s; bafs_mem_release K v s }) (\<lambda>s'.
    mems s' = (mems s)(m := None) \<and> held s' = held s \<and>
    (\<forall>d. dmas s' d = (if d \<in> set ds then None else dmas s d)) \<and>
    (\<forall>r. res s' r = (if nv_owned s m ds r then 0 else res s r)) \<and>
    (\<forall>e. krefs s' (KCtrl e) + dmas_refs s m ds (KCtrl e) = krefs s (KCtrl e)) \<and>
    Suc (krefs s' (KCtx c)) = krefs s (KCtx c))"
proof -
  let ?t = "p2p_teardown m s"
  have "res s (CudaTable m) = 1" using own [of "CudaTable m"] by (simp add: nv_owned_def)
  then have tab: "0 < res ?t (CudaTable m)" by simp
  have ok: "cuda_dmas_ok ?t m ds" using ds(2) by (simp add: cuda_dmas_ok_def)
  have refs: "dmas_refs ?t m es k = dmas_refs s m es k" for es k by (rule dmas_refs_cong) simp
  have maps: "mappings_of ?t ds r = mappings_of s ds r" for r by (simp add: mappings_of_def split: resource.split)
  have run: "yields (do { s \<leftarrow> release_bafs_cuda_mem (Some m) ?t; bafs_mem_release K v s }) (\<lambda>s'.
    mems s' = (mems ?t)(m := None) \<and> held s' = held ?t \<and> (\<forall>d. dmas s' d = (if d \<in> set ds then None else dmas ?t d)) \<and>
    (\<forall>r. res s' r = res ?t r - (mappings_of ?t ds r + (if r = CudaTable m then 1 else 0))) \<and>
    (\<forall>e. krefs s' (KCtrl e) + dmas_refs ?t m ds (KCtrl e) = krefs ?t (KCtrl e)) \<and> Suc (krefs s' (KCtx c)) = krefs ?t (KCtx c))"
    by (rule callback_then_unmapped [where vma = vma and x = x and cx = cx])
      (use v x cuda c m lk ds ok km kc tab in \<open>simp_all add: refs\<close>)
  show ?thesis
    unfolding p2p_revoke_def
    by (rule yields_mono [OF run]) (simp add: refs maps nv_released [OF own ds(2,3)])
qed

text \<open>A live CUDA memory with one DMA mapping, at address 8, for a controller at address 7.\<close>

definition demo_nv_world :: world where
  "demo_nv_world = demo_mapped_world\<lparr>
     mems := [2 \<mapsto> mem_zero\<lparr>mem_ctx := 1, mem_loc := BAFS_MEM_CUDA, mem_state := LIVE, cuda_page_table := Some demo_table, dma_list := [8]\<rparr>],
     dmas := [8 \<mapsto> demo_dma\<lparr>cuda_mapping := Some [0x7000], dma_addrs := None\<rparr>],
     res := (\<lambda>_. 0)(CudaTable 2 := 1, CudaPin 2 := 1, CudaMapping 8 := 1, CudaDmaMap 8 := 1)\<rparr>"

theorem revoked_then_unmapped_witness:
  "yields (do { s \<leftarrow> p2p_revoke 2 demo_nv_world; bafs_mem_release demo_kernel 0 s }) (\<lambda>s'.
     mems s' = Map.empty \<and> dmas s' = Map.empty \<and> res s' = (\<lambda>_. 0) \<and> krefs s' (KCtrl 7) = 1)"
proof -
  let ?x = "mem_zero\<lparr>mem_ctx := 1, mem_loc := BAFS_MEM_CUDA, mem_state := LIVE, cuda_page_table := Some demo_table, dma_list := [8]\<rparr>"
  let ?s = demo_nv_world
  have s: "vmas ?s = [0 \<mapsto> vma_pinned 2 demo_vma]" "mems ?s = [2 \<mapsto> ?x]" "dmas ?s = [8 \<mapsto> demo_dma\<lparr>cuda_mapping := Some [0x7000], dma_addrs := None\<rparr>]"
    "ctxs ?s = [1 \<mapsto> \<lparr>bafs_mem_xa = [0 \<mapsto> 2], mem_list = [2], ctx_tgid = 77\<rparr>]" "held ?s = {}"
    "krefs ?s = (\<lambda>_. 0)(KCtx 1 := 2, KMem 2 := 2, KCtrl 7 := 2)" "ctrls ?s = [7 \<mapsto> \<lparr>pdev = 5, ctrl_minor = 1, ctrl_id = 0\<rparr>]"
    "res ?s = (\<lambda>_. 0)(CudaTable 2 := 1, CudaPin 2 := 1, CudaMapping 8 := 1, CudaDmaMap 8 := 1)"
    by (simp_all add: demo_nv_world_def)
  have nv: "nv_owned ?s 2 [8] r \<longleftrightarrow> r \<in> {CudaTable 2, CudaPin 2, CudaMapping 8, CudaDmaMap 8}" for r
    by (auto simp: nv_owned_def s split: resource.split)
  have refs: "dmas_refs ?s 2 [8] (KCtrl e) = (if e = 7 then 1 else 0)" for e by (simp add: dmas_refs_def s demo_dma_def)
  have pd: "vm_private_data (vma_pinned 2 demo_vma) = Some 2" by (simp add: vma_pinned_def)
  have run: "yields (do { s \<leftarrow> p2p_revoke 2 ?s; bafs_mem_release demo_kernel 0 s }) (\<lambda>s'.
    mems s' = (mems ?s)(2 := None) \<and> held s' = held ?s \<and> (\<forall>d. dmas s' d = (if d \<in> set [8] then None else dmas ?s d)) \<and>
    (\<forall>r. res s' r = (if nv_owned ?s 2 [8] r then 0 else res ?s r)) \<and>
    (\<forall>e. krefs s' (KCtrl e) + dmas_refs ?s 2 [8] (KCtrl e) = krefs ?s (KCtrl e)) \<and> Suc (krefs s' (KCtx 1)) = krefs ?s (KCtx 1))"
    by (rule revoked_then_unmapped [where vma = "vma_pinned 2 demo_vma" and x = ?x and cx = "\<lparr>bafs_mem_xa = [0 \<mapsto> 2], mem_list = [2], ctx_tgid = 77\<rparr>"])
      (auto simp: s nv refs pd cuda_dmas_ok_def demo_dma_def split: if_splits)
  show ?thesis
  proof (rule yields_mono [OF run], clarify)
    fix s' assume a: "mems s' = (mems ?s)(2 := None)" "\<forall>d. dmas s' d = (if d \<in> set [8] then None else dmas ?s d)"
      "\<forall>r. res s' r = (if nv_owned ?s 2 [8] r then 0 else res ?s r)"
      "\<forall>e. krefs s' (KCtrl e) + dmas_refs ?s 2 [8] (KCtrl e) = krefs ?s (KCtrl e)"
    from a(4) have "krefs s' (KCtrl 7) = 1" by (auto simp: refs s dest: spec [of _ 7])
    with a(1-3) show "mems s' = Map.empty \<and> dmas s' = Map.empty \<and> res s' = (\<lambda>_. 0) \<and> krefs s' (KCtrl 7) = 1"
      by (auto simp: fun_eq_iff nv s)
  qed
qed

end
