(* ===== verification/Bafs_Dma.thy ===== *)
theory Bafs_Dma
  imports Bafs_Cuda
begin

text \<open>
  Looking up a pinned memory by its address (\<^verbatim>\<open>core.c\<close>) and mapping it for DMA by a
  controller (\<^verbatim>\<open>ctrl.c\<close>).
\<close>

section \<open>Lookup by address\<close>

fun find_mem_loop :: "kernel \<Rightarrow> u64 \<Rightarrow> addr list \<Rightarrow> world \<Rightarrow> (addr option \<times> world) option" where
  "find_mem_loop K va [] s = Some (None, s)"
| "find_mem_loop K va (m # ms) s = do {
     s \<leftarrow> kref_get (KMem m) s;
     s \<leftarrow> spin_lock (MemLock m) s;
     x \<leftarrow> mems s m;
     if mem_vaddr x = va \<and> mem_state x \<noteq> DEAD \<and> mem_state x \<noteq> DEAD_CB
     then do { s \<leftarrow> spin_unlock (MemLock m) s; Some (Some m, s) }
     else do {
       s \<leftarrow> spin_unlock (MemLock m) s;
       s \<leftarrow> bafs_mem_put K m s;
       find_mem_loop K va ms s
     }
   }"

definition bafs_get_mem_with_ctx :: "kernel \<Rightarrow> u64 \<Rightarrow> addr \<Rightarrow> world \<Rightarrow> (addr option \<times> world) option" where
  "bafs_get_mem_with_ctx K va c s = do {
     s \<leftarrow> kref_get (KCtx c) s;
     s \<leftarrow> spin_lock (CtxLock c) s;
     cx \<leftarrow> ctxs s c;
     (mem, s) \<leftarrow> find_mem_loop K va (mem_list cx) s;
     s \<leftarrow> spin_unlock (CtxLock c) s;
     s \<leftarrow> bafs_put_ctx c s;
     Some (mem, s)
   }"

text \<open>\<open>bafs_get_mem\<close> has a loop of its own.\<close>

fun get_mem_loop :: "kernel \<Rightarrow> u64 \<Rightarrow> addr list \<Rightarrow> world \<Rightarrow> (addr option \<times> world) option" where
  "get_mem_loop K va [] s = Some (None, s)"
| "get_mem_loop K va (m # ms) s = do {
     s \<leftarrow> kref_get (KMem m) s;
     s \<leftarrow> spin_lock (MemLock m) s;
     x \<leftarrow> mems s m;
     if mem_vaddr x = va \<and> mem_state x \<noteq> DEAD \<and> mem_state x \<noteq> DEAD_CB
     then do { s \<leftarrow> spin_unlock (MemLock m) s; Some (Some m, s) }
     else do {
       s \<leftarrow> spin_unlock (MemLock m) s;
       s \<leftarrow> bafs_mem_put K m s;
       get_mem_loop K va ms s
     }
   }"

definition bafs_get_mem :: "kernel \<Rightarrow> nat \<Rightarrow> u64 \<Rightarrow> world \<Rightarrow> (addr option \<times> world) option" where
  "bafs_get_mem K t va s =
     (let (ok, s) = find_get_pid K t s in
      if \<not> ok then Some (None, s)
      else case global_ctx_xa s t of
        None \<Rightarrow> do { s \<leftarrow> put_pid t s; Some (None, s) }
      | Some c \<Rightarrow> do {
          s \<leftarrow> kref_get (KCtx c) s;
          cx \<leftarrow> ctxs s c;
          (mem, s) \<leftarrow> (if ctx_tgid cx \<noteq> t then Some (None, s)
                        else do {
                          s \<leftarrow> spin_lock (CtxLock c) s;
                          (mem, s) \<leftarrow> get_mem_loop K va (mem_list cx) s;
                          s \<leftarrow> spin_unlock (CtxLock c) s;
                          Some (mem, s)
                        });
          s \<leftarrow> bafs_put_ctx c s;
          s \<leftarrow> put_pid t s;
          Some (mem, s)
        })"

section \<open>Mapping for DMA\<close>

text \<open>
  The loop over the pages of a CPU memory: the addresses mapped so far and, when
  \<open>dma_map_single\<close> fails, the index where it did. A page table or an entry that is \<open>NULL\<close>
  stops the run.
\<close>

fun dma_map_loop :: "kernel \<Rightarrow> nat \<Rightarrow> u32 \<Rightarrow> u64 \<Rightarrow> addr option list option \<Rightarrow> nat \<Rightarrow> nat \<Rightarrow> u64 list \<Rightarrow> world
    \<Rightarrow> (nat option \<times> u64 list \<times> world) option" where
  "dma_map_loop K p g sz pt i 0 as s = Some (None, as, s)"
| "dma_map_loop K p g sz pt i (Suc k) as s = do {
     ps \<leftarrow> pt;
     e \<leftarrow> nth_opt ps i;
     page \<leftarrow> e;
     let (r, s) = ask (k_dma_map K) s;
     case r of
       None \<Rightarrow> Some (Some i, as, s)
     | Some a \<Rightarrow> dma_map_loop K p g sz pt (Suc i) k (as @ [a])
                   (acquire (DmaMap p a (dma_gran i g sz)) s)
   }"

fun dma_unmap_down :: "nat \<Rightarrow> u32 \<Rightarrow> u64 list \<Rightarrow> nat \<Rightarrow> world \<Rightarrow> world option" where
  "dma_unmap_down p g as 0 s = Some s"
| "dma_unmap_down p g as (Suc i) s = do {
     a \<leftarrow> nth_opt as i;
     s \<leftarrow> release (DmaMap p a g) s;
     dma_unmap_down p g as i s
   }"

text \<open>\<open>copy_to_user\<close> of an array of \<open>unsigned long\<close>.\<close>

definition copy_longs_to_user :: "kernel \<Rightarrow> u64 \<Rightarrow> u64 list \<Rightarrow> world \<Rightarrow> bool \<times> world" where
  "copy_longs_to_user K dst vs s =
     (let (ok, s) = ask (k_copy K) s in
      (ok, if ok then s\<lparr>user := (user s)\<lparr>u_long := put_longs dst vs (u_long (user s))\<rparr>\<rparr> else s))"

text \<open>The labels \<open>out_delete_dma\<close> and \<open>out_put_mem\<close>.\<close>

definition dma_out_delete ::
    "kernel \<Rightarrow> addr \<Rightarrow> addr \<Rightarrow> addr \<Rightarrow> int \<Rightarrow> u32 \<Rightarrow> world \<Rightarrow> (int \<times> addr option \<times> u32 \<times> world) option" where
  "dma_out_delete K c m d ret n s = do {
     s \<leftarrow> kfree_dma d s;
     s \<leftarrow> bafs_ctrl_release c s;
     s \<leftarrow> bafs_mem_put K m s;
     Some (ret, None, n, s)
   }"

text \<open>The success path: \<open>list_add\<close> under \<open>mem->lock\<close>.\<close>

definition dma_link :: "addr \<Rightarrow> addr \<Rightarrow> u32 \<Rightarrow> world \<Rightarrow> (int \<times> addr option \<times> u32 \<times> world) option" where
  "dma_link m d n s = do {
     s \<leftarrow> spin_lock (MemLock m) s;
     s \<leftarrow> upd_mem m (dma_list_update (\<lambda>ds. d # ds)) s;
     s \<leftarrow> spin_unlock (MemLock m) s;
     Some (0, Some d, n, s)
   }"

definition count_addrs :: "nat \<Rightarrow> u32 \<Rightarrow> u32 \<Rightarrow> u32" where
  "count_addrs idx n k = (if idx = 0 then k else n + k)"

definition dma_map_cpu :: "kernel \<Rightarrow> addr \<Rightarrow> addr \<Rightarrow> addr \<Rightarrow> u32 \<Rightarrow> u64 \<Rightarrow> nat \<Rightarrow> world
    \<Rightarrow> (int \<times> addr option \<times> u32 \<times> world) option" where
  "dma_map_cpu K c m d n dst idx s = do {
     x \<leftarrow> mems s m;
     cc \<leftarrow> ctrls s c;
     let g = (ucast (page_size x) :: u32);
     s \<leftarrow> upd_dma d (map_gran_update (\<lambda>_. g)) s;
     let (ok, s) = ask (k_alloc K) s;
     if \<not> ok then dma_out_delete K c m d (- ENOMEM) n s
     else do {
       let s = acquire (Buf DmaAddrs) s;
       (failed, as, s) \<leftarrow> dma_map_loop K (pdev cc) g (mem_size x) (cpu_page_table x) 0
                             (unat (n_pages x)) [] s;
       s \<leftarrow> upd_dma d (dma_addrs_update (\<lambda>_. Some as)) s;
       case failed of
         Some i \<Rightarrow> do {
           s \<leftarrow> dma_unmap_down (pdev cc) g as i s;
           dma_out_delete K c m d (- EFAULT) n s
         }
       | None \<Rightarrow> do {
           let n = count_addrs idx n (ucast (n_pages x));
           let (ok, s) = copy_longs_to_user K dst as s;
           if \<not> ok then do {
             s \<leftarrow> dma_unmap_down (pdev cc) g as (unat (n_pages x)) s;
             dma_out_delete K c m d (- EFAULT) n s
           }
           else dma_link m d n s
         }
     }
   }"

definition dma_map_cuda :: "kernel \<Rightarrow> addr \<Rightarrow> addr \<Rightarrow> addr \<Rightarrow> u32 \<Rightarrow> u64 \<Rightarrow> nat \<Rightarrow> world
    \<Rightarrow> (int \<times> addr option \<times> u32 \<times> world) option" where
  "dma_map_cuda K c m d n dst idx s = do {
     let (ret, s) = ask (k_ret K P2pDmaMapPages) s;
     if ret \<noteq> 0 then dma_out_delete K c m d ret n s
     else do {
       let (as, s) = ask (k_p2p_addrs K) s;
       let s = acquire (CudaDmaMap d) (acquire (CudaMapping d) s);
       s \<leftarrow> upd_dma d (cuda_mapping_update (\<lambda>_. Some as)) s;
       let n = count_addrs idx n (of_nat (length as));
       let (ok, s) = copy_longs_to_user K dst as s;
       if \<not> ok then do {
         s \<leftarrow> p2p_dma_unmap_pages K d s;
         dma_out_delete K c m d (- EFAULT) n s
       }
       else dma_link m d n s
     }
   }"

text \<open>
  \<open>bafs_ctrl_dma_map_mem\<close>: the result holds the return value, \<open>*dma_\<close> and
  \<open>*n_dma_addrs\<close>; \<open>idx\<close> is the parameter \<open>ctrl_id\<close>, the position of the controller.
\<close>

definition bafs_ctrl_dma_map_mem :: "kernel \<Rightarrow> addr \<Rightarrow> addr \<Rightarrow> u64 \<Rightarrow> u32 \<Rightarrow> u64 \<Rightarrow> nat \<Rightarrow> world
    \<Rightarrow> (int \<times> addr option \<times> u32 \<times> world) option" where
  "bafs_ctrl_dma_map_mem K c ctx va n dst idx s = do {
     (mem, s) \<leftarrow> bafs_get_mem_with_ctx K va ctx s;
     case mem of
       None \<Rightarrow> Some (- EINVAL, None, n, s)
     | Some m \<Rightarrow> do {
         let (ok, s) = ask (k_alloc K) s;
         if \<not> ok then do { s \<leftarrow> bafs_mem_put K m s; Some (- ENOMEM, None, n, s) }
         else do {
           let d = next_addr s;
           let s = s\<lparr>next_addr := Suc d, dmas := (dmas s)(d \<mapsto>
                     \<lparr>dma_mem = m, dma_ctrl = c, cuda_mapping = None, n_addrs = 0,
                      dma_addrs = None, map_gran = 0\<rparr>)\<rparr>;
           s \<leftarrow> bafs_get_ctrl c s;
           x \<leftarrow> mems s m;
           if mem_loc x = BAFS_MEM_CPU then dma_map_cpu K c m d n dst idx s
           else if mem_loc x = BAFS_MEM_CUDA then dma_map_cuda K c m d n dst idx s
           else dma_out_delete K c m d (- EINVAL) n s
         }
       }
   }"

definition bafs_ctrl_dma_unmap_mem :: "kernel \<Rightarrow> addr \<Rightarrow> world \<Rightarrow> world option" where
  "bafs_ctrl_dma_unmap_mem K d s = do {
     y \<leftarrow> dmas s d;
     let m = dma_mem y;
     s \<leftarrow> spin_lock (MemLock m) s;
     s \<leftarrow> unmap_dma K d s;
     s \<leftarrow> spin_unlock (MemLock m) s;
     bafs_mem_put K m s
   }"

section \<open>The lookup finds the first live memory at the address\<close>

definition hit :: "u64 \<Rightarrow> bafs_mem \<Rightarrow> bool" where
  "hit va x \<longleftrightarrow> mem_vaddr x = va \<and> mem_state x \<noteq> DEAD \<and> mem_state x \<noteq> DEAD_CB"

definition mems_ok :: "world \<Rightarrow> addr list \<Rightarrow> bool" where
  "mems_ok s ms \<longleftrightarrow> (\<forall>m \<in> set ms. mems s m \<noteq> None \<and> 0 < krefs s (KMem m) \<and> MemLock m \<notin> held s)"

definition first_hit :: "world \<Rightarrow> u64 \<Rightarrow> addr list \<Rightarrow> addr option" where
  "first_hit s va ms = List.find (\<lambda>m. hit va (the (mems s m))) ms"

lemma first_hit_None: "first_hit s va ms = None \<Longrightarrow> \<forall>m \<in> set ms. \<not> hit va (the (mems s m))"
  by (auto simp: first_hit_def find_None_iff)

lemma first_hit_Some:
  "first_hit s va ms = Some m \<Longrightarrow>
     \<exists>us vs. ms = us @ m # vs \<and> hit va (the (mems s m)) \<and> (\<forall>u \<in> set us. \<not> hit va (the (mems s u)))"
proof (induction ms)
  case (Cons a ms)
  show ?case
  proof (cases "hit va (the (mems s a))")
    case True
    with Cons.prems show ?thesis by (auto simp: first_hit_def intro: exI [of _ "[]"])
  next
    case False
    with Cons show ?thesis by (auto simp: first_hit_def) (metis append_Cons set_ConsD)
  qed
qed (simp add: first_hit_def)

text \<open>The state with one more reference on the memory that was found, if any.\<close>

definition got_mem :: "addr option \<Rightarrow> world \<Rightarrow> world" where
  "got_mem mem s =
     (case mem of None \<Rightarrow> s | Some m \<Rightarrow> s\<lparr>krefs := (krefs s)(KMem m := Suc (krefs s (KMem m)))\<rparr>)"

lemma find_mem_loop_eq:
  assumes "mems_ok s ms"
  shows "find_mem_loop K va ms s = Some (first_hit s va ms, got_mem (first_hit s va ms) s)"
  using assms
proof (induction ms)
  case Nil
  then show ?case by (simp add: first_hit_def got_mem_def)
next
  case (Cons m ms)
  then obtain x where "mems s m = Some x" "0 < krefs s (KMem m)" "MemLock m \<notin> held s"
    by (auto simp: mems_ok_def)
  with Cons show ?case
    by (simp add: prim_defs hit_def first_hit_def got_mem_def mems_ok_def fun_upd_idem)
qed

lemma bafs_get_mem_with_ctx_eq:
  assumes "ctxs s c = Some cx" and "0 < krefs s (KCtx c)" and "CtxLock c \<notin> held s"
    and "mems_ok s (mem_list cx)" and "mem = first_hit s va (mem_list cx)"
  shows "bafs_get_mem_with_ctx K va c s = Some (mem, got_mem mem s)"
proof -
  let ?s = "s\<lparr>krefs := (krefs s)(KCtx c := Suc (krefs s (KCtx c))), held := insert (CtxLock c) (held s)\<rparr>"
  have "mems_ok ?s (mem_list cx)" using assms(4) by (simp add: mems_ok_def)
  moreover have "first_hit ?s va (mem_list cx) = mem" using assms(5) by (simp add: first_hit_def)
  ultimately have "find_mem_loop K va (mem_list cx) ?s = Some (mem, got_mem mem ?s)"
    by (simp add: find_mem_loop_eq)
  with assms(1-3) show ?thesis
    by (cases mem) (simp_all add: bafs_get_mem_with_ctx_def prim_defs got_mem_def fun_upd_idem fun_upd_twist)
qed

text \<open>
  C24. The lookup by address returns the first memory of the context's list that lies at
  this address and has neither been released nor revoked, with one more reference on it,
  and \<open>NULL\<close> when there is none; the reference on the context, the references on the memories
  it passed over and all locks are given back. A registration that has not been mapped yet
  (stale, at address 0) is found as well.
\<close>

theorem bafs_get_mem_with_ctx_spec:
  assumes "ctxs s c = Some cx" and "0 < krefs s (KCtx c)" and "CtxLock c \<notin> held s" and "mems_ok s (mem_list cx)"
  shows "yields (bafs_get_mem_with_ctx K va c s) (\<lambda>(mem, s').
    case mem of
      None \<Rightarrow> s' = s \<and> (\<forall>m \<in> set (mem_list cx). \<not> hit va (the (mems s m)))
    | Some m \<Rightarrow> s' = s\<lparr>krefs := (krefs s)(KMem m := Suc (krefs s (KMem m)))\<rparr> \<and>
        (\<exists>us vs. mem_list cx = us @ m # vs \<and> hit va (the (mems s m)) \<and> (\<forall>u \<in> set us. \<not> hit va (the (mems s u)))))"
proof -
  note eq = bafs_get_mem_with_ctx_eq [OF assms refl, of K va]
  show ?thesis
  proof (cases "first_hit s va (mem_list cx)")
    case None
    with eq first_hit_None [OF None] show ?thesis by (simp add: got_mem_def)
  next
    case (Some m)
    with eq first_hit_Some [OF Some] show ?thesis by (simp add: got_mem_def)
  qed
qed

theorem bafs_get_mem_with_ctx_spec_witness:
  "yields (bafs_get_mem_with_ctx demo_kernel 0x10000 1 demo_live_world) (\<lambda>(mem, s'). mem \<noteq> None)"
proof -
  have w: "ctxs demo_live_world 1 = Some \<lparr>bafs_mem_xa = [0 \<mapsto> 2], mem_list = [2], ctx_tgid = 77\<rparr>"
    "0 < krefs demo_live_world (KCtx 1)" "CtxLock 1 \<notin> held demo_live_world"
    "mems_ok demo_live_world (mem_list \<lparr>bafs_mem_xa = [0 \<mapsto> 2], mem_list = [2], ctx_tgid = 77\<rparr>)"
    by (simp_all add: mems_ok_def)
  show ?thesis
    by (rule yields_mono [OF bafs_get_mem_with_ctx_spec [OF w]])
      (simp add: case_prod_beta hit_def split: option.splits)
qed

text \<open>The loop of \<open>bafs_get_mem\<close> stops where the other one stops and finds what it finds.\<close>

lemma get_mem_loop_same: "get_mem_loop K va ms s = find_mem_loop K va ms s"
proof (induction ms arbitrary: s)
  case (Cons m ms)
  then have "get_mem_loop K va ms = find_mem_loop K va ms" by blast
  then show ?case by (simp cong: if_cong)
qed simp

text \<open>
  C25. \<open>bafs_get_mem\<close>, which finds the context through the calling thread group, is the
  lookup in the context that the table holds for this thread group; it gives the process id
  back in every case.
\<close>

theorem bafs_get_mem_equiv:
  assumes "\<And>c. global_ctx_xa s t = Some c \<Longrightarrow> 0 < krefs s (KCtx c) \<and> CtxLock c \<notin> held s \<and>
      (\<exists>cx. ctxs s c = Some cx \<and> ctx_tgid cx = t \<and> mems_ok s (mem_list cx))"
  shows "bafs_get_mem K t va s =
    (if k_pid K (now s)
     then (case global_ctx_xa s t of
             None \<Rightarrow> Some (None, s\<lparr>now := Suc (now s)\<rparr>)
           | Some c \<Rightarrow> bafs_get_mem_with_ctx K va c (s\<lparr>now := Suc (now s)\<rparr>))
     else Some (None, s\<lparr>now := Suc (now s)\<rparr>))"
proof (cases "global_ctx_xa s t")
  case None
  then show ?thesis by (simp add: bafs_get_mem_def find_get_pid_def prim_defs fun_upd_idem)
next
  case (Some c)
  from assms [OF Some] obtain cx where cx: "ctxs s c = Some cx" "ctx_tgid cx = t" "mems_ok s (mem_list cx)"
    and k: "0 < krefs s (KCtx c)" "CtxLock c \<notin> held s" by blast
  let ?mem = "first_hit s va (mem_list cx)"
  let ?s = "s\<lparr>now := Suc (now s), res := (res s)(PidRef t := Suc (res s (PidRef t))),
    krefs := (krefs s)(KCtx c := Suc (krefs s (KCtx c))), held := insert (CtxLock c) (held s)\<rparr>"
  have ok: "mems_ok ?s (mem_list cx)" "mems_ok (s\<lparr>now := Suc (now s)\<rparr>) (mem_list cx)"
    using cx(3) by (simp_all add: mems_ok_def)
  have hits: "first_hit ?s va (mem_list cx) = ?mem" "first_hit (s\<lparr>now := Suc (now s)\<rparr>) va (mem_list cx) = ?mem"
    by (simp_all add: first_hit_def)
  have "find_mem_loop K va (mem_list cx) ?s = Some (?mem, got_mem ?mem ?s)"
    by (simp only: find_mem_loop_eq [OF ok(1)] hits)
  then have "get_mem_loop K va (mem_list cx) ?s = Some (?mem, got_mem ?mem ?s)" by (simp only: get_mem_loop_same)
  moreover have "bafs_get_mem_with_ctx K va c (s\<lparr>now := Suc (now s)\<rparr>) = Some (?mem, got_mem ?mem (s\<lparr>now := Suc (now s)\<rparr>))"
    using cx k ok(2) by (intro bafs_get_mem_with_ctx_eq) (simp_all add: first_hit_def)
  ultimately show ?thesis
    using Some cx k
    by (cases ?mem) (simp_all add: bafs_get_mem_def find_get_pid_def prim_defs got_mem_def fun_upd_idem fun_upd_twist)
qed

text \<open>The table has the context of thread group 77: the pinned memory of the example is found.\<close>

theorem bafs_get_mem_equiv_witness:
  "bafs_get_mem demo_kernel 77 0x10000 (demo_live_world\<lparr>global_ctx_xa := [77 \<mapsto> 1]\<rparr>) =
     bafs_get_mem_with_ctx demo_kernel 0x10000 1 (demo_live_world\<lparr>global_ctx_xa := [77 \<mapsto> 1], now := Suc (now demo_live_world)\<rparr>) \<and>
   (\<exists>s. bafs_get_mem demo_kernel 77 0x10000 (demo_live_world\<lparr>global_ctx_xa := [77 \<mapsto> 1]\<rparr>) = Some (Some 2, s))"
proof -
  let ?s = "demo_live_world\<lparr>global_ctx_xa := [77 \<mapsto> 1]\<rparr>"
  have k: "k_pid demo_kernel n" for n by (simp add: demo_kernel_def)
  have eq: "bafs_get_mem demo_kernel 77 0x10000 ?s = bafs_get_mem_with_ctx demo_kernel 0x10000 1 (?s\<lparr>now := Suc (now ?s)\<rparr>)"
    by (subst bafs_get_mem_equiv) (auto simp: k mems_ok_def split: if_splits)
  moreover have "bafs_get_mem_with_ctx demo_kernel 0x10000 1 (?s\<lparr>now := Suc (now ?s)\<rparr>) =
      Some (Some 2, got_mem (Some 2) (?s\<lparr>now := Suc (now ?s)\<rparr>))"
    by (rule bafs_get_mem_with_ctx_eq [where cx = "\<lparr>bafs_mem_xa = [0 \<mapsto> 2], mem_list = [2], ctx_tgid = 77\<rparr>"]) (simp_all add: mems_ok_def first_hit_def hit_def)
  ultimately show ?thesis by auto
qed

section \<open>Mapping a CPU memory for DMA\<close>

text \<open>The bus addresses of \<open>q\<close> successful calls of \<open>dma_map_single\<close> from call \<open>t\<close> on.\<close>

definition bus_addrs :: "kernel \<Rightarrow> nat \<Rightarrow> nat \<Rightarrow> u64 list" where
  "bus_addrs K t q = map (\<lambda>j. the (k_dma_map K (t + j))) [0..<q]"

lemma length_bus_addrs [simp]: "length (bus_addrs K t q) = q"
  by (simp add: bus_addrs_def)

lemma bus_addrs_0 [simp]: "bus_addrs K t 0 = []"
  by (simp add: bus_addrs_def)

lemma bus_addrs_Suc: "k_dma_map K t = Some a \<Longrightarrow> bus_addrs K t (Suc q) = a # bus_addrs K (Suc t) q"
proof -
  have "[0..<Suc q] = 0 # map Suc [0..<q]" by (simp add: upt_conv_Cons map_Suc_upt del: upt_Suc)
  then show "k_dma_map K t = Some a \<Longrightarrow> ?thesis"
    by (simp add: bus_addrs_def del: upt_Suc)
qed

abbreviation dma_run :: "kernel \<Rightarrow> nat \<Rightarrow> nat \<Rightarrow> nat" where
  "dma_run K \<equiv> ok_run (\<lambda>t. k_dma_map K t \<noteq> None)"

lemma dma_map_loop_eq:
  assumes "\<And>j. j < i + k \<Longrightarrow> dma_gran j g sz = g" and "q = dma_run K (now s) k"
    and "\<And>j. j < i + k \<Longrightarrow> j < length ps \<and> ps ! j \<noteq> None"
  shows "dma_map_loop K p g sz (Some ps) i k as s =
    Some (if q = k then None else Some (i + q), as @ bus_addrs K (now s) q,
      s\<lparr>now := now s + asked q k, res := (\<lambda>r. res s r + maps_of p g (bus_addrs K (now s) q) r)\<rparr>)"
  using assms
proof (induction k arbitrary: i q as s)
  case 0
  then show ?case by (simp add: asked_def)
next
  case (Suc k)
  obtain page where page: "i < length ps" "ps ! i = Some page"
    using Suc.prems(3) [of i] by auto
  show ?case
  proof (cases "k_dma_map K (now s)")
    case None
    with Suc.prems(2) page show ?thesis by (simp add: ask_def asked_def)
  next
    case (Some a)
    then obtain r where r: "q = Suc r" "r = dma_run K (Suc (now s)) k" using Suc.prems(2) by simp
    let ?s = "s\<lparr>now := Suc (now s), res := (res s)(DmaMap p a g := Suc (res s (DmaMap p a g)))\<rparr>"
    have "dma_map_loop K p g sz (Some ps) i (Suc k) as s = dma_map_loop K p g sz (Some ps) (Suc i) k (as @ [a]) ?s"
      using page Some Suc.prems(1) [of i] by (simp add: ask_def acquire_def)
    also have "\<dots> = Some (if r = k then None else Some (Suc i + r), (as @ [a]) @ bus_addrs K (now ?s) r,
      ?s\<lparr>now := now ?s + asked r k, res := (\<lambda>x. res ?s x + maps_of p g (bus_addrs K (now ?s) r) x)\<rparr>)"
      using Suc.prems(1,3) r(2) by (intro Suc.IH) simp_all
    also have "(\<lambda>x. res ?s x + maps_of p g (bus_addrs K (now ?s) r) x) =
        (\<lambda>x. res s x + maps_of p g (bus_addrs K (now s) q) x)"
      by (auto simp: r(1) bus_addrs_Suc [OF Some] maps_of_Cons)
    finally show ?thesis
      using r(1) by (simp add: bus_addrs_Suc [OF Some] asked_def)
  qed
qed

lemma dma_unmap_down_eq:
  assumes "i \<le> length as" and "\<And>r. maps_of p g (take i as) r \<le> res s r"
  shows "dma_unmap_down p g as i s = Some (s\<lparr>res := (\<lambda>r. res s r - maps_of p g (take i as) r)\<rparr>)"
  using assms
proof (induction i arbitrary: s)
  case 0
  then show ?case by simp
next
  case (Suc i)
  have take: "take (Suc i) as = take i as @ [as ! i]"
    using Suc.prems(1) by (simp add: take_Suc_conv_app_nth)
  let ?s = "s\<lparr>res := (res s)(DmaMap p (as ! i) g := res s (DmaMap p (as ! i) g) - 1)\<rparr>"
  have pos: "0 < res s (DmaMap p (as ! i) g)"
    using Suc.prems(2) [of "DmaMap p (as ! i) g"] by (simp add: take maps_of_snoc)
  have "dma_unmap_down p g as (Suc i) s = dma_unmap_down p g as i ?s"
    using Suc.prems(1) pos by (simp add: release_def)
  also have "\<dots> = Some (?s\<lparr>res := (\<lambda>r. res ?s r - maps_of p g (take i as) r)\<rparr>)"
  proof (rule Suc.IH)
    fix r show "maps_of p g (take i as) r \<le> res ?s r"
      using Suc.prems(2) [of r] by (auto simp: take maps_of_snoc split: if_splits)
  qed (use Suc.prems in simp)
  also have "(\<lambda>r. res ?s r - maps_of p g (take i as) r) = (\<lambda>r. res s r - maps_of p g (take (Suc i) as) r)"
    by (auto simp: take maps_of_snoc)
  finally show ?case by simp
qed

text \<open>A new mapping before and after its addresses are known.\<close>

definition dma_blank :: "addr \<Rightarrow> addr \<Rightarrow> bafs_mem_dma" where
  "dma_blank c m = \<lparr>dma_mem = m, dma_ctrl = c, cuda_mapping = None, n_addrs = 0, dma_addrs = None, map_gran = 0\<rparr>"

definition dma_new :: "addr \<Rightarrow> addr \<Rightarrow> bafs_mem \<Rightarrow> u64 list \<Rightarrow> bafs_mem_dma" where
  "dma_new c m x as = (dma_blank c m)\<lparr>dma_addrs := Some as, map_gran := ucast (page_size x)\<rparr>"

lemma dma_new_simps [simp]:
  "dma_mem (dma_new c m x as) = m" "dma_ctrl (dma_new c m x as) = c"
  "dma_addrs (dma_new c m x as) = Some as" "map_gran (dma_new c m x as) = ucast (page_size x)"
  by (simp_all add: dma_new_def dma_blank_def)

lemma dma_out_delete_eq:
  assumes "dmas s d \<noteq> None" and "1 < krefs s (KMem m)" and "ctrls s c \<noteq> None" and "1 < krefs s (KCtrl c)"
  shows "dma_out_delete K c m d ret n s = Some (ret, None, n, s\<lparr>dmas := (dmas s)(d := None),
    krefs := (krefs s)(KCtrl c := krefs s (KCtrl c) - 1, KMem m := krefs s (KMem m) - 1)\<rparr>)"
  using assms by (simp add: dma_out_delete_def kfree_dma_def bafs_ctrl_release_shared)

lemma cpu_live_table:
  "cpu_live b x \<Longrightarrow> cpu_page_table x = Some ps \<Longrightarrow> j < unat (n_pages x) \<Longrightarrow> j < length ps \<and> ps ! j \<noteq> None"
  by (auto simp: cpu_live_def nth_page_array)

lemma dma_list_push: "dma_list_update ((#) d) x = x\<lparr>dma_list := d # dma_list x\<rparr>"
  by (cases x) simp

lemma dma_map_cpu_eq:
  assumes x: "mems s m = Some x" "cpu_live b x" and c: "ctrls s c = Some cc" "1 < krefs s (KCtrl c)"
    and k: "1 < krefs s (KMem m)" and lk: "MemLock m \<notin> held s" and d: "dmas s d = Some (dma_blank c m)"
    and t: "t = now s" and n: "n = unat (n_pages x)" and q: "q = dma_run K (Suc t) n" and as: "as = bus_addrs K (Suc t) q"
    and fail: "f = s\<lparr>dmas := (dmas s)(d := None),
      krefs := (krefs s)(KCtrl c := krefs s (KCtrl c) - 1, KMem m := krefs s (KMem m) - 1)\<rparr>"
    and leak: "l = f\<lparr>res := (res s)(Buf DmaAddrs := Suc (res s (Buf DmaAddrs)))\<rparr>"
  shows "dma_map_cpu K c m d cnt dst idx s = Some (
    if \<not> k_alloc K t then (- ENOMEM, None, cnt, f\<lparr>now := Suc t\<rparr>)
    else if q \<noteq> n then (- EFAULT, None, cnt, l\<lparr>now := Suc (Suc t + q)\<rparr>)
    else if \<not> k_copy K (Suc t + n) then (- EFAULT, None, count_addrs idx cnt (ucast (n_pages x)), l\<lparr>now := Suc (Suc t + n)\<rparr>)
    else (0, Some d, count_addrs idx cnt (ucast (n_pages x)),
      s\<lparr>now := Suc (Suc t + n), res := (\<lambda>r. res s r + dma_owns (pdev cc) (dma_new c m x as) r),
        dmas := (dmas s)(d \<mapsto> dma_new c m x as),
        user := (user s)\<lparr>u_long := put_longs dst as (u_long (user s))\<rparr>,
        mems := (mems s)(m \<mapsto> x\<lparr>dma_list := d # dma_list x\<rparr>)\<rparr>))"
proof -
  let ?g = "ucast (page_size x) :: u32"
  obtain ps where ps: "cpu_page_table x = Some ps" using x(2) by (auto simp: cpu_live_def)
  let ?y = "(dma_blank c m)\<lparr>map_gran := ?g\<rparr>"
  define r0 where "r0 = (res s)(Buf DmaAddrs := Suc (res s (Buf DmaAddrs)))"
  let ?s = "s\<lparr>dmas := (dmas s)(d \<mapsto> ?y), now := Suc t, res := r0\<rparr>"
  let ?r1 = "\<lambda>r. r0 r + maps_of (pdev cc) ?g as r"
  have loop: "dma_map_loop K (pdev cc) ?g (mem_size x) (Some ps) 0 n [] ?s =
    Some (if q = n then None else Some q, as, ?s\<lparr>now := Suc t + asked q n, res := ?r1\<rparr>)"
    using dma_map_loop_eq [of 0 n ?g "mem_size x" q K ?s ps "pdev cc" "[]"]
      mem_geom_gran [of x] cpu_live_table [OF x(2) ps] x(2) q
    by (simp add: cpu_live_def n as)
  have len: "length as = q" by (simp add: as)
  have down: "dma_unmap_down (pdev cc) ?g as q u = Some (u\<lparr>res := r0\<rparr>)" if "res u = ?r1" for u
    using dma_unmap_down_eq [of q as "pdev cc" ?g u] len that by simp
  have own: "?r1 = (\<lambda>r. res s r + dma_owns (pdev cc) (dma_new c m x as) r)"
    by (auto simp: fun_eq_iff dma_owns_def r0_def)
  have y: "?y\<lparr>dma_addrs := Some as\<rparr> = dma_new c m x as" by (simp add: dma_new_def)
  show ?thesis
  proof (cases "k_alloc K t")
    case False
    with x c k d t show ?thesis
      by (simp add: dma_map_cpu_def upd_dma_def ask_def dma_out_delete_eq fail)
  next
    case alloc: True
    have start: "dma_map_cpu K c m d cnt dst idx s = do {
        (failed, as, s) \<leftarrow> dma_map_loop K (pdev cc) ?g (mem_size x) (Some ps) 0 n [] ?s;
        s \<leftarrow> upd_dma d (dma_addrs_update (\<lambda>_. Some as)) s;
        case failed of
          Some i \<Rightarrow> do { s \<leftarrow> dma_unmap_down (pdev cc) ?g as i s; dma_out_delete K c m d (- EFAULT) cnt s }
        | None \<Rightarrow> do {
            let (ok, s) = copy_longs_to_user K dst as s;
            if \<not> ok then do {
              s \<leftarrow> dma_unmap_down (pdev cc) ?g as n s;
              dma_out_delete K c m d (- EFAULT) (count_addrs idx cnt (ucast (n_pages x))) s
            }
            else dma_link m d (count_addrs idx cnt (ucast (n_pages x))) s
          }
      }"
      unfolding dma_map_cpu_def Let_def n using alloc x(1) c(1) d t ps
      by (simp add: upd_dma_def [of d "map_gran_update _"] ask_def acquire_def r0_def)
    show ?thesis
    proof (cases "q = n")
      case False
      with alloc x(1) c k d down show ?thesis
        unfolding start loop
        by (simp add: upd_dma_def dma_out_delete_eq fail leak r0_def asked_def)
    next
      case q: True
      show ?thesis
      proof (cases "k_copy K (Suc t + n)")
        case False
        with q alloc x(1) c k d down show ?thesis
          unfolding start loop
          by (simp add: upd_dma_def dma_out_delete_eq fail leak r0_def asked_def copy_longs_to_user_def ask_def)
      next
        case True
        with q alloc x(1) c k d lk show ?thesis
          unfolding start loop
          by (simp add: upd_dma_def asked_def copy_longs_to_user_def ask_def dma_link_def spin_lock_def
              spin_unlock_def upd_mem_def own y dma_list_push)
      qed
    qed
  qed
qed

text \<open>The state after a memory was mapped for controller \<open>c\<close> of PCI device \<open>p\<close>.\<close>

definition dma_made :: "addr \<Rightarrow> addr \<Rightarrow> bafs_mem \<Rightarrow> nat \<Rightarrow> u64 list \<Rightarrow> u64 \<Rightarrow> world \<Rightarrow> world" where
  "dma_made c m x p as dst s =
     (let d = next_addr s in
      s\<lparr>next_addr := Suc d, dmas := (dmas s)(d \<mapsto> dma_new c m x as),
        mems := (mems s)(m \<mapsto> x\<lparr>dma_list := d # dma_list x\<rparr>),
        krefs := (krefs s)(KMem m := Suc (krefs s (KMem m)), KCtrl c := Suc (krefs s (KCtrl c))),
        res := (\<lambda>r. res s r + dma_owns p (dma_new c m x as) r),
        user := (user s)\<lparr>u_long := put_longs dst as (u_long (user s))\<rparr>\<rparr>)"

text \<open>What the operation needs to find: the memory of the context at the address, and the controller.\<close>

definition dma_ready :: "world \<Rightarrow> addr \<Rightarrow> addr \<Rightarrow> u64 \<Rightarrow> addr \<Rightarrow> bafs_mem \<Rightarrow> bafs_ctrl \<Rightarrow> bool" where
  "dma_ready s c ctx va m x cc \<longleftrightarrow>
     (\<exists>cx. ctxs s ctx = Some cx \<and> mems_ok s (mem_list cx) \<and> first_hit s va (mem_list cx) = Some m) \<and>
     0 < krefs s (KCtx ctx) \<and> CtxLock ctx \<notin> held s \<and> mems s m = Some x \<and> ctrls s c = Some cc \<and> 0 < krefs s (KCtrl c)"

lemma dma_ready_lookup:
  assumes "dma_ready s c ctx va m x cc"
  shows "bafs_get_mem_with_ctx K va ctx s = Some (Some m, s\<lparr>krefs := (krefs s)(KMem m := Suc (krefs s (KMem m)))\<rparr>)"
    and "0 < krefs s (KMem m)" and "MemLock m \<notin> held s"
proof -
  from assms obtain cx where cx: "ctxs s ctx = Some cx" "mems_ok s (mem_list cx)" "first_hit s va (mem_list cx) = Some m"
    and k: "0 < krefs s (KCtx ctx)" "CtxLock ctx \<notin> held s"
    by (auto simp: dma_ready_def)
  show "bafs_get_mem_with_ctx K va ctx s = Some (Some m, s\<lparr>krefs := (krefs s)(KMem m := Suc (krefs s (KMem m)))\<rparr>)"
    using bafs_get_mem_with_ctx_eq [OF cx(1) k cx(2) cx(3) [symmetric], of K] by (simp add: got_mem_def)
  have "m \<in> set (mem_list cx)" using first_hit_Some [OF cx(3)] by auto
  with cx(2) show "0 < krefs s (KMem m)" "MemLock m \<notin> held s" by (auto simp: mems_ok_def)
qed

lemma bafs_ctrl_dma_map_mem_eq:
  assumes fresh: "fresh s" and ready: "dma_ready s c ctx va m x cc" and live: "cpu_live b x"
    and t: "t = now s" and n: "n = unat (n_pages x)" and q: "q = dma_run K (t + 2) n"
    and as: "as = bus_addrs K (t + 2) q"
    and leak: "l = s\<lparr>next_addr := Suc (next_addr s), res := (res s)(Buf DmaAddrs := Suc (res s (Buf DmaAddrs)))\<rparr>"
  shows "bafs_ctrl_dma_map_mem K c ctx va cnt dst idx s = Some (
    if \<not> k_alloc K t then (- ENOMEM, None, cnt, s\<lparr>now := t + 1\<rparr>)
    else if \<not> k_alloc K (t + 1) then (- ENOMEM, None, cnt, s\<lparr>now := t + 2, next_addr := Suc (next_addr s)\<rparr>)
    else if q \<noteq> n then (- EFAULT, None, cnt, l\<lparr>now := t + 3 + q\<rparr>)
    else if \<not> k_copy K (t + 2 + n) then (- EFAULT, None, count_addrs idx cnt (ucast (n_pages x)), l\<lparr>now := t + 3 + n\<rparr>)
    else (0, Some (next_addr s), count_addrs idx cnt (ucast (n_pages x)), (dma_made c m x (pdev cc) as dst s)\<lparr>now := t + 3 + n\<rparr>))"
proof -
  note look = dma_ready_lookup [OF ready]
  have f: "mems s m = Some x" "ctrls s c = Some cc" "0 < krefs s (KCtrl c)" "mem_loc x = BAFS_MEM_CPU"
    using ready live by (simp_all add: dma_ready_def cpu_live_def)
  let ?d = "next_addr s"
  let ?s = "s\<lparr>now := Suc t, next_addr := Suc ?d, dmas := (dmas s)(?d \<mapsto> dma_blank c m),
    krefs := (krefs s)(KMem m := Suc (krefs s (KMem m)), KCtrl c := Suc (krefs s (KCtrl c)))\<rparr>"
  have "bafs_ctrl_dma_map_mem K c ctx va cnt dst idx s =
    (if k_alloc K t then dma_map_cpu K c m ?d cnt dst idx ?s else Some (- ENOMEM, None, cnt, s\<lparr>now := t + 1\<rparr>))"
    using f look t
    by (simp add: bafs_ctrl_dma_map_mem_def ask_def Let_def bafs_get_ctrl_live dma_blank_def fun_upd_idem)
  moreover have "dma_map_cpu K c m ?d cnt dst idx ?s = Some (
    if \<not> k_alloc K (t + 1) then (- ENOMEM, None, cnt, s\<lparr>now := t + 2, next_addr := Suc ?d\<rparr>)
    else if q \<noteq> n then (- EFAULT, None, cnt, l\<lparr>now := t + 3 + q\<rparr>)
    else if \<not> k_copy K (t + 2 + n) then (- EFAULT, None, count_addrs idx cnt (ucast (n_pages x)), l\<lparr>now := t + 3 + n\<rparr>)
    else (0, Some ?d, count_addrs idx cnt (ucast (n_pages x)), (dma_made c m x (pdev cc) as dst s)\<lparr>now := t + 3 + n\<rparr>))"
    by (subst dma_map_cpu_eq [where s = ?s and x = x and b = b and cc = cc and t = "t + 1" and n = n and q = q and as = as, OF _ live _ _ _ _ _ _ n _ _ refl refl])
      (use f look fresh q as in \<open>simp_all add: leak dma_made_def Let_def freshD fun_upd_idem fun_upd_twist eval_nat_numeral\<close>)
  ultimately show ?thesis by simp
qed

lemma bafs_ctrl_dma_map_mem_cases:
  assumes "fresh s" and "dma_ready s c ctx va m x cc" and "cpu_live b x"
  obtains (fail) ret n t a k where
      "bafs_ctrl_dma_map_mem K c ctx va cnt dst idx s = Some (ret, None, n, s\<lparr>now := t, next_addr := a,
         res := (res s)(Buf DmaAddrs := res s (Buf DmaAddrs) + k)\<rparr>)" "ret \<in> {- ENOMEM, - EFAULT}" "k \<le> (1 :: nat)"
    | (made) as t where "length as = unat (n_pages x)"
      "bafs_ctrl_dma_map_mem K c ctx va cnt dst idx s = Some (0, Some (next_addr s),
         count_addrs idx cnt (ucast (n_pages x)), (dma_made c m x (pdev cc) as dst s)\<lparr>now := t\<rparr>)"
proof -
  note eq = bafs_ctrl_dma_map_mem_eq [OF assms refl refl refl refl refl, of K cnt dst idx]
  let ?n = "unat (n_pages x)" and ?t = "now s"
  let ?q = "dma_run K (?t + 2) ?n"
  show thesis
  proof (cases "k_alloc K ?t \<and> k_alloc K (?t + 1) \<and> ?q = ?n \<and> k_copy K (?t + 2 + ?n)")
    case True
    then show thesis
      using made [of "bus_addrs K (?t + 2) ?n" "?t + 3 + ?n"] eq by simp
  next
    case False
    have "\<exists>ret n t a k. bafs_ctrl_dma_map_mem K c ctx va cnt dst idx s = Some (ret, None, n, s\<lparr>now := t, next_addr := a,
         res := (res s)(Buf DmaAddrs := res s (Buf DmaAddrs) + k)\<rparr>) \<and> ret \<in> {- ENOMEM, - EFAULT} \<and> k \<le> (1 :: nat)"
    proof (cases "k_alloc K ?t \<and> k_alloc K (?t + 1)")
      case True
      with False have "bafs_ctrl_dma_map_mem K c ctx va cnt dst idx s =
          Some (- EFAULT, None, if ?q = ?n then count_addrs idx cnt (ucast (n_pages x)) else cnt,
            s\<lparr>now := ?t + 3 + ?q, next_addr := Suc (next_addr s), res := (res s)(Buf DmaAddrs := res s (Buf DmaAddrs) + 1)\<rparr>)"
        unfolding eq by (cases "?q = ?n") simp_all
      then show ?thesis by blast
    next
      case False
      then have "bafs_ctrl_dma_map_mem K c ctx va cnt dst idx s = Some (- ENOMEM, None, cnt,
          s\<lparr>now := if k_alloc K ?t then ?t + 2 else ?t + 1, next_addr := if k_alloc K ?t then Suc (next_addr s) else next_addr s,
            res := (res s)(Buf DmaAddrs := res s (Buf DmaAddrs) + 0)\<rparr>)"
        unfolding eq by (cases "k_alloc K ?t") simp_all
      then show ?thesis by blast
    qed
    then show thesis using fail by blast
  qed
qed

text \<open>
  C26. Mapping a live CPU memory for a controller: when it succeeds there is one bus address
  per page, all of them are copied to the user, the count is set (first controller) or
  increased, and the new mapping, which holds a reference on the memory and on the
  controller, is linked into the memory; when it fails, every bus mapping, the object and
  all references are given back, and at most the array of addresses is left behind.
\<close>

theorem bafs_ctrl_dma_map_mem_spec:
  assumes "fresh s" and "dma_ready s c ctx va m x cc" and "cpu_live b x"
  shows "yields (bafs_ctrl_dma_map_mem K c ctx va cnt dst idx s) (\<lambda>(ret, dma, n, s').
    if ret = 0 then \<exists>as. length as = unat (n_pages x) \<and> dma = Some (next_addr s) \<and>
        n = count_addrs idx cnt (ucast (n_pages x)) \<and> s' = (dma_made c m x (pdev cc) as dst s)\<lparr>now := now s'\<rparr>
    else ret \<in> {- ENOMEM, - EFAULT} \<and> dma = None \<and>
        (\<exists>k \<le> 1. restored (s\<lparr>res := (res s)(Buf DmaAddrs := res s (Buf DmaAddrs) + k)\<rparr>) s'))"
  by (rule bafs_ctrl_dma_map_mem_cases [OF assms, of K cnt dst idx]) (auto simp: restored_def)

lemma dma_made_unmap_later:
  assumes fresh: "fresh s" and ready: "dma_ready s c ctx va m x cc" and live: "cpu_live b x"
    and len: "length as = unat (n_pages x)"
    and s': "s' = (dma_made c m x (pdev cc) as dst s)\<lparr>now := t, next_addr := a, user := u,
      res := (\<lambda>r. res s r + lk r + dma_owns (pdev cc) (dma_new c m x as) r)\<rparr>"
  shows "bafs_ctrl_dma_unmap_mem K (next_addr s) s' =
    Some (s\<lparr>now := t, next_addr := a, user := u, res := (\<lambda>r. res s r + lk r)\<rparr>)"
proof -
  let ?d = "next_addr s"
  let ?y = "dma_new c m x as" and ?x = "x\<lparr>dma_list := ?d # dma_list x\<rparr>"
  let ?t = "s'\<lparr>held := insert (MemLock m) (held s)\<rparr>"
  note look = dma_ready_lookup [OF ready]
  have f: "mems s m = Some x" "ctrls s c = Some cc" "0 < krefs s (KCtrl c)"
    using ready by (simp_all add: dma_ready_def)
  have t: "dmas ?t ?d = Some ?y" "mems ?t m = Some ?x" "ctrls ?t c = Some cc" "krefs ?t (KCtrl c) = Suc (krefs s (KCtrl c))"
    "res ?t = (\<lambda>r. res s r + lk r + dma_owns (pdev cc) ?y r)" "dma_pdev ?t ?y = pdev cc"
    using f by (simp_all add: s' dma_made_def Let_def dma_pdev_def)
  have x: "mem_loc ?x = BAFS_MEM_CPU" "mem_geom ?x" "dma_fits ?x ?y"
    using live len by (simp_all add: cpu_live_def mem_geom_def dma_fits_def)
  have old: "x\<lparr>dma_list := dma_list x\<rparr> = x" by simp
  have "unmap_dma K ?d ?t = Some (?t\<lparr>mems := (mems ?t)(m \<mapsto> ?x\<lparr>dma_list := remove1 ?d (dma_list ?x)\<rparr>),
      dmas := (dmas ?t)(?d := None), krefs := (krefs ?t)(KCtrl c := krefs ?t (KCtrl c) - 1),
      res := (\<lambda>r. res ?t r - dma_owns (dma_pdev ?t ?y) ?y r)\<rparr>)"
    by (rule unmap_dma_cpu_eq [OF t(1) _ t(2) _ x]) (use t f in simp_all)
  then have "unmap_dma K ?d ?t = Some (s\<lparr>now := t, next_addr := a, user := u, res := (\<lambda>r. res s r + lk r),
      held := insert (MemLock m) (held s), krefs := (krefs s)(KMem m := Suc (krefs s (KMem m)))\<rparr>)"
    unfolding t(5,6) using f fresh
    by (simp add: s' dma_made_def Let_def old freshD fun_upd_idem fun_upd_twist)
  with look(2,3) t(1) show ?thesis
    by (simp add: bafs_ctrl_dma_unmap_mem_def spin_lock_def spin_unlock_def Let_def fun_upd_idem s' dma_made_def)
qed

lemma dma_made_unmap:
  assumes "fresh s" and "dma_ready s c ctx va m x cc" and "cpu_live b x"
    and "length as = unat (n_pages x)" and s': "s' = (dma_made c m x (pdev cc) as dst s)\<lparr>now := t\<rparr>"
  shows "bafs_ctrl_dma_unmap_mem K (next_addr s) s' =
    Some (s\<lparr>now := t, next_addr := Suc (next_addr s), user := user s'\<rparr>)"
  using dma_made_unmap_later [OF assms(1-4), where s' = s' and dst = dst and t = t and a = "Suc (next_addr s)"
      and u = "user s'" and lk = "\<lambda>r. 0" and K = K]
  by (simp add: s' dma_made_def Let_def)

text \<open>The demonstration memory with a controller at address 7.\<close>

definition demo_dma_world :: world where
  "demo_dma_world = demo_live_world\<lparr>next_addr := 8, ctrls := [7 \<mapsto> \<lparr>pdev = 5, ctrl_minor = 1, ctrl_id = 0\<rparr>],
     krefs := (\<lambda>_. 0)(KCtx 1 := 2, KMem 2 := 1, KCtrl 7 := 1)\<rparr>"

lemma demo_dma_world_ok:
  "fresh demo_dma_world" "dma_ready demo_dma_world 7 1 0x10000 2 demo_mem \<lparr>pdev = 5, ctrl_minor = 1, ctrl_id = 0\<rparr>"
  by (simp_all add: demo_dma_world_def demo_live_world_def fresh_def demo_vma_world_def demo_ctx_world_def empty_world_def
      dma_ready_def mems_ok_def first_hit_def hit_def)

theorem bafs_ctrl_dma_map_mem_spec_witness:
  "yields (bafs_ctrl_dma_map_mem demo_kernel 7 1 0x10000 0 0x5000 0 demo_dma_world) (\<lambda>(ret, dma, n, s').
     if ret = 0 then dma = Some 8 \<and> n = count_addrs 0 0 (ucast (n_pages demo_mem)) else dma = None)"
proof -
  have "next_addr demo_dma_world = 8" by (simp add: demo_dma_world_def)
  with bafs_ctrl_dma_map_mem_spec [OF demo_dma_world_ok demo_live(1), of demo_kernel 0 "0x5000" 0] show ?thesis
    by (elim yields_mono) (simp add: case_prod_beta split: if_splits, blast)
qed

text \<open>A CUDA memory after it was mapped: the mapping object and the mapping are held, the count is one higher.\<close>

definition cuda_made :: "addr \<Rightarrow> addr \<Rightarrow> bafs_mem \<Rightarrow> u64 list \<Rightarrow> u64 \<Rightarrow> world \<Rightarrow> world" where
  "cuda_made c m x as dst s =
     (let d = next_addr s in
      s\<lparr>next_addr := Suc d, dmas := (dmas s)(d \<mapsto> (dma_blank c m)\<lparr>cuda_mapping := Some as\<rparr>),
        mems := (mems s)(m \<mapsto> x\<lparr>dma_list := d # dma_list x\<rparr>),
        krefs := (krefs s)(KMem m := Suc (krefs s (KMem m)), KCtrl c := Suc (krefs s (KCtrl c))),
        res := (res s)(CudaMapping d := Suc (res s (CudaMapping d)), CudaDmaMap d := Suc (res s (CudaDmaMap d))),
        user := (user s)\<lparr>u_long := put_longs dst as (u_long (user s))\<rparr>\<rparr>)"

lemma dma_out_delete_ret: "dma_out_delete K c m d ret n s = Some (ret', y) \<Longrightarrow> ret' = ret"
  by (auto simp: dma_out_delete_def bind_eq_Some_conv)

lemma cuda_map_success:
  assumes ready: "dma_ready s c ctx va m x cc" and loc: "mem_loc x \<noteq> BAFS_MEM_CPU"
    and map: "bafs_ctrl_dma_map_mem K c ctx va cnt dst idx s = Some (0, Some d, n, s')"
  obtains as t where "mem_loc x = BAFS_MEM_CUDA" "d = next_addr s" "s' = (cuda_made c m x as dst s)\<lparr>now := t\<rparr>"
proof -
  note look = dma_ready_lookup [OF ready]
  have f: "mems s m = Some x" "ctrls s c = Some cc" "0 < krefs s (KCtrl c)" using ready by (simp_all add: dma_ready_def)
  let ?d = "next_addr s" and ?as = "k_p2p_addrs K (now s + 2)"
  let ?s = "s\<lparr>now := Suc (now s), next_addr := Suc ?d, dmas := (dmas s)(?d \<mapsto> dma_blank c m),
    krefs := (krefs s)(KMem m := Suc (krefs s (KMem m)), KCtrl c := Suc (krefs s (KCtrl c)))\<rparr>"
  have "k_alloc K (now s)"
  proof (rule ccontr)
    assume "\<not> k_alloc K (now s)"
    with map f look show False by (simp add: bafs_ctrl_dma_map_mem_def ask_def)
  qed
  then have step: "bafs_ctrl_dma_map_mem K c ctx va cnt dst idx s = (if mem_loc x = BAFS_MEM_CUDA
      then dma_map_cuda K c m ?d cnt dst idx ?s else dma_out_delete K c m ?d (- EINVAL) cnt ?s)"
    using f look loc by (simp add: bafs_ctrl_dma_map_mem_def ask_def Let_def bafs_get_ctrl_live dma_blank_def)
  with map have cuda: "mem_loc x = BAFS_MEM_CUDA" by (auto dest: dma_out_delete_ret split: if_splits)
  have ok: "k_ret K P2pDmaMapPages (Suc (now s)) = 0" "k_copy K (now s + 3)"
    using map cuda unfolding step
    by (auto simp: dma_map_cuda_def ask_def Let_def copy_longs_to_user_def acquire_def upd_dma_def bind_eq_Some_conv eval_nat_numeral dest: dma_out_delete_ret split: if_splits)
  have "dma_map_cuda K c m ?d cnt dst idx ?s = Some (0, Some ?d, count_addrs idx cnt (of_nat (length ?as)), (cuda_made c m x ?as dst s)\<lparr>now := now s + 4\<rparr>)"
    using ok f look(3)
    by (simp add: dma_map_cuda_def ask_def Let_def acquire_def upd_dma_def copy_longs_to_user_def dma_link_def spin_lock_def
        spin_unlock_def upd_mem_def cuda_made_def dma_list_push eval_nat_numeral)
  with map cuda have "d = ?d" "s' = (cuda_made c m x ?as dst s)\<lparr>now := now s + 4\<rparr>" by (simp_all add: step)
  with cuda that show thesis by blast
qed

lemma cuda_made_unmap:
  assumes fresh: "fresh s" and ready: "dma_ready s c ctx va m x cc" and loc: "mem_loc x = BAFS_MEM_CUDA"
    and s': "s' = (cuda_made c m x as dst s)\<lparr>now := t\<rparr>"
  shows "bafs_ctrl_dma_unmap_mem K (next_addr s) s' =
    (if k_unmap_frees_mapping K then None else Some (s\<lparr>now := t, next_addr := Suc (next_addr s), user := user s'\<rparr>))"
proof -
  note look = dma_ready_lookup [OF ready]
  have f: "mems s m = Some x" "ctrls s c = Some cc" "0 < krefs s (KCtrl c)" "mem_state x \<noteq> DEAD_CB"
    using ready first_hit_Some by (fastforce simp: dma_ready_def hit_def)+
  have old: "x\<lparr>dma_list := dma_list x\<rparr> = x" by simp
  show ?thesis
    using f fresh look(2,3) loc old
    by (simp add: s' bafs_ctrl_dma_unmap_mem_def unmap_dma_def cuda_made_def Let_def dma_blank_def spin_lock_def spin_unlock_def
        list_unlink_def upd_mem_def upd_dma_def p2p_dma_unmap_pages_def release_def kfree_dma_def bafs_ctrl_release_shared
        freshD fun_upd_idem fun_upd_twist BAFS_MEM_CUDA_def BAFS_MEM_CPU_def)
qed

text \<open>
  C27. Mapping a memory for a controller and removing the mapping again. A mapping that was made of
  a CPU memory, or of a CUDA memory when \<open>nvidia_p2p_dma_unmap_pages\<close> leaves the mapping object
  to its caller, is removed without a trace: every bus mapping is unmapped with the
  length it was made with, no reference is left, and the world is as it was, but for the addresses
  copied to the user. If \<open>nvidia_p2p_dma_unmap_pages\<close> frees the object, the removal frees it a
  second time.
\<close>

theorem dma_map_unmap_roundtrip:
  assumes "fresh s" and "dma_ready s c ctx va m x cc" and cpu: "mem_loc x = BAFS_MEM_CPU \<Longrightarrow> cpu_live b x"
    and map: "bafs_ctrl_dma_map_mem K c ctx va cnt dst idx s = Some (0, Some d, n, s')"
  shows "if mem_loc x = BAFS_MEM_CUDA \<and> k_unmap_frees_mapping K then bafs_ctrl_dma_unmap_mem K d s' = None
    else yields (bafs_ctrl_dma_unmap_mem K d s') (\<lambda>s''. restored s (s''\<lparr>user := user s\<rparr>))"
proof (cases "mem_loc x = BAFS_MEM_CPU")
  case True
  then have d: "d = next_addr s" and s': "s' = (dma_made c m x (pdev cc) (bus_addrs K (now s + 2) (unat (n_pages x))) dst s)\<lparr>
      now := now s + 3 + unat (n_pages x)\<rparr>"
    using map unfolding bafs_ctrl_dma_map_mem_eq [OF assms(1,2) cpu refl refl refl refl refl, OF True]
    by (auto split: if_splits)
  from dma_made_unmap [OF assms(1,2) cpu _ s', of K] True show ?thesis
    by (simp add: d restored_def BAFS_MEM_CUDA_def BAFS_MEM_CPU_def)
next
  case False
  from cuda_map_success [OF assms(2) this map] obtain as t where s': "mem_loc x = BAFS_MEM_CUDA" "d = next_addr s"
    "s' = (cuda_made c m x as dst s)\<lparr>now := t\<rparr>" .
  from cuda_made_unmap [OF assms(1,2) s'(1,3), of K] s'(1,2) show ?thesis by (simp add: restored_def)
qed

lemma demo_dma_mapped:
  "\<exists>n s'. bafs_ctrl_dma_map_mem demo_kernel 7 1 0x10000 0 0x5000 0 demo_dma_world = Some (0, Some 8, n, s')"
  unfolding bafs_ctrl_dma_map_mem_eq [OF demo_dma_world_ok demo_live(1) refl refl refl refl refl]
  by (simp add: demo_dma_world_def)

text \<open>The same world with the memory in CUDA.\<close>

definition demo_cuda_dma_world :: world where
  "demo_cuda_dma_world = demo_dma_world\<lparr>mems := [2 \<mapsto> demo_mem\<lparr>mem_loc := BAFS_MEM_CUDA\<rparr>]\<rparr>"

lemma demo_cuda_dma:
  "fresh demo_cuda_dma_world"
  "dma_ready demo_cuda_dma_world 7 1 0x10000 2 (demo_mem\<lparr>mem_loc := BAFS_MEM_CUDA\<rparr>) \<lparr>pdev = 5, ctrl_minor = 1, ctrl_id = 0\<rparr>"
  "\<exists>n s'. bafs_ctrl_dma_map_mem (demo_kernel\<lparr>k_unmap_frees_mapping := f\<rparr>) 7 1 0x10000 0 0x5000 0 demo_cuda_dma_world = Some (0, Some 8, n, s')"
proof -
  show w: "fresh demo_cuda_dma_world"
    "dma_ready demo_cuda_dma_world 7 1 0x10000 2 (demo_mem\<lparr>mem_loc := BAFS_MEM_CUDA\<rparr>) \<lparr>pdev = 5, ctrl_minor = 1, ctrl_id = 0\<rparr>"
    using demo_dma_world_ok(1)
    by (auto simp: demo_cuda_dma_world_def demo_dma_world_def fresh_def dma_ready_def mems_ok_def first_hit_def hit_def)
  show "\<exists>n s'. bafs_ctrl_dma_map_mem (demo_kernel\<lparr>k_unmap_frees_mapping := f\<rparr>) 7 1 0x10000 0 0x5000 0 demo_cuda_dma_world = Some (0, Some 8, n, s')"
    using dma_ready_lookup(1) [OF w(2)]
    by (simp add: bafs_ctrl_dma_map_mem_def ask_def Let_def bafs_get_ctrl_live dma_map_cuda_def acquire_def upd_dma_def upd_mem_def
        copy_longs_to_user_def dma_link_def spin_lock_def spin_unlock_def demo_cuda_dma_world_def demo_dma_world_def
        BAFS_MEM_CUDA_def BAFS_MEM_CPU_def)
qed

theorem dma_map_unmap_roundtrip_witness:
  "(\<exists>n s'. bafs_ctrl_dma_map_mem demo_kernel 7 1 0x10000 0 0x5000 0 demo_dma_world = Some (0, Some 8, n, s') \<and>
     yields (bafs_ctrl_dma_unmap_mem demo_kernel 8 s') (\<lambda>s''. restored demo_dma_world (s''\<lparr>user := user demo_dma_world\<rparr>))) \<and>
   (\<exists>n s'. bafs_ctrl_dma_map_mem (demo_kernel\<lparr>k_unmap_frees_mapping := True\<rparr>) 7 1 0x10000 0 0x5000 0 demo_cuda_dma_world = Some (0, Some 8, n, s') \<and>
     bafs_ctrl_dma_unmap_mem (demo_kernel\<lparr>k_unmap_frees_mapping := True\<rparr>) 8 s' = None)"
proof
  obtain n s' where 1: "bafs_ctrl_dma_map_mem demo_kernel 7 1 0x10000 0 0x5000 0 demo_dma_world = Some (0, Some 8, n, s')"
    using demo_dma_mapped by blast
  have "mem_loc demo_mem = BAFS_MEM_CPU" using demo_live(1) by (simp add: cpu_live_def)
  with 1 dma_map_unmap_roundtrip [OF demo_dma_world_ok demo_live(1) 1]
  show "\<exists>n s'. bafs_ctrl_dma_map_mem demo_kernel 7 1 0x10000 0 0x5000 0 demo_dma_world = Some (0, Some 8, n, s') \<and>
     yields (bafs_ctrl_dma_unmap_mem demo_kernel 8 s') (\<lambda>s''. restored demo_dma_world (s''\<lparr>user := user demo_dma_world\<rparr>))"
    by (auto simp: BAFS_MEM_CUDA_def BAFS_MEM_CPU_def)
  let ?K = "demo_kernel\<lparr>k_unmap_frees_mapping := True\<rparr>"
  obtain n s' where 2: "bafs_ctrl_dma_map_mem ?K 7 1 0x10000 0 0x5000 0 demo_cuda_dma_world = Some (0, Some 8, n, s')"
    using demo_cuda_dma(3) by blast
  from dma_map_unmap_roundtrip [OF demo_cuda_dma(1,2) _ 2] 2
  show "\<exists>n s'. bafs_ctrl_dma_map_mem ?K 7 1 0x10000 0 0x5000 0 demo_cuda_dma_world = Some (0, Some 8, n, s') \<and>
     bafs_ctrl_dma_unmap_mem ?K 8 s' = None"
    by (auto simp: BAFS_MEM_CUDA_def BAFS_MEM_CPU_def)
qed

text \<open>
  When \<open>dma_map_single\<close> fails for a page, or the addresses cannot be copied to the user,
  the array \<open>dma->addrs\<close> is not freed: the cleanup frees the object that points to it only.
\<close>

theorem dma_map_error_leaks_addrs:
  assumes "fresh s" and "dma_ready s c ctx va m x cc" and "cpu_live b x"
    and "bafs_ctrl_dma_map_mem K c ctx va cnt dst idx s = Some (- EFAULT, dma, n, s')"
  shows "dma = None \<and> res s' (Buf DmaAddrs) = Suc (res s (Buf DmaAddrs)) \<and> restored s (s'\<lparr>res := res s\<rparr>)"
  using assms(4) unfolding bafs_ctrl_dma_map_mem_eq [OF assms(1-3) refl refl refl refl refl]
  by (auto simp: restored_def split: if_splits)

theorem dma_map_error_leaks_addrs_witness:
  "\<exists>n s'. bafs_ctrl_dma_map_mem (demo_kernel\<lparr>k_dma_map := \<lambda>_. None\<rparr>) 7 1 0x10000 0 0x5000 0 demo_dma_world =
     Some (- EFAULT, None, n, s') \<and> res s' (Buf DmaAddrs) = Suc (res demo_dma_world (Buf DmaAddrs))"
proof -
  let ?K = "demo_kernel\<lparr>k_dma_map := \<lambda>_. None\<rparr>"
  have "ok_run (\<lambda>t. False) i (Suc j) = 0" for i j by simp
  then have "ok_run (\<lambda>t. False) i 2 = 0" for i by (simp add: numeral_2_eq_2)
  then have "\<exists>dma n s'. bafs_ctrl_dma_map_mem ?K 7 1 0x10000 0 0x5000 0 demo_dma_world = Some (- EFAULT, dma, n, s')"
    unfolding bafs_ctrl_dma_map_mem_eq [OF demo_dma_world_ok demo_live(1) refl refl refl refl refl] demo_live(2)
    by (simp add: demo_kernel_def)
  then obtain dma n s' where eq: "bafs_ctrl_dma_map_mem ?K 7 1 0x10000 0 0x5000 0 demo_dma_world = Some (- EFAULT, dma, n, s')"
    by blast
  from dma_map_error_leaks_addrs [OF demo_dma_world_ok demo_live(1) this] eq show ?thesis by auto
qed

end
