(* ===== verification/Bafs_Ctrl.thy ===== *)
theory Bafs_Ctrl
  imports Bafs_Dma
begin

text \<open>
  The file operations of a controller device, \<^verbatim>\<open>module/bafs/ctrl.c\<close>, and the removal of the
  stale registrations of a context that the \<open>release\<close> operations of all three kinds of
  device file share.
\<close>

section \<open>Stale registrations\<close>

fun release_stale_loop :: "addr \<Rightarrow> addr list \<Rightarrow> world \<Rightarrow> world option" where
  "release_stale_loop c [] s = Some s"
| "release_stale_loop c (m # ms) s = do {
     x \<leftarrow> mems s m;
     s \<leftarrow> spin_lock (MemLock m) s;
     s \<leftarrow> (if mem_state x = STALE then do {
              s \<leftarrow> ctx_forget_mem c m (mem_id x) s;
              s \<leftarrow> spin_unlock (MemLock m) s;
              s \<leftarrow> kfree_mem m s;
              bafs_put_ctx c s
            } else spin_unlock (MemLock m) s);
     release_stale_loop c ms s
   }"

definition release_stale :: "addr \<Rightarrow> world \<Rightarrow> world option" where
  "release_stale c s = do {
     s \<leftarrow> spin_lock (CtxLock c) s;
     cx \<leftarrow> ctxs s c;
     s \<leftarrow> release_stale_loop c (mem_list cx) s;
     s \<leftarrow> spin_unlock (CtxLock c) s;
     bafs_put_ctx c s
   }"

section \<open>File operations\<close>

text \<open>\<open>__bafs_ctrl_dma_map_mem\<close>, the ioctl.\<close>

definition bafs_ctrl_dma_map_ioctl :: "kernel \<Rightarrow> addr \<Rightarrow> addr \<Rightarrow> u64 \<Rightarrow> world \<Rightarrow> (int \<times> world) option" where
  "bafs_ctrl_dma_map_ioctl K c ctx argp s = do {
     let (ok, s) = ask (k_copy K) s;
     if \<not> ok then Some (- EFAULT, s)
     else do {
       let params = u_dma (user s) argp;
       (ret, dma, n, s) \<leftarrow> bafs_ctrl_dma_map_mem K c ctx (dm_vaddr params)
                              (dm_n_dma_addrs params) (dm_dma_addrs params) 0 s;
       if ret < 0 then Some (ret, s)
       else do {
         let (ok, s) = ask (k_copy K) s;
         if \<not> ok then do {
           d \<leftarrow> dma;
           s \<leftarrow> bafs_ctrl_dma_unmap_mem K d s;
           Some (- EFAULT, s)
         }
         else Some (ret, s\<lparr>user := (user s)\<lparr>u_dma :=
                (u_dma (user s))(argp := params\<lparr>dm_n_dma_addrs := n\<rparr>)\<rparr>\<rparr>)
       }
     }
   }"

definition bafs_ctrl_ioctl :: "kernel \<Rightarrow> private_data \<Rightarrow> u32 \<Rightarrow> u64 \<Rightarrow> world \<Rightarrow> (int \<times> world) option" where
  "bafs_ctrl_ioctl K pd cmd argp s =
     (case pd of
        PCtrl c ctx \<Rightarrow> do {
          s \<leftarrow> bafs_get_ctrl c s;
          if IOC_TYPE cmd \<noteq> BAFS_CTRL_IOCTL then do {
            s \<leftarrow> bafs_ctrl_release c s;
            Some (- EINVAL, s)
          }
          else if cmd = BAFS_CTRL_IOC_REG_MEM then do {
            (ret, s) \<leftarrow> bafs_core_reg_mem K argp ctx s;
            if ret < 0 then Some (ret, s)
            else do { s \<leftarrow> bafs_ctrl_release c s; Some (0, s) }
          }
          else if cmd = BAFS_CTRL_IOC_DMA_MAP_MEM then do {
            (ret, s) \<leftarrow> bafs_ctrl_dma_map_ioctl K c ctx argp s;
            s \<leftarrow> bafs_ctrl_release c s;
            Some (if ret < 0 then ret else 0, s)
          }
          else do { s \<leftarrow> bafs_ctrl_release c s; Some (- EINVAL, s) }
        }
      | PNull \<Rightarrow> Some (- EINVAL, s)
      | _ \<Rightarrow> None)"

definition bafs_ctrl_open :: "kernel \<Rightarrow> nat \<Rightarrow> addr option \<Rightarrow> world \<Rightarrow> (int \<times> private_data \<times> world) option" where
  "bafs_ctrl_open K t ctrl s =
     (case ctrl of
        None \<Rightarrow> Some (- EINVAL, PNull, s)
      | Some c \<Rightarrow> do {
          s \<leftarrow> bafs_get_ctrl c s;
          let (ok, s) = ask (k_alloc K) s;
          if \<not> ok then do { s \<leftarrow> bafs_ctrl_release c s; Some (- ENOMEM, PNull, s) }
          else do {
            let s = acquire (Buf FileCtx) s;
            (ctx, s) \<leftarrow> bafs_get_ctx K t s;
            case ctx of
              None \<Rightarrow> do {
                s \<leftarrow> release (Buf FileCtx) s;
                s \<leftarrow> bafs_ctrl_release c s;
                Some (- EINVAL, PNull, s)
              }
            | Some cx \<Rightarrow> Some (0, PCtrl c cx, s)
          }
        })"

definition bafs_ctrl_file_release :: "private_data \<Rightarrow> world \<Rightarrow> (int \<times> private_data \<times> world) option" where
  "bafs_ctrl_file_release pd s =
     (case pd of
        PCtrl c ctx \<Rightarrow> do {
          s \<leftarrow> release_stale ctx s;
          s \<leftarrow> bafs_ctrl_release c s;
          s \<leftarrow> release (Buf FileCtx) s;
          Some (0, PNull, s)
        }
      | PNull \<Rightarrow> Some (- EINVAL, PNull, s)
      | _ \<Rightarrow> None)"

text \<open>
  \<open>bafs_ctrl_mmap\<close>: the second component is \<open>*map_size\<close>, which is left alone when there
  is no controller.
\<close>

definition bafs_ctrl_mmap :: "kernel \<Rightarrow> addr option \<Rightarrow> nat \<Rightarrow> u64 \<Rightarrow> u64 \<Rightarrow> world \<Rightarrow> (int \<times> u64 \<times> world) option" where
  "bafs_ctrl_mmap K ctrl v va sz s =
     (case ctrl of
        None \<Rightarrow> Some (- EINVAL, sz, s)
      | Some c \<Rightarrow> do {
          s \<leftarrow> bafs_get_ctrl c s;
          s \<leftarrow> upd_vma v (vm_noncached_update (\<lambda>_. True)) s;
          x \<leftarrow> ctrls s c;
          let sz = k_bar_len K (pdev x);
          let (ret, s) = io_remap_pfn_range K va (k_bar_start K (pdev x)) sz s;
          if ret < 0 then do { s \<leftarrow> bafs_ctrl_release c s; Some (ret, sz, s) }
          else Some (ret, sz, s)
        })"

text \<open>\<open>__bafs_ctrl_mmap\<close>.\<close>

definition bafs_ctrl_file_mmap :: "kernel \<Rightarrow> private_data \<Rightarrow> nat \<Rightarrow> world \<Rightarrow> (int \<times> world) option" where
  "bafs_ctrl_file_mmap K pd v s =
     (case pd of
        PCtrl c ctx \<Rightarrow> do {
          vma \<leftarrow> vmas s v;
          if vm_pgoff vma = 0 then do {
            (ret, sz, s) \<leftarrow> bafs_ctrl_mmap K (Some c) v (vm_start vma) 0 s;
            Some (ret, s)
          }
          else pin_bafs_mem K v ctx s
        }
      | PNull \<Rightarrow> Some (- EINVAL, s)
      | _ \<Rightarrow> None)"

section \<open>Closing a file removes the stale registrations\<close>

definition stale_of :: "world \<Rightarrow> addr list \<Rightarrow> addr list" where
  "stale_of s ms = filter (\<lambda>m. mem_state (the (mems s m)) = STALE) ms"

text \<open>The state and the context without the memories \<open>ds\<close>.\<close>

definition ctx_purged :: "world \<Rightarrow> addr list \<Rightarrow> bafs_ctx \<Rightarrow> bafs_ctx" where
  "ctx_purged s ds cx = cx\<lparr>mem_list := filter (\<lambda>m. m \<notin> set ds) (mem_list cx),
     bafs_mem_xa := (\<lambda>i. if i \<in> (\<lambda>m. mem_id (the (mems s m))) ` set ds then None else bafs_mem_xa cx i)\<rparr>"

definition purged :: "addr \<Rightarrow> bafs_ctx \<Rightarrow> addr list \<Rightarrow> world \<Rightarrow> world" where
  "purged c cx ds s =
     s\<lparr>ctxs := (ctxs s)(c \<mapsto> ctx_purged s ds cx), mems := (\<lambda>m. if m \<in> set ds then None else mems s m),
       krefs := (\<lambda>k. case k of KMem m \<Rightarrow> if m \<in> set ds then 0 else krefs s k
                             | KCtx e \<Rightarrow> if e = c then krefs s k - length ds else krefs s k
                             | _ \<Rightarrow> krefs s k)\<rparr>"

lemma purged_Nil: "ctxs s c = Some cx \<Longrightarrow> purged c cx [] s = s"
proof -
  have "ctx_purged s [] cx = cx" by (simp add: ctx_purged_def)
  moreover have "(\<lambda>k. case k of KMem m \<Rightarrow> krefs s k | KCtx e \<Rightarrow> krefs s k | _ \<Rightarrow> krefs s k) = krefs s"
    by (auto simp: fun_eq_iff split: kobj.split)
  ultimately show "ctxs s c = Some cx \<Longrightarrow> ?thesis"
    by (intro world.equality) (auto simp: purged_def fun_eq_iff split: kobj.split)
qed

lemma release_stale_loop_eq:
  assumes "ctxs s c = Some cx" and "distinct (mem_list cx)" and "distinct ms" and "set ms \<subseteq> set (mem_list cx)"
    and "\<And>m. m \<in> set ms \<Longrightarrow> mems s m \<noteq> None \<and> MemLock m \<notin> held s"
    and "length (stale_of s ms) < krefs s (KCtx c)"
  shows "release_stale_loop c ms s = Some (purged c cx (stale_of s ms) s)"
  using assms
proof (induction ms arbitrary: s cx)
  case Nil
  then show ?case by (simp add: stale_of_def purged_Nil)
next
  case (Cons m ms)
  obtain x where x: "mems s m = Some x" "MemLock m \<notin> held s" using Cons.prems(5) [of m] by auto
  show ?case
  proof (cases "mem_state x = STALE")
    case False
    then have st: "stale_of s (m # ms) = stale_of s ms" using x(1) by (simp add: stale_of_def)
    have "release_stale_loop c (m # ms) s = release_stale_loop c ms s"
      using x False by (simp add: spin_lock_def spin_unlock_def)
    also have "\<dots> = Some (purged c cx (stale_of s ms) s)"
      using Cons.prems by (intro Cons.IH) (simp_all add: st)
    finally show ?thesis by (simp add: st)
  next
    case True
    let ?cx = "ctx_without m (mem_id x) cx"
    let ?t = "s\<lparr>ctxs := (ctxs s)(c \<mapsto> ?cx), mems := (mems s)(m := None),
      krefs := (krefs s)(KMem m := 0, KCtx c := krefs s (KCtx c) - 1)\<rparr>"
    have st: "stale_of s (m # ms) = m # stale_of s ms" using x(1) True by (simp add: stale_of_def)
    have st': "stale_of ?t ms = stale_of s ms"
      using Cons.prems(3) unfolding stale_of_def by (intro filter_cong) auto
    have k: "1 < krefs s (KCtx c)" using Cons.prems(6) by (simp add: st)
    have "release_stale_loop c (m # ms) s = release_stale_loop c ms ?t"
      using x True Cons.prems(1,4) k
      by (simp add: prim_defs ctx_forget_mem_def ctx_without_def)
    also have "\<dots> = Some (purged c ?cx (stale_of ?t ms) ?t)"
    proof (rule Cons.IH)
      show "distinct (mem_list ?cx)" "set ms \<subseteq> set (mem_list ?cx)"
        using Cons.prems(2-4) by (auto simp: ctx_without_def)
      show "mems ?t m' \<noteq> None \<and> MemLock m' \<notin> held ?t" if "m' \<in> set ms" for m'
        using that Cons.prems(3,5) by auto
      show "length (stale_of ?t ms) < krefs ?t (KCtx c)"
        unfolding st' using Cons.prems(6) by (simp add: st)
    qed (use Cons.prems in simp_all)
    also have "purged c ?cx (stale_of ?t ms) ?t = purged c cx (stale_of s (m # ms)) s"
    proof -
      have "m \<notin> set (stale_of s ms)" using Cons.prems(3) by (auto simp: stale_of_def)
      then have "ctx_purged ?t (stale_of s ms) ?cx = ctx_purged s (m # stale_of s ms) cx"
        using Cons.prems(2) x(1)
        by (auto simp: ctx_purged_def ctx_without_def distinct_remove1_removeAll removeAll_filter_not_eq fun_eq_iff image_iff
            intro!: bafs_ctx.equality filter_cong)
      then show ?thesis
        unfolding st st' by (intro world.equality) (auto simp: purged_def fun_eq_iff split: kobj.split)
    qed
    finally show ?thesis .
  qed
qed

text \<open>A context in order: its list has no duplicates, its memories exist and none is locked.\<close>

definition ctx_ok :: "world \<Rightarrow> addr \<Rightarrow> bafs_ctx \<Rightarrow> bool" where
  "ctx_ok s c cx \<longleftrightarrow> ctxs s c = Some cx \<and> CtxLock c \<notin> held s \<and> distinct (mem_list cx) \<and>
     (\<forall>m \<in> set (mem_list cx). mems s m \<noteq> None \<and> MemLock m \<notin> held s) \<and>
     length (stale_of s (mem_list cx)) < krefs s (KCtx c)"

lemma release_stale_eq:
  assumes "ctx_ok s c cx"
  shows "release_stale c s = bafs_put_ctx c (purged c cx (stale_of s (mem_list cx)) s)"
proof -
  let ?s = "s\<lparr>held := insert (CtxLock c) (held s)\<rparr>"
  have st: "stale_of ?s ms = stale_of s ms" for ms by (simp add: stale_of_def)
  have cp: "ctx_purged ?s ds cx = ctx_purged s ds cx" for ds by (simp add: ctx_purged_def)
  have ok: "ctxs s c = Some cx" "CtxLock c \<notin> held s" using assms by (simp_all add: ctx_ok_def)
  have "release_stale_loop c (mem_list cx) ?s = Some (purged c cx (stale_of ?s (mem_list cx)) ?s)"
    using assms by (intro release_stale_loop_eq) (auto simp: ctx_ok_def st)
  moreover have "(purged c cx (stale_of s (mem_list cx)) ?s)\<lparr>held := held s\<rparr> = purged c cx (stale_of s (mem_list cx)) s"
    by (intro world.equality) (auto simp: purged_def cp fun_eq_iff split: kobj.split)
  moreover have "held (purged c cx (stale_of s (mem_list cx)) ?s) - {CtxLock c} = held s"
    using ok(2) by (simp add: purged_def)
  ultimately show ?thesis
    using ok by (simp add: release_stale_def spin_lock_def spin_unlock_def st) (simp add: purged_def)
qed



section \<open>Opening and closing a controller\<close>

lemma bafs_get_ctx_known:
  assumes "fresh s" and "global_ctx_xa s t = Some c" and "0 < krefs s (KCtx c)"
    and "k_alloc K (now s)" and "k_pid K (Suc (now s))"
  shows "bafs_get_ctx K t s = Some (Some c, s\<lparr>now := now s + 2, next_addr := Suc (next_addr s),
         krefs := (krefs s)(KCtx c := Suc (krefs s (KCtx c)))\<rparr>)"
  using assms fresh_ctx_neq [of s c]
  by (simp add: ctx_defs prim_defs Let_def freshD fun_upd_idem)

text \<open>The table of contexts is in order for a thread group: its entry, if any, is a live context of it.\<close>

definition table_ok :: "world \<Rightarrow> nat \<Rightarrow> bool" where
  "table_ok s t \<longleftrightarrow> (case global_ctx_xa s t of None \<Rightarrow> True
     | Some c \<Rightarrow> \<exists>cx. ctx_ok s c cx \<and> ctx_tgid cx = t)"

lemma bafs_get_ctx_cases:
  assumes "fresh s" and "table_ok s t" and "bafs_get_ctx K t s = Some (Some c, s')"
  shows "(global_ctx_xa s t = Some c \<and> 0 < krefs s (KCtx c) \<and>
      s' = s\<lparr>now := now s + 2, next_addr := Suc (next_addr s), krefs := (krefs s)(KCtx c := Suc (krefs s (KCtx c)))\<rparr>) \<or>
    (global_ctx_xa s t = None \<and> c = next_addr s \<and> s' = s\<lparr>now := now s + 3, next_addr := Suc c,
      ctxs := (ctxs s)(c \<mapsto> \<lparr>bafs_mem_xa = Map.empty, mem_list = [], ctx_tgid = t\<rparr>), krefs := (krefs s)(KCtx c := 1),
      res := (res s)(PidRef t := Suc (res s (PidRef t))), global_ctx_xa := (global_ctx_xa s)(t \<mapsto> c)\<rparr>)"
proof (cases "global_ctx_xa s t")
  case None
  with assms(1,3) show ?thesis
    by (auto simp: ctx_defs prim_defs Let_def freshD split: if_splits)
next
  case (Some e)
  with assms(2) have e: "0 < krefs s (KCtx e)" by (auto simp: table_ok_def ctx_ok_def)
  with assms(1,3) Some fresh_ctx_neq [of s e] show ?thesis
    by (auto simp: ctx_defs prim_defs Let_def freshD fun_upd_idem split: if_splits)
qed

text \<open>Giving a fresh reference on the context back through the close operation.\<close>

lemma get_ctx_release_stale:
  assumes "fresh s" and "table_ok s t" and "bafs_get_ctx K t s = Some (Some c, s')"
    and "\<And>cx. ctxs s c = Some cx \<Longrightarrow> stale_of s (mem_list cx) = []"
  shows "\<exists>n. release_stale c s' = Some (s\<lparr>now := n, next_addr := Suc (next_addr s)\<rparr>)"
  using bafs_get_ctx_cases [OF assms(1-3)]
proof
  assume known: "global_ctx_xa s t = Some c \<and> 0 < krefs s (KCtx c) \<and>
      s' = s\<lparr>now := now s + 2, next_addr := Suc (next_addr s), krefs := (krefs s)(KCtx c := Suc (krefs s (KCtx c)))\<rparr>"
  with assms(2) obtain cx where cx: "ctx_ok s c cx" by (auto simp: table_ok_def)
  then have st: "stale_of s' (mem_list cx) = []"
    using assms(4) [of cx] known by (simp add: ctx_ok_def stale_of_def)
  have "ctx_ok s' c cx" using cx known st by (simp add: ctx_ok_def)
  from release_stale_eq [OF this] st purged_Nil [of s' c cx] cx known show ?thesis
    by (auto simp: ctx_ok_def fun_upd_idem)
next
  let ?cx = "\<lparr>bafs_mem_xa = Map.empty, mem_list = [], ctx_tgid = t\<rparr>"
  assume new: "global_ctx_xa s t = None \<and> c = next_addr s \<and> s' = s\<lparr>now := now s + 3, next_addr := Suc c,
      ctxs := (ctxs s)(c \<mapsto> ?cx), krefs := (krefs s)(KCtx c := 1),
      res := (res s)(PidRef t := Suc (res s (PidRef t))), global_ctx_xa := (global_ctx_xa s)(t \<mapsto> c)\<rparr>"
  then have "ctx_ok s' c ?cx" using assms(1) by (simp add: ctx_ok_def stale_of_def freshD)
  from release_stale_eq [OF this] purged_Nil [of s' c ?cx] new assms(1) show ?thesis
    by (auto simp: stale_of_def bafs_put_ctx_last freshD fun_upd_idem)
qed

text \<open>
  Opening a controller device and closing it again leaves the world as it was, whether
  the process had a context already or not, provided it has no unmapped registration
  (which the close would delete): the reference on the controller, the one on the context
  (or the context itself, its table entry and its process id) and the file's own object are
  given back.
\<close>

theorem ctrl_open_close_roundtrip:
  assumes "fresh s" and "table_ok s t" and ctrl: "ctrls s c \<noteq> None" "0 < krefs s (KCtrl c)"
    and stale: "\<And>e cx. ctxs s e = Some cx \<Longrightarrow> stale_of s (mem_list cx) = []"
    and "bafs_ctrl_open K t (Some c) s = Some (0, pd, s')"
  shows "yields (bafs_ctrl_file_release pd s') (\<lambda>(ret, pd', s''). ret = 0 \<and> pd' = PNull \<and> restored s s'')"
proof -
  let ?s = "s\<lparr>krefs := (krefs s)(KCtrl c := Suc (krefs s (KCtrl c))), now := Suc (now s),
    res := (res s)(Buf FileCtx := Suc (res s (Buf FileCtx)))\<rparr>"
  have fr: "fresh ?s"
    using assms(1) ctrl freshD(4) [of s c] unfolding fresh_def
    by (auto simp: not_less_eq_eq)
  have st: "stale_of ?s ms = stale_of s ms" for ms by (simp add: stale_of_def)
  have tb: "table_ok ?s t" using assms(2) by (simp add: table_ok_def ctx_ok_def st split: option.splits)
  from assms(6) ctrl obtain e where pd: "pd = PCtrl c e" and get: "bafs_get_ctx K t ?s = Some (Some e, s')"
    by (auto simp: bafs_ctrl_open_def ask_def acquire_def bafs_get_ctrl_live elim!: bind_SomeE
        split: if_splits option.splits)
  obtain n where "release_stale e s' = Some (?s\<lparr>now := n, next_addr := Suc (next_addr s)\<rparr>)"
    using get_ctx_release_stale [OF fr tb get] stale st by auto
  with ctrl show ?thesis
    by (simp add: bafs_ctrl_file_release_def pd bafs_ctrl_release_shared release_def restored_def fun_upd_idem)
qed

definition demo_ctrl_world :: world where
  "demo_ctrl_world = (empty_world demo_user)\<lparr>next_addr := 8, ctrls := [7 \<mapsto> \<lparr>pdev = 5, ctrl_minor = 1, ctrl_id = 0\<rparr>],
     krefs := (\<lambda>_. 0)(KCtrl 7 := 1), vmas := [0 \<mapsto> demo_vma]\<rparr>"

lemma demo_ctrl_world_simps [simp]:
  "fresh demo_ctrl_world" "table_ok demo_ctrl_world t" "ctrls demo_ctrl_world = [7 \<mapsto> \<lparr>pdev = 5, ctrl_minor = 1, ctrl_id = 0\<rparr>]"
  "krefs demo_ctrl_world = (\<lambda>_. 0)(KCtrl 7 := 1)" "ctxs demo_ctrl_world = Map.empty" "now demo_ctrl_world = 0"
  "vmas demo_ctrl_world = [0 \<mapsto> demo_vma]" "remaps demo_ctrl_world = []" "global_ctx_xa demo_ctrl_world = Map.empty"
  "held demo_ctrl_world = {}" "user demo_ctrl_world = demo_user"
  by (simp_all add: demo_ctrl_world_def empty_world_def fresh_def table_ok_def)

theorem ctrl_open_close_roundtrip_witness:
  "\<exists>pd s'. bafs_ctrl_open demo_kernel 77 (Some 7) demo_ctrl_world = Some (0, pd, s') \<and>
     yields (bafs_ctrl_file_release pd s') (\<lambda>(ret, pd', s''). ret = 0 \<and> pd' = PNull \<and> restored demo_ctrl_world s'')"
proof -
  have "\<exists>pd s'. bafs_ctrl_open demo_kernel 77 (Some 7) demo_ctrl_world = Some (0, pd, s')"
    by (simp add: bafs_ctrl_open_def bafs_get_ctrl_live ctx_defs prim_defs Let_def demo_kernel_def)
  with ctrl_open_close_roundtrip [where s = demo_ctrl_world and c = 7 and K = demo_kernel and t = 77]
  show ?thesis by simp blast
qed

section \<open>The ioctl of a controller\<close>

lemma ctrl_codes [simp]:
  "IOC_TYPE BAFS_CTRL_IOC_REG_MEM = BAFS_CTRL_IOCTL" "IOC_TYPE BAFS_CTRL_IOC_DMA_MAP_MEM = BAFS_CTRL_IOCTL"
  "BAFS_CTRL_IOC_REG_MEM \<noteq> BAFS_CTRL_IOC_DMA_MAP_MEM" "BAFS_CTRL_IOC_DMA_MAP_MEM \<noteq> BAFS_CTRL_IOC_REG_MEM"
  by (simp_all add: IOC_TYPE_def IOWR_def BAFS_CTRL_IOC_REG_MEM_def BAFS_CTRL_IOC_DMA_MAP_MEM_def BAFS_CTRL_IOCTL_def)

lemma bafs_ctrl_ioctl_eq:
  assumes "ctrls s c \<noteq> None" and "0 < krefs s (KCtrl c)"
    and s1: "s1 = s\<lparr>krefs := (krefs s)(KCtrl c := Suc (krefs s (KCtrl c)))\<rparr>"
  shows "bafs_ctrl_ioctl K (PCtrl c ctx) cmd argp s =
    (if cmd = BAFS_CTRL_IOC_REG_MEM then do {
       (ret, s) \<leftarrow> bafs_core_reg_mem K argp ctx s1;
       if ret < 0 then Some (ret, s) else do { s \<leftarrow> bafs_ctrl_release c s; Some (0, s) }
     }
     else if cmd = BAFS_CTRL_IOC_DMA_MAP_MEM then do {
       (ret, s) \<leftarrow> bafs_ctrl_dma_map_ioctl K c ctx argp s1;
       s \<leftarrow> bafs_ctrl_release c s;
       Some (if ret < 0 then ret else 0, s)
     }
     else Some (- EINVAL, s))"
  using assms by (simp add: bafs_ctrl_ioctl_def bafs_get_ctrl_live bafs_ctrl_release_shared fun_upd_idem)

text \<open>Reading back an array of words: the element at index \<open>j\<close> lies 8 \<open>j\<close> bytes after its start.\<close>

lemma word_offset_inj:
  assumes "i < 2 ^ 61" and "j < 2 ^ 61" and "8 * of_nat i = (8 * of_nat j :: u64)"
  shows "i = j"
proof -
  have "unat (8 * of_nat k :: u64) = 8 * k" if "k < 2 ^ 61" for k
    using that unat_of_nat_small [where 'a = 64, of "8 * k"] by simp
  with assms show ?thesis by (metis mult_cancel1 numeral_neq_zero)
qed

lemma put_longs_other:
  assumes "length vs \<le> 2 ^ 61" and "\<And>j. j < length vs \<Longrightarrow> b \<noteq> a + 8 * of_nat j"
  shows "put_longs a vs f b = f b"
  using assms
proof (induction vs arbitrary: a f)
  case (Cons v vs)
  have "b \<noteq> (a + 8) + 8 * of_nat j" if "j < length vs" for j
    using Cons.prems(2) [of "Suc j"] that by (simp add: algebra_simps)
  then have "put_longs (a + 8) vs (f(a := v)) b = (f(a := v)) b"
    using Cons.prems(1) by (intro Cons.IH) simp_all
  moreover have "b \<noteq> a" using Cons.prems(2) [of 0] by simp
  ultimately show ?case by simp
qed simp

lemma put_longs_read:
  assumes "length vs \<le> 2 ^ 61" and "j < length vs"
  shows "put_longs a vs f (a + 8 * of_nat j) = vs ! j"
  using assms
proof (induction vs arbitrary: a f j)
  case (Cons v vs)
  show ?case
  proof (cases j)
    case 0
    have "a \<noteq> (a + 8) + 8 * of_nat i" if "i < length vs" for i
    proof
      assume "a = (a + 8) + 8 * of_nat i"
      then have "8 * of_nat (Suc i) = (8 * of_nat 0 :: u64)" by (simp add: algebra_simps)
      with word_offset_inj [of "Suc i" 0] that Cons.prems(1) show False by simp
    qed
    then show ?thesis
      using put_longs_other [of vs a "a + 8" "f(a := v)"] Cons.prems(1) 0 by simp
  next
    case (Suc i)
    have "put_longs (a + 8) vs (f(a := v)) ((a + 8) + 8 * of_nat i) = vs ! i"
      using Cons.prems Suc by (intro Cons.IH) simp_all
    with Suc show ?thesis by (simp add: algebra_simps)
  qed
qed simp

lemma dma_ready_now: "dma_ready (s\<lparr>now := n\<rparr>) c ctx va m x cc = dma_ready s c ctx va m x cc"
  by (simp add: dma_ready_def mems_ok_def first_hit_def)

lemma dma_ready_get_ctrl:
  "dma_ready s c ctx va m x cc \<Longrightarrow>
     dma_ready (s\<lparr>krefs := (krefs s)(KCtrl e := Suc (krefs s (KCtrl e)))\<rparr>) c ctx va m x cc"
  unfolding dma_ready_def by (auto simp: mems_ok_def first_hit_def)

lemma fresh_now [simp]: "fresh (s\<lparr>now := n\<rparr>) = fresh s"
  by (simp add: fresh_def)

lemma fresh_get_ctrl:
  "fresh s \<Longrightarrow> ctrls s c \<noteq> None \<Longrightarrow> fresh (s\<lparr>krefs := (krefs s)(KCtrl c := Suc (krefs s (KCtrl c)))\<rparr>)"
  using freshD(4) [of s c] unfolding fresh_def by auto

lemma bafs_ctrl_dma_map_ioctl_cases:
  assumes "fresh s" and prm: "prm = u_dma (user s) argp" and "dma_ready s c ctx (dm_vaddr prm) m x cc" and "cpu_live b x"
  obtains (fail) ret t a k u where
      "bafs_ctrl_dma_map_ioctl K c ctx argp s = Some (ret, s\<lparr>now := t, next_addr := a,
         res := (res s)(Buf DmaAddrs := res s (Buf DmaAddrs) + k), user := u\<rparr>)" "ret < 0" "k \<le> (1 :: nat)"
    | (made) as t where "length as = unat (n_pages x)"
      "bafs_ctrl_dma_map_ioctl K c ctx argp s = Some (0, (dma_made c m x (pdev cc) as (dm_dma_addrs prm) s)\<lparr>now := t,
         user := (user s)\<lparr>u_long := put_longs (dm_dma_addrs prm) as (u_long (user s)),
           u_dma := (u_dma (user s))(argp := prm\<lparr>dm_n_dma_addrs := ucast (n_pages x)\<rparr>)\<rparr>\<rparr>)"
proof (cases "k_copy K (now s)")
  case False
  then have "bafs_ctrl_dma_map_ioctl K c ctx argp s = Some (- EFAULT, s\<lparr>now := Suc (now s), next_addr := next_addr s,
         res := (res s)(Buf DmaAddrs := res s (Buf DmaAddrs) + 0), user := user s\<rparr>)"
    by (simp add: bafs_ctrl_dma_map_ioctl_def ask_def)
  with fail show thesis by fastforce
next
  case True
  let ?s = "s\<lparr>now := Suc (now s)\<rparr>"
  have start: "bafs_ctrl_dma_map_ioctl K c ctx argp s = do {
      (ret, dma, n, s) \<leftarrow> bafs_ctrl_dma_map_mem K c ctx (dm_vaddr prm) (dm_n_dma_addrs prm) (dm_dma_addrs prm) 0 ?s;
      if ret < 0 then Some (ret, s)
      else do {
        let (ok, s) = ask (k_copy K) s;
        if \<not> ok then do { d \<leftarrow> dma; s \<leftarrow> bafs_ctrl_dma_unmap_mem K d s; Some (- EFAULT, s) }
        else Some (ret, s\<lparr>user := (user s)\<lparr>u_dma := (u_dma (user s))(argp := prm\<lparr>dm_n_dma_addrs := n\<rparr>)\<rparr>\<rparr>)
      }
    }"
  proof -
    have u: "u_dma (user ?s) argp = prm" by (simp add: prm)
    show ?thesis
      unfolding bafs_ctrl_dma_map_ioctl_def Let_def ask_def [of _ s] prod.case u using True by simp
  qed
  have pre: "fresh ?s" "dma_ready ?s c ctx (dm_vaddr prm) m x cc"
    using assms(1,3) by (simp_all add: dma_ready_now)
  show thesis
  proof (rule bafs_ctrl_dma_map_mem_cases [OF pre assms(4), of K "dm_n_dma_addrs prm" "dm_dma_addrs prm" 0])
    fix ret n t a and k :: nat
    assume "bafs_ctrl_dma_map_mem K c ctx (dm_vaddr prm) (dm_n_dma_addrs prm) (dm_dma_addrs prm) 0 ?s =
      Some (ret, None, n, ?s\<lparr>now := t, next_addr := a, res := (res ?s)(Buf DmaAddrs := res ?s (Buf DmaAddrs) + k)\<rparr>)"
      and r: "ret \<in> {- ENOMEM, - EFAULT}" "k \<le> 1"
    then have "bafs_ctrl_dma_map_ioctl K c ctx argp s = Some (ret, s\<lparr>now := t, next_addr := a,
        res := (res s)(Buf DmaAddrs := res s (Buf DmaAddrs) + k), user := user s\<rparr>)"
      unfolding start by auto
    then show thesis by (rule fail) (use r in auto)
  next
    fix as t
    assume as: "length as = unat (n_pages x)"
      and made': "bafs_ctrl_dma_map_mem K c ctx (dm_vaddr prm) (dm_n_dma_addrs prm) (dm_dma_addrs prm) 0 ?s =
      Some (0, Some (next_addr ?s), count_addrs 0 (dm_n_dma_addrs prm) (ucast (n_pages x)),
        (dma_made c m x (pdev cc) as (dm_dma_addrs prm) ?s)\<lparr>now := t\<rparr>)"
    show thesis
    proof (cases "k_copy K t")
      case True
      with made' have "bafs_ctrl_dma_map_ioctl K c ctx argp s = Some (0, (dma_made c m x (pdev cc) as (dm_dma_addrs prm) s)\<lparr>now := Suc t,
         user := (user s)\<lparr>u_long := put_longs (dm_dma_addrs prm) as (u_long (user s)),
           u_dma := (u_dma (user s))(argp := prm\<lparr>dm_n_dma_addrs := ucast (n_pages x)\<rparr>)\<rparr>\<rparr>)"
        unfolding start by (simp add: ask_def count_addrs_def dma_made_def Let_def)
      with as made show thesis by blast
    next
      case False
      let ?t = "(dma_made c m x (pdev cc) as (dm_dma_addrs prm) ?s)\<lparr>now := Suc t\<rparr>"
      have "bafs_ctrl_dma_unmap_mem K (next_addr ?s) ?t = Some (?s\<lparr>now := Suc t, next_addr := Suc (next_addr ?s), user := user ?t\<rparr>)"
        using dma_made_unmap [OF pre assms(4) as refl] .
      with made' False have "bafs_ctrl_dma_map_ioctl K c ctx argp s = Some (- EFAULT, s\<lparr>now := Suc t,
         next_addr := Suc (next_addr s), res := (res s)(Buf DmaAddrs := res s (Buf DmaAddrs) + 0), user := user ?t\<rparr>)"
        unfolding start by (simp add: ask_def)
      then show thesis by (rule fail) simp_all
    qed
  qed
qed

text \<open>
  C29. The DMA ioctl of a controller on a live CPU memory: when it returns 0 the user's
  parameter block holds the number of pages, the user's array holds the bus address of
  every page in order, and one mapping, which holds a reference on the memory and one on the
  controller, is linked into the memory; when it fails, also after the mapping was made
  (the parameter block cannot be written), the mapping is removed, and the world is as
  before but for user memory and at most one leaked address array.
\<close>

theorem ctrl_dma_ioctl_spec:
  assumes fresh: "fresh s" and prm: "prm = u_dma (user s) argp"
    and ready: "dma_ready s c ctx (dm_vaddr prm) m x cc" and live: "cpu_live b x"
  shows "yields (bafs_ctrl_ioctl K (PCtrl c ctx) BAFS_CTRL_IOC_DMA_MAP_MEM argp s) (\<lambda>(ret, s').
    if ret = 0 then
      u_dma (user s') argp = prm\<lparr>dm_n_dma_addrs := ucast (n_pages x)\<rparr> \<and>
      mems s' = (mems s)(m \<mapsto> x\<lparr>dma_list := next_addr s # dma_list x\<rparr>) \<and>
      krefs s' = (krefs s)(KMem m := Suc (krefs s (KMem m)), KCtrl c := Suc (krefs s (KCtrl c))) \<and>
      (\<exists>as. length as = unat (n_pages x) \<and> dmas s' = (dmas s)(next_addr s \<mapsto> dma_new c m x as) \<and>
        (\<forall>r. res s' r = res s r + dma_owns (pdev cc) (dma_new c m x as) r) \<and>
        (\<forall>j < length as. u_long (user s') (dm_dma_addrs prm + 8 * of_nat j) = as ! j))
    else \<exists>k \<le> 1. restored (s\<lparr>res := (res s)(Buf DmaAddrs := res s (Buf DmaAddrs) + k)\<rparr>) (s'\<lparr>user := user s\<rparr>))"
proof -
  have f: "ctrls s c \<noteq> None" "0 < krefs s (KCtrl c)" using ready by (simp_all add: dma_ready_def)
  let ?s = "s\<lparr>krefs := (krefs s)(KCtrl c := Suc (krefs s (KCtrl c)))\<rparr>"
  have len: "length as \<le> 2 ^ 61" if "length as = unat (n_pages x)" for as :: "u64 list"
    using that live page_count_le by (fastforce simp: cpu_live_def mem_geom_def)
  note start = bafs_ctrl_ioctl_eq [OF f refl, of K ctx BAFS_CTRL_IOC_DMA_MAP_MEM argp]
  have "fresh ?s" "prm = u_dma (user ?s) argp" "dma_ready ?s c ctx (dm_vaddr prm) m x cc"
    using fresh f(1) prm ready by (simp_all add: fresh_get_ctrl dma_ready_get_ctrl)
  then show ?thesis
  proof (rule bafs_ctrl_dma_map_ioctl_cases [OF _ _ _ live, of ?s prm argp c ctx m cc K])
    fix ret t a u and k :: nat
    assume "bafs_ctrl_dma_map_ioctl K c ctx argp ?s = Some (ret, ?s\<lparr>now := t, next_addr := a,
         res := (res ?s)(Buf DmaAddrs := res ?s (Buf DmaAddrs) + k), user := u\<rparr>)" and r: "ret < 0" "k \<le> 1"
    then have "bafs_ctrl_ioctl K (PCtrl c ctx) BAFS_CTRL_IOC_DMA_MAP_MEM argp s = Some (ret, s\<lparr>now := t, next_addr := a,
         res := (res s)(Buf DmaAddrs := res s (Buf DmaAddrs) + k), user := u\<rparr>)"
      unfolding start using f by (simp add: bafs_ctrl_release_shared fun_upd_idem)
    with r show ?thesis by (auto simp: restored_def intro: exI [of _ k])
  next
    fix as t
    assume as: "length as = unat (n_pages x)" and made: "bafs_ctrl_dma_map_ioctl K c ctx argp ?s =
      Some (0, (dma_made c m x (pdev cc) as (dm_dma_addrs prm) ?s)\<lparr>now := t,
         user := (user ?s)\<lparr>u_long := put_longs (dm_dma_addrs prm) as (u_long (user ?s)),
           u_dma := (u_dma (user ?s))(argp := prm\<lparr>dm_n_dma_addrs := ucast (n_pages x)\<rparr>)\<rparr>\<rparr>)"
    have "put_longs (dm_dma_addrs prm) as (u_long (user s)) (dm_dma_addrs prm + 8 * of_nat j) = as ! j" if "j < length as" for j
      using put_longs_read [OF len [OF as] that] .
    with made f as show ?thesis
      unfolding start by (auto simp: bafs_ctrl_release_shared dma_made_def Let_def fun_upd_twist intro!: exI [of _ as])
  qed
qed

theorem ctrl_dma_ioctl_spec_witness:
  "yields (bafs_ctrl_ioctl demo_kernel (PCtrl 7 1) BAFS_CTRL_IOC_DMA_MAP_MEM 0 demo_dma_world) (\<lambda>(ret, s').
     ret = 0 \<longrightarrow> mems s' = [2 \<mapsto> demo_mem\<lparr>dma_list := [8]\<rparr>] \<and> krefs s' (KCtrl 7) = 2)"
proof -
  have u: "next_addr demo_dma_world = 8" "mems demo_dma_world = [2 \<mapsto> demo_mem]" "krefs demo_dma_world (KCtrl 7) = 1"
    "dm_vaddr (u_dma (user demo_dma_world) 0) = 0x10000"
    by (simp_all add: demo_dma_world_def demo_live_world_def demo_user_def)
  have "dma_ready demo_dma_world 7 1 (dm_vaddr (u_dma (user demo_dma_world) 0)) 2 demo_mem \<lparr>pdev = 5, ctrl_minor = 1, ctrl_id = 0\<rparr>"
    unfolding u(4) by (rule demo_dma_world_ok)
  from ctrl_dma_ioctl_spec [OF demo_dma_world_ok(1) refl this demo_live(1), of demo_kernel] show ?thesis
    by (rule yields_mono) (auto simp: u)
qed

text \<open>
  Registering a memory through a controller file: on success the controller has as many
  references as before; on every failure of the registration the reference that the ioctl
  took on the controller is never given back, so the controller cannot be released any
  more.
\<close>

theorem ctrl_reg_mem_failure_leaks:
  assumes "fresh s" and "xa_index_ok K" and ctx: "ctxs s ctx = Some cx" "0 < krefs s (KCtx ctx)" "CtxLock ctx \<notin> held s"
    and f: "ctrls s c \<noteq> None" "0 < krefs s (KCtrl c)"
  shows "yields (bafs_ctrl_ioctl K (PCtrl c ctx) BAFS_CTRL_IOC_REG_MEM argp s) (\<lambda>(ret, s').
    if ret = 0 then krefs s' (KCtrl c) = krefs s (KCtrl c) \<and> mems s' (next_addr s) \<noteq> None
    else ret < 0 \<and> krefs s' = (krefs s)(KCtrl c := Suc (krefs s (KCtrl c))) \<and> restored s (s'\<lparr>krefs := krefs s\<rparr>))"
proof -
  let ?s = "s\<lparr>krefs := (krefs s)(KCtrl c := Suc (krefs s (KCtrl c)))\<rparr>"
  have pre: "fresh ?s" "ctxs ?s ctx = Some cx" "0 < krefs ?s (KCtx ctx)" "CtxLock ctx \<notin> held ?s"
    using assms by (simp_all add: fresh_get_ctrl)
  note reg = bafs_core_reg_mem_eq [OF pre(1) assms(2) pre(2-4) refl refl, of argp]
  have "next_addr s \<noteq> c" using assms(1) f(1) freshD(4) [of s c] by auto
  then show ?thesis
    unfolding bafs_ctrl_ioctl_eq [OF f refl] reg using f assms(1)
    by (simp add: bafs_ctrl_release_shared registered_def Let_def restored_def)
qed

theorem ctrl_reg_mem_failure_leaks_witness:
  "yields (bafs_ctrl_ioctl (demo_kernel\<lparr>k_copy := \<lambda>_. False\<rparr>) (PCtrl 7 1) BAFS_CTRL_IOC_REG_MEM 0 demo_dma_world)
     (\<lambda>(ret, s'). ret \<noteq> 0 \<longrightarrow> krefs s' (KCtrl 7) = 2)"
proof -
  have w: "ctxs demo_dma_world 1 = Some \<lparr>bafs_mem_xa = [0 \<mapsto> 2], mem_list = [2], ctx_tgid = 77\<rparr>"
    "0 < krefs demo_dma_world (KCtx 1)" "CtxLock 1 \<notin> held demo_dma_world" "ctrls demo_dma_world 7 \<noteq> None"
    "0 < krefs demo_dma_world (KCtrl 7)"
    by (simp_all add: demo_dma_world_def)
  have "xa_index_ok (demo_kernel\<lparr>k_copy := \<lambda>_. False\<rparr>)" using demo_kernel_ok(1) unfolding xa_index_ok_def by simp blast
  from ctrl_reg_mem_failure_leaks [OF demo_dma_world_ok(1) this w, of 0] show ?thesis
    by (rule yields_mono) (auto simp: demo_dma_world_def)
qed

section \<open>Mapping the registers of a controller\<close>

text \<open>
  C30. Mapping a controller file at page offset 0 maps the whole of BAR 0, uncached, at the
  start of the mapping; the page frame number that is passed is the bus address of the BAR
  itself. A failure changes no reference; a success keeps one reference on the controller
  that no operation gives back.
\<close>

theorem ctrl_file_mmap_spec:
  assumes "ret_ok K" and "ctrls s c = Some cc" and "0 < krefs s (KCtrl c)" and "vmas s v = Some vma" and "vm_pgoff vma = 0"
  shows "yields (bafs_ctrl_file_mmap K (PCtrl c ctx) v s) (\<lambda>(ret, s').
    vmas s' = (vmas s)(v \<mapsto> vma\<lparr>vm_noncached := True\<rparr>) \<and>
    (if ret = 0 then krefs s' = (krefs s)(KCtrl c := Suc (krefs s (KCtrl c))) \<and>
        remaps s' = remaps s @ [\<lparr>rmp_vaddr = vm_start vma, rmp_pfn = k_bar_start K (pdev cc), rmp_len = k_bar_len K (pdev cc)\<rparr>]
     else ret < 0 \<and> krefs s' = krefs s \<and> remaps s' = remaps s))"
proof -
  have "k_ret K IoRemapPfnRange (now s) \<le> 0" using assms(1) by (simp add: ret_ok_def)
  with assms(2-5) show ?thesis
    by (auto simp: bafs_ctrl_file_mmap_def bafs_ctrl_mmap_def bafs_get_ctrl_live upd_vma_def io_remap_pfn_range_def ask_def
        bafs_ctrl_release_shared Let_def)
qed

theorem ctrl_file_mmap_spec_witness:
  "yields (bafs_ctrl_file_mmap demo_kernel (PCtrl 7 1) 0 (demo_ctrl_world\<lparr>vmas := [0 \<mapsto> demo_vma\<lparr>vm_pgoff := 0\<rparr>]\<rparr>)) (\<lambda>(ret, s').
     ret = 0 \<longrightarrow> krefs s' (KCtrl 7) = 2 \<and>
       remaps s' = [\<lparr>rmp_vaddr = 0x10000, rmp_pfn = 0xf0000000, rmp_len = 0x4000\<rparr>])"
proof -
  let ?s = "demo_ctrl_world\<lparr>vmas := [0 \<mapsto> demo_vma\<lparr>vm_pgoff := 0\<rparr>]\<rparr>"
  have w: "ctrls ?s 7 = Some \<lparr>pdev = 5, ctrl_minor = 1, ctrl_id = 0\<rparr>" "0 < krefs ?s (KCtrl 7)"
    "vmas ?s 0 = Some (demo_vma\<lparr>vm_pgoff := 0\<rparr>)" "vm_pgoff (demo_vma\<lparr>vm_pgoff := 0\<rparr>) = 0"
    by simp_all
  from ctrl_file_mmap_spec [OF demo_kernel_ok(3) w, of 1] show ?thesis
    by (rule yields_mono) (auto simp: demo_vma_def demo_kernel_def split: if_splits)
qed

end
