(* ===== verification/Bafs_Group.thy ===== *)
theory Bafs_Group
  imports Bafs_Ctrl
begin

text \<open>
  Groups of controllers, \<^verbatim>\<open>module/bafs/group.c\<close>: construction and release, the DMA mapping of
  one memory for every member, and the file operations of a group device.
\<close>

section \<open>Reference counting and release\<close>

definition bafs_get_group :: "addr \<Rightarrow> world \<Rightarrow> world option" where
  "bafs_get_group g s = do { x \<leftarrow> groups s g; kref_get (KGroup g) s }"

definition group_ida_get :: "kernel \<Rightarrow> world \<Rightarrow> int \<times> world" where
  "group_ida_get K s =
     (let (r, s') = ask (\<lambda>n. k_ida K n (group_ida s)) s in
      (r, if 0 \<le> r then s'\<lparr>group_ida := insert (nat r) (group_ida s)\<rparr> else s'))"

definition group_ida_remove :: "int \<Rightarrow> world \<Rightarrow> world option" where
  "group_ida_remove i s =
     (if 0 \<le> i \<and> nat i \<in> group_ida s
      then Some (s\<lparr>group_ida := group_ida s - {nat i}\<rparr>) else None)"

fun release_ctrls :: "addr list \<Rightarrow> world \<Rightarrow> world option" where
  "release_ctrls [] s = Some s"
| "release_ctrls (c # cs) s = do { s \<leftarrow> bafs_ctrl_release c s; release_ctrls cs s }"

definition bafs_group_release_kref :: "addr \<Rightarrow> world \<Rightarrow> world option" where
  "bafs_group_release_kref g s = do {
     x \<leftarrow> groups s g;
     s \<leftarrow> spin_lock (GroupLock g) s;
     s \<leftarrow> device_destroy (group_minor x) s;
     s \<leftarrow> release_ctrls (group_ctrls x) s;
     s \<leftarrow> release (Buf GroupCtrls) s;
     s \<leftarrow> release (DevRef CoreDev) s;
     s \<leftarrow> release (Cdev (group_minor x)) s;
     s \<leftarrow> group_ida_remove (group_id x) s;
     s \<leftarrow> bafs_put_minor_number (group_minor x) s;
     s \<leftarrow> spin_unlock (GroupLock g) s;
     kfree_group g s
   }"

definition bafs_put_group :: "addr \<Rightarrow> world \<Rightarrow> world option" where
  "bafs_put_group g s = do {
     x \<leftarrow> groups s g;
     kref_put (KGroup g) (bafs_group_release_kref g) s
   }"

section \<open>Construction\<close>

definition find_child :: "string \<Rightarrow> world \<Rightarrow> child option" where
  "find_child name s = List.find (\<lambda>ch. ch_name ch = name) (children s)"

text \<open>
  The first loop of \<open>bafs_group_alloc\<close>: the devices found so far (whose references the
  cleanup gives back) and the error, if any. A device of another class is an error after
  its reference was taken and before it is counted.
\<close>

fun find_ctrl_devices :: "string list \<Rightarrow> child list \<Rightarrow> world \<Rightarrow> int \<times> child list \<times> world" where
  "find_ctrl_devices [] devs s = (0, devs, s)"
| "find_ctrl_devices (name # names) devs s =
     (case find_child name s of
        None \<Rightarrow> (- EINVAL, devs, s)
      | Some ch \<Rightarrow>
          let s = acquire (DevRef (ChildDev (ch_minor ch))) s in
          if take (length BAFS_CTRL_CLASS_NAME) (ch_class ch) \<noteq> BAFS_CTRL_CLASS_NAME
          then (- EINVAL, devs, s)
          else find_ctrl_devices names (devs @ [ch]) s)"

fun put_devices :: "child list \<Rightarrow> world \<Rightarrow> world option" where
  "put_devices [] s = Some s"
| "put_devices (ch # chs) s = do {
     s \<leftarrow> release (DevRef (ChildDev (ch_minor ch))) s;
     put_devices chs s
   }"

text \<open>The second loop: the controllers of the devices, each with a new reference.\<close>

fun get_ctrls :: "child list \<Rightarrow> addr list \<Rightarrow> world \<Rightarrow> (int \<times> addr list \<times> world) option" where
  "get_ctrls [] cs s = Some (0, cs, s)"
| "get_ctrls (ch # chs) cs s =
     (case ch_data ch of
        None \<Rightarrow> Some (- EFAULT, cs, s)
      | Some (DrvCtrl c) \<Rightarrow> do { s \<leftarrow> bafs_get_ctrl c s; get_ctrls chs (cs @ [c]) s }
      | Some (DrvGroup g) \<Rightarrow> None)"

text \<open>The labels of \<open>bafs_group_alloc\<close>, each falling through to the next.\<close>

definition group_out_put_devices :: "addr \<Rightarrow> child list \<Rightarrow> world \<Rightarrow> world option" where
  "group_out_put_devices g devs s = do {
     s \<leftarrow> put_devices (rev devs) s;
     s \<leftarrow> release (DevRef CoreDev) s;
     s \<leftarrow> release (Buf DevPtrs) s;
     kfree_group g s
   }"

definition group_out_free_ctrls :: "addr \<Rightarrow> child list \<Rightarrow> addr list \<Rightarrow> world \<Rightarrow> world option" where
  "group_out_free_ctrls g devs cs s = do {
     s \<leftarrow> release_ctrls (rev cs) s;
     s \<leftarrow> release (Buf GroupCtrls) s;
     group_out_put_devices g devs s
   }"

definition group_out_id_put :: "addr \<Rightarrow> child list \<Rightarrow> addr list \<Rightarrow> int \<Rightarrow> world \<Rightarrow> world option" where
  "group_out_id_put g devs cs gid s = do {
     s \<leftarrow> group_ida_remove gid s;
     group_out_free_ctrls g devs cs s
   }"

definition group_out_minor_put ::
    "addr \<Rightarrow> child list \<Rightarrow> addr list \<Rightarrow> int \<Rightarrow> int \<Rightarrow> world \<Rightarrow> world option" where
  "group_out_minor_put g devs cs gid minor s = do {
     s \<leftarrow> bafs_put_minor_number minor s;
     group_out_id_put g devs cs gid s
   }"

definition group_out_delete_cdev ::
    "addr \<Rightarrow> child list \<Rightarrow> addr list \<Rightarrow> int \<Rightarrow> int \<Rightarrow> world \<Rightarrow> world option" where
  "group_out_delete_cdev g devs cs gid minor s = do {
     s \<leftarrow> release (Cdev minor) s;
     group_out_minor_put g devs cs gid minor s
   }"

text \<open>\<open>bafs_group_alloc\<close>: the part after the controllers are known, then the whole.\<close>

definition group_alloc_device :: "kernel \<Rightarrow> addr \<Rightarrow> child list \<Rightarrow> addr list \<Rightarrow> world
    \<Rightarrow> (int \<times> addr option \<times> world) option" where
  "group_alloc_device K g devs cs s = do {
     let (gid, s) = group_ida_get K s;
     if gid < 0 then fails gid (group_out_free_ctrls g devs cs s)
     else do {
       let (minor, s) = bafs_get_minor_number K s;
       if minor < 0 then fails minor (group_out_id_put g devs cs gid s)
       else do {
         let s = s\<lparr>groups := (groups s)(g \<mapsto>
                   \<lparr>group_id = gid, group_minor = minor, group_ctrls = cs\<rparr>)\<rparr>;
         let (ret, s) = ask (k_ret K CdevAdd) s;
         if ret < 0 then fails ret (group_out_minor_put g devs cs gid minor s)
         else do {
           let s = acquire (Cdev minor) s;
           let (ret, s) = device_create K minor BAFS_GROUP_CLASS_NAME
                            (BAFS_GROUP_DEVICE_NAME gid) (Some (DrvGroup g)) s;
           if ret < 0 then fails ret (group_out_delete_cdev g devs cs gid minor s)
           else do {
             let s = kref_init (KGroup g) s;
             s \<leftarrow> put_devices devs s;
             s \<leftarrow> release (Buf DevPtrs) s;
             Some (0, Some g, s)
           }
         }
       }
     }
   }"

definition bafs_group_alloc :: "kernel \<Rightarrow> string list \<Rightarrow> world \<Rightarrow> (int \<times> addr option \<times> world) option" where
  "bafs_group_alloc K names s =
     (let (ok, s) = ask (k_alloc K) s in
      if \<not> ok then Some (- ENOMEM, None, s)
      else do {
        let g = next_addr s;
        let s = s\<lparr>next_addr := Suc g, groups := (groups s)(g \<mapsto>
                  \<lparr>group_id = 0, group_minor = 0, group_ctrls = []\<rparr>)\<rparr>;
        let (ok, s) = ask (k_alloc K) s;
        if \<not> ok then fails (- ENOMEM) (kfree_group g s)
        else do {
          let s = acquire (Buf DevPtrs) s;
          let s = acquire (DevRef CoreDev) s;
          let (ret, devs, s) = find_ctrl_devices names [] s;
          if ret \<noteq> 0 then fails ret (group_out_put_devices g devs s)
          else do {
            let (ok, s) = ask (k_alloc K) s;
            if \<not> ok then fails (- ENOMEM) (group_out_put_devices g devs s)
            else do {
              let s = acquire (Buf GroupCtrls) s;
              (ret, cs, s) \<leftarrow> get_ctrls devs [] s;
              if ret \<noteq> 0 then fails ret (group_out_free_ctrls g devs cs s)
              else group_alloc_device K g devs cs s
            }
          }
        }
      })"

section \<open>DMA mapping for every controller of a group\<close>

text \<open>
  The loop of \<open>bafs_group_dma_map_mem\<close>: result, mappings made so far, \<open>params.n_dma_addrs\<close>.
  Controller \<open>i\<close> writes its addresses \<open>i\<close> times \<open>n_dma_addrs_per_ctrl\<close> words after the start.
\<close>

fun group_map_loop :: "kernel \<Rightarrow> addr \<Rightarrow> u64 \<Rightarrow> u64 \<Rightarrow> addr list \<Rightarrow> nat \<Rightarrow> u64 \<Rightarrow> u32 \<Rightarrow> addr list \<Rightarrow> world
    \<Rightarrow> (int \<times> addr list \<times> u32 \<times> world) option" where
  "group_map_loop K ctx va dst [] i per n ds s = Some (0, ds, n, s)"
| "group_map_loop K ctx va dst (c # cs) i per n ds s = do {
     (ret, dma, n, s) \<leftarrow> bafs_ctrl_dma_map_mem K c ctx va n (dst + 8 * (per * of_nat i)) i s;
     if ret < 0 then Some (ret, ds, n, s)
     else do {
       d \<leftarrow> dma;
       group_map_loop K ctx va dst cs (Suc i) (if i = 0 then ucast n else per) n (ds @ [d]) s
     }
   }"

fun unmap_mems :: "kernel \<Rightarrow> addr list \<Rightarrow> world \<Rightarrow> world option" where
  "unmap_mems K [] s = Some s"
| "unmap_mems K (d # ds) s = do { s \<leftarrow> bafs_ctrl_dma_unmap_mem K d s; unmap_mems K ds s }"

definition group_out_unmap_mems :: "kernel \<Rightarrow> addr \<Rightarrow> addr list \<Rightarrow> int \<Rightarrow> world \<Rightarrow> (int \<times> world) option" where
  "group_out_unmap_mems K g ds ret s = do {
     s \<leftarrow> unmap_mems K (rev ds) s;
     s \<leftarrow> release (Buf DmaPtrs) s;
     s \<leftarrow> spin_unlock (GroupLock g) s;
     Some (ret, s)
   }"

definition bafs_group_dma_map_mem :: "kernel \<Rightarrow> addr \<Rightarrow> addr \<Rightarrow> u64 \<Rightarrow> world \<Rightarrow> (int \<times> world) option" where
  "bafs_group_dma_map_mem K g ctx argp s = do {
     let (ok, s) = ask (k_copy K) s;
     if \<not> ok then Some (- EFAULT, s)
     else do {
       let params = u_dma (user s) argp;
       x \<leftarrow> groups s g;
       s \<leftarrow> spin_lock (GroupLock g) s;
       let (ok, s) = ask (k_alloc K) s;
       if \<not> ok then do { s \<leftarrow> spin_unlock (GroupLock g) s; Some (- ENOMEM, s) }
       else do {
         let s = acquire (Buf DmaPtrs) s;
         (ret, ds, n, s) \<leftarrow> group_map_loop K ctx (dm_vaddr params) (dm_dma_addrs params)
                               (group_ctrls x) 0 0 (dm_n_dma_addrs params) [] s;
         if ret < 0 then group_out_unmap_mems K g ds ret s
         else do {
           let (ok, s) = ask (k_copy K) s;
           if \<not> ok then group_out_unmap_mems K g ds (- EFAULT) s
           else do {
             let s = s\<lparr>user := (user s)\<lparr>u_dma :=
                   (u_dma (user s))(argp := params\<lparr>dm_n_dma_addrs := n\<rparr>)\<rparr>\<rparr>;
             s \<leftarrow> spin_unlock (GroupLock g) s;
             Some (ret, s)
           }
         }
       }
     }
   }"

section \<open>File operations\<close>

definition bafs_group_ioctl :: "kernel \<Rightarrow> private_data \<Rightarrow> u32 \<Rightarrow> u64 \<Rightarrow> world \<Rightarrow> (int \<times> world) option" where
  "bafs_group_ioctl K pd cmd argp s =
     (case pd of
        PGroup g ctx \<Rightarrow> do {
          s \<leftarrow> bafs_get_group g s;
          if IOC_TYPE cmd \<noteq> BAFS_GROUP_IOCTL then do {
            s \<leftarrow> bafs_put_group g s;
            Some (- EINVAL, s)
          }
          else if cmd = BAFS_GROUP_IOC_REG_MEM then do {
            (ret, s) \<leftarrow> bafs_core_reg_mem K argp ctx s;
            if ret < 0 then Some (ret, s)
            else do { s \<leftarrow> bafs_put_group g s; Some (0, s) }
          }
          else if cmd = BAFS_GROUP_IOC_DMA_MAP_MEM then do {
            (ret, s) \<leftarrow> bafs_group_dma_map_mem K g ctx argp s;
            s \<leftarrow> bafs_put_group g s;
            Some (if ret < 0 then ret else 0, s)
          }
          else do { s \<leftarrow> bafs_put_group g s; Some (- EINVAL, s) }
        }
      | PNull \<Rightarrow> Some (- EINVAL, s)
      | _ \<Rightarrow> None)"

definition bafs_group_open :: "kernel \<Rightarrow> nat \<Rightarrow> addr option \<Rightarrow> world \<Rightarrow> (int \<times> private_data \<times> world) option" where
  "bafs_group_open K t grp s =
     (case grp of
        None \<Rightarrow> Some (- EINVAL, PNull, s)
      | Some g \<Rightarrow> do {
          s \<leftarrow> bafs_get_group g s;
          let (ok, s) = ask (k_alloc K) s;
          if \<not> ok then do { s \<leftarrow> bafs_put_group g s; Some (- ENOMEM, PNull, s) }
          else do {
            let s = acquire (Buf FileCtx) s;
            (ctx, s) \<leftarrow> bafs_get_ctx K t s;
            case ctx of
              None \<Rightarrow> do {
                s \<leftarrow> release (Buf FileCtx) s;
                s \<leftarrow> bafs_put_group g s;
                Some (- EINVAL, PNull, s)
              }
            | Some cx \<Rightarrow> Some (0, PGroup g cx, s)
          }
        })"

definition bafs_group_release :: "private_data \<Rightarrow> world \<Rightarrow> (int \<times> private_data \<times> world) option" where
  "bafs_group_release pd s =
     (case pd of
        PGroup g ctx \<Rightarrow> do {
          s \<leftarrow> release_stale ctx s;
          s \<leftarrow> bafs_put_group g s;
          s \<leftarrow> release (Buf FileCtx) s;
          Some (0, PNull, s)
        }
      | PNull \<Rightarrow> Some (- EINVAL, PNull, s)
      | _ \<Rightarrow> None)"

fun group_mmap_loop :: "kernel \<Rightarrow> addr list \<Rightarrow> nat \<Rightarrow> u64 \<Rightarrow> u64 \<Rightarrow> u64 \<Rightarrow> world \<Rightarrow> (int \<times> world) option" where
  "group_mmap_loop K [] v start map_size cur s = Some (0, s)"
| "group_mmap_loop K (c # cs) v start map_size cur s = do {
     (ret, cur, s) \<leftarrow> bafs_ctrl_mmap K (Some c) v (start + map_size) cur s;
     if ret < 0 then Some (ret, s)
     else group_mmap_loop K cs v start (map_size + cur) cur s
   }"

definition bafs_group_mmap :: "kernel \<Rightarrow> private_data \<Rightarrow> nat \<Rightarrow> world \<Rightarrow> (int \<times> world) option" where
  "bafs_group_mmap K pd v s =
     (case pd of
        PGroup g ctx \<Rightarrow> do {
          vma \<leftarrow> vmas s v;
          if vm_pgoff vma = 0 then do {
            s \<leftarrow> bafs_get_group g s;
            x \<leftarrow> groups s g;
            s \<leftarrow> spin_lock (GroupLock g) s;
            (ret, s) \<leftarrow> group_mmap_loop K (group_ctrls x) v (vm_start vma) 0 0 s;
            s \<leftarrow> spin_unlock (GroupLock g) s;
            s \<leftarrow> bafs_put_group g s;
            Some (if ret < 0 then ret else 0, s)
          }
          else do {
            (ret, s) \<leftarrow> pin_bafs_mem K v ctx s;
            Some (if ret < 0 then ret else 0, s)
          }
        }
      | PNull \<Rightarrow> Some (- EINVAL, s)
      | _ \<Rightarrow> None)"

section \<open>The id pool and the reference count of groups\<close>

interpretation group_pool: id_pool group_ida_get group_ida_remove group_ida
  by unfold_locales
    (auto simp: group_ida_get_def group_ida_remove_def ask_def ida_ok_def split: if_splits)

definition group_count :: "addr \<Rightarrow> world \<Rightarrow> nat" where
  "group_count g s = (if groups s g = None then 0 else krefs s (KGroup g))"

lemma bafs_get_group_live:
  "groups s g \<noteq> None \<Longrightarrow> 0 < krefs s (KGroup g) \<Longrightarrow>
     bafs_get_group g s = Some (s\<lparr>krefs := (krefs s)(KGroup g := Suc (krefs s (KGroup g)))\<rparr>)"
  by (auto simp: bafs_get_group_def kref_get_def)

lemma bafs_put_group_shared:
  "groups s g \<noteq> None \<Longrightarrow> 1 < krefs s (KGroup g) \<Longrightarrow>
     bafs_put_group g s = Some (s\<lparr>krefs := (krefs s)(KGroup g := krefs s (KGroup g) - 1)\<rparr>)"
  by (cases "krefs s (KGroup g)") (auto simp: bafs_put_group_def kref_put_def)

interpretation group_ref: refcounted "bafs_get_group g" "bafs_put_group g" "group_count g" for g
proof
  fix s s'
  show "0 < group_count g s \<Longrightarrow> \<exists>s'. bafs_get_group g s = Some s' \<and> group_count g s' = Suc (group_count g s)"
    by (cases "groups s g") (simp_all add: group_count_def bafs_get_group_live)
  show "1 < group_count g s \<Longrightarrow> \<exists>s'. bafs_put_group g s = Some s' \<and> Suc (group_count g s') = group_count g s"
    by (cases "groups s g") (simp_all add: group_count_def bafs_put_group_shared)
  show "bafs_get_group g s = Some s' \<Longrightarrow> bafs_put_group g s' = Some s"
    by (auto simp: bafs_get_group_def kref_get_def bafs_put_group_shared elim!: bind_SomeE split: if_splits)
  show "group_count g s = 0 \<Longrightarrow> bafs_get_group g s = None \<and> bafs_put_group g s = None"
    by (auto simp: group_count_def bafs_get_group_def bafs_put_group_def kref_get_def kref_put_def split: if_splits)
qed

section \<open>References on devices and on controllers\<close>

definition dev_refs :: "child list \<Rightarrow> resource \<Rightarrow> nat" where
  "dev_refs chs r = length (filter (\<lambda>ch. DevRef (ChildDev (ch_minor ch)) = r) chs)"

definition ctrl_refs :: "addr list \<Rightarrow> kobj \<Rightarrow> nat" where
  "ctrl_refs cs k = length (filter (\<lambda>c. KCtrl c = k) cs)"

lemma dev_refs_simps [simp]:
  "dev_refs [] r = 0" "dev_refs (chs @ chs') r = dev_refs chs r + dev_refs chs' r" "dev_refs (rev chs) r = dev_refs chs r"
  by (simp_all add: dev_refs_def rev_filter [symmetric])

lemma dev_refs_Cons: "dev_refs (ch # chs) r = dev_refs chs r + (if r = DevRef (ChildDev (ch_minor ch)) then 1 else 0)"
  by (simp add: dev_refs_def)

lemma ctrl_refs_simps [simp]:
  "ctrl_refs [] k = 0" "ctrl_refs (cs @ cs') k = ctrl_refs cs k + ctrl_refs cs' k" "ctrl_refs (rev cs) k = ctrl_refs cs k"
  by (simp_all add: ctrl_refs_def rev_filter [symmetric])

lemma ctrl_refs_Cons: "ctrl_refs (c # cs) k = ctrl_refs cs k + (if k = KCtrl c then 1 else 0)"
  by (simp add: ctrl_refs_def)

lemma ctrl_refs_other [simp]: "ctrl_refs cs (KGroup g) = 0" "ctrl_refs cs (KMem m) = 0" "ctrl_refs cs (KCtx c) = 0"
  by (simp_all add: ctrl_refs_def)

lemma dev_refs_other [simp]: "dev_refs chs (Buf b) = 0" "dev_refs chs (Cdev i) = 0" "dev_refs chs (DevNode i) = 0"
  "dev_refs chs (DevRef CoreDev) = 0"
  by (simp_all add: dev_refs_def)

lemma put_devices_eq:
  assumes "\<And>r. dev_refs chs r \<le> res s r"
  shows "put_devices chs s = Some (s\<lparr>res := (\<lambda>r. res s r - dev_refs chs r)\<rparr>)"
  using assms
proof (induction chs arbitrary: s)
  case (Cons ch chs)
  let ?r = "DevRef (ChildDev (ch_minor ch))"
  let ?s = "s\<lparr>res := (res s)(?r := res s ?r - 1)\<rparr>"
  have "0 < res s ?r" using Cons.prems [of ?r] by (simp add: dev_refs_Cons)
  then have "put_devices (ch # chs) s = put_devices chs ?s" by (simp add: release_def)
  also have "\<dots> = Some (?s\<lparr>res := (\<lambda>r. res ?s r - dev_refs chs r)\<rparr>)"
  proof (rule Cons.IH)
    fix r show "dev_refs chs r \<le> res ?s r"
      using Cons.prems [of r] by (auto simp: dev_refs_Cons split: if_splits)
  qed
  also have "(\<lambda>r. res ?s r - dev_refs chs r) = (\<lambda>r. res s r - dev_refs (ch # chs) r)"
    by (auto simp: dev_refs_Cons)
  finally show ?case by simp
qed simp

lemma release_ctrls_eq:
  assumes "\<And>c. c \<in> set cs \<Longrightarrow> ctrls s c \<noteq> None \<and> ctrl_refs cs (KCtrl c) < krefs s (KCtrl c)"
  shows "release_ctrls cs s = Some (s\<lparr>krefs := (\<lambda>k. krefs s k - ctrl_refs cs k)\<rparr>)"
  using assms
proof (induction cs arbitrary: s)
  case (Cons c cs)
  let ?s = "s\<lparr>krefs := (krefs s)(KCtrl c := krefs s (KCtrl c) - 1)\<rparr>"
  have "ctrls s c \<noteq> None" "1 < krefs s (KCtrl c)"
    using Cons.prems [of c] by (auto simp: ctrl_refs_Cons)
  then have "release_ctrls (c # cs) s = release_ctrls cs ?s" by (simp add: bafs_ctrl_release_shared)
  also have "\<dots> = Some (?s\<lparr>krefs := (\<lambda>k. krefs ?s k - ctrl_refs cs k)\<rparr>)"
  proof (rule Cons.IH)
    fix e assume "e \<in> set cs"
    then show "ctrls ?s e \<noteq> None \<and> ctrl_refs cs (KCtrl e) < krefs ?s (KCtrl e)"
      using Cons.prems [of e] by (auto simp: ctrl_refs_Cons split: if_splits)
  qed
  also have "(\<lambda>k. krefs ?s k - ctrl_refs cs k) = (\<lambda>k. krefs s k - ctrl_refs (c # cs) k)"
    by (auto simp: ctrl_refs_Cons)
  finally show ?case by simp
qed simp

section \<open>Construction step by step\<close>

text \<open>
  The state between two steps of \<open>bafs_group_alloc\<close>, over the state \<open>s\<close> before it: the group
  object \<open>x\<close> at the next address, the references on the devices \<open>devs\<close>, the resources \<open>rs\<close>, the
  references on the controllers \<open>cs\<close>. Each primitive moves one stage to another.
\<close>

definition group_stage :: "nat \<Rightarrow> bafs_group \<Rightarrow> child list \<Rightarrow> resource list \<Rightarrow> addr list \<Rightarrow> world \<Rightarrow> world" where
  "group_stage n x devs rs cs s =
     s\<lparr>now := n, next_addr := Suc (next_addr s), groups := (groups s)(next_addr s \<mapsto> x),
       krefs := (\<lambda>k. krefs s k + ctrl_refs cs k),
       res := (\<lambda>r. res s r + dev_refs devs r + count_list rs r)\<rparr>"

lemma stage_simps [simp]:
  "groups (group_stage n x devs rs cs s) = (groups s)(next_addr s \<mapsto> x)"
  "children (group_stage n x devs rs cs s) = children s"
  "ctrls (group_stage n x devs rs cs s) = ctrls s"
  "find_child nm (group_stage n x devs rs cs s) = find_child nm s"
  by (simp_all add: group_stage_def find_child_def)

lemma stage_set_group:
  "groups t = groups s \<Longrightarrow> a = next_addr s \<Longrightarrow>
   (group_stage n x devs rs cs s)\<lparr>groups := (groups t)(a \<mapsto> y)\<rparr> = group_stage n y devs rs cs s"
  by (simp add: group_stage_def)

lemma stage_ask: "ask q (group_stage n x devs rs cs s) = (q n, group_stage (Suc n) x devs rs cs s)"
  by (simp add: group_stage_def ask_def)

lemma stage_acquire: "acquire r (group_stage n x devs rs cs s) = group_stage n x devs (r # rs) cs s"
  by (auto simp: group_stage_def acquire_def intro!: world.equality)

lemma stage_acquire_dev:
  "acquire (DevRef (ChildDev (ch_minor ch))) (group_stage n x devs rs cs s) = group_stage n x (devs @ [ch]) rs cs s"
  by (auto simp: group_stage_def acquire_def dev_refs_Cons intro!: world.equality)

lemma stage_release: "release r (group_stage n x devs (r # rs) cs s) = Some (group_stage n x devs rs cs s)"
  by (auto simp: group_stage_def release_def intro!: world.equality)

lemma stage_put_devices: "put_devices (rev devs) (group_stage n x devs rs cs s) = Some (group_stage n x [] rs cs s)"
proof -
  have "\<And>r. dev_refs (rev devs) r \<le> res (group_stage n x devs rs cs s) r" by (simp add: group_stage_def)
  from put_devices_eq [OF this] show ?thesis
    by (simp add: group_stage_def)
qed

definition ctrls_live :: "world \<Rightarrow> addr list \<Rightarrow> bool" where
  "ctrls_live s cs \<longleftrightarrow> (\<forall>c \<in> set cs. ctrls s c \<noteq> None \<and> 0 < krefs s (KCtrl c))"

lemma stage_get_ctrl:
  assumes "ctrls s c \<noteq> None" and "0 < krefs s (KCtrl c)"
  shows "bafs_get_ctrl c (group_stage n x devs rs cs s) = Some (group_stage n x devs rs (cs @ [c]) s)"
  using assms by (auto simp: group_stage_def bafs_get_ctrl_live ctrl_refs_Cons intro!: world.equality)

lemma stage_release_ctrls:
  assumes "ctrls_live s cs"
  shows "release_ctrls (rev cs) (group_stage n x devs rs cs s) = Some (group_stage n x devs rs [] s)"
proof -
  have "release_ctrls (rev cs) (group_stage n x devs rs cs s) =
    Some ((group_stage n x devs rs cs s)\<lparr>krefs := (\<lambda>k. krefs (group_stage n x devs rs cs s) k - ctrl_refs (rev cs) k)\<rparr>)"
    using assms by (intro release_ctrls_eq) (auto simp: ctrls_live_def group_stage_def)
  then show ?thesis by (simp add: group_stage_def)
qed

lemma stage_kfree:
  assumes "fresh s"
  shows "kfree_group (next_addr s) (group_stage n x [] [] [] s) = Some (s\<lparr>now := n, next_addr := Suc (next_addr s)\<rparr>)"
  using assms by (simp add: group_stage_def kfree_group_def freshD fun_upd_idem)

lemma stage_minor_get:
  "bafs_get_minor_number K (group_stage n x devs rs cs s) =
     (let r = k_ida K n (minor_ida s) in
      (r, group_stage (Suc n) x devs rs cs (if 0 \<le> r then s\<lparr>minor_ida := insert (nat r) (minor_ida s)\<rparr> else s)))"
  by (simp add: group_stage_def bafs_get_minor_number_def ask_def Let_def)

lemma stage_ida_get:
  "group_ida_get K (group_stage n x devs rs cs s) =
     (let r = k_ida K n (group_ida s) in
      (r, group_stage (Suc n) x devs rs cs (if 0 \<le> r then s\<lparr>group_ida := insert (nat r) (group_ida s)\<rparr> else s)))"
  by (simp add: group_stage_def group_ida_get_def ask_def Let_def)

lemma stage_minor_put:
  "0 \<le> i \<Longrightarrow> nat i \<in> minor_ida s \<Longrightarrow> bafs_put_minor_number i (group_stage n x devs rs cs s) =
     Some (group_stage n x devs rs cs (s\<lparr>minor_ida := minor_ida s - {nat i}\<rparr>))"
  by (simp add: group_stage_def bafs_put_minor_number_def)

lemma stage_ida_remove:
  "0 \<le> i \<Longrightarrow> nat i \<in> group_ida s \<Longrightarrow> group_ida_remove i (group_stage n x devs rs cs s) =
     Some (group_stage n x devs rs cs (s\<lparr>group_ida := group_ida s - {nat i}\<rparr>))"
  by (simp add: group_stage_def group_ida_remove_def)

lemmas stage_steps = stage_ask stage_acquire stage_acquire_dev stage_release stage_put_devices
  stage_release_ctrls stage_kfree

text \<open>The cleanup labels bring a stage back to the state before, whatever was reached.\<close>

lemma group_out_put_devices_eq:
  assumes "fresh s"
  shows "group_out_put_devices (next_addr s) devs (group_stage n x devs [DevRef CoreDev, Buf DevPtrs] [] s) =
    Some (s\<lparr>now := n, next_addr := Suc (next_addr s)\<rparr>)"
  using assms by (simp add: group_out_put_devices_def stage_steps)

lemma group_out_free_ctrls_eq:
  assumes "fresh s" and "ctrls_live s cs"
  shows "group_out_free_ctrls (next_addr s) devs cs
      (group_stage n x devs [Buf GroupCtrls, DevRef CoreDev, Buf DevPtrs] cs s) =
    Some (s\<lparr>now := n, next_addr := Suc (next_addr s)\<rparr>)"
  using assms by (simp add: group_out_free_ctrls_def stage_steps group_out_put_devices_eq)

lemma group_out_id_put_eq:
  assumes "fresh s" and "ctrls_live s cs" and "0 \<le> gid" and "nat gid \<notin> group_ida s"
  shows "group_out_id_put (next_addr s) devs cs gid
      (group_stage n x devs [Buf GroupCtrls, DevRef CoreDev, Buf DevPtrs] cs
        (s\<lparr>group_ida := insert (nat gid) (group_ida s)\<rparr>)) =
    Some (s\<lparr>now := n, next_addr := Suc (next_addr s)\<rparr>)"
  using assms by (simp add: group_out_id_put_def stage_ida_remove group_out_free_ctrls_eq)

lemma group_out_minor_put_eq:
  assumes "fresh s" and "ctrls_live s cs" and "0 \<le> gid" and "nat gid \<notin> group_ida s"
    and "0 \<le> mn" and "nat mn \<notin> minor_ida s"
  shows "group_out_minor_put (next_addr s) devs cs gid mn
      (group_stage n x devs [Buf GroupCtrls, DevRef CoreDev, Buf DevPtrs] cs
        (s\<lparr>group_ida := insert (nat gid) (group_ida s), minor_ida := insert (nat mn) (minor_ida s)\<rparr>)) =
    Some (s\<lparr>now := n, next_addr := Suc (next_addr s)\<rparr>)"
  using assms by (simp add: group_out_minor_put_def stage_minor_put group_out_id_put_eq)

text \<open>The finished group, over the state before \<open>bafs_group_alloc\<close>.\<close>

definition group_created :: "int \<Rightarrow> int \<Rightarrow> addr list \<Rightarrow> world \<Rightarrow> world" where
  "group_created gid mn cs s =
     (let g = next_addr s in
      s\<lparr>next_addr := Suc g, groups := (groups s)(g \<mapsto> \<lparr>group_id = gid, group_minor = mn, group_ctrls = cs\<rparr>),
        krefs := (\<lambda>k. krefs s k + ctrl_refs cs k)(KGroup g := 1),
        res := (\<lambda>r. res s r + count_list [DevNode mn, Cdev mn, Buf GroupCtrls, DevRef CoreDev] r),
        minor_ida := insert (nat mn) (minor_ida s), group_ida := insert (nat gid) (group_ida s),
        children := children s @ [\<lparr>ch_minor = mn, ch_name = BAFS_GROUP_DEVICE_NAME gid,
          ch_class = BAFS_GROUP_CLASS_NAME, ch_data = Some (DrvGroup g)\<rparr>]\<rparr>)"

lemma stage_finish:
  "put_devices devs (kref_init (KGroup g) (acquire q ((group_stage n x devs (rs @ [r]) cs s)\<lparr>children := chs\<rparr>)))
    \<bind> release r =
    Some ((group_stage n x [] (q # rs) cs s)\<lparr>children := chs, krefs := (\<lambda>k. krefs s k + ctrl_refs cs k)(KGroup g := 1)\<rparr>)"
proof -
  let ?s = "kref_init (KGroup g) (acquire q ((group_stage n x devs (rs @ [r]) cs s)\<lparr>children := chs\<rparr>))"
  have "dev_refs devs p \<le> res ?s p" for p by (simp add: kref_init_def acquire_def group_stage_def)
  from put_devices_eq [OF this] show ?thesis
    by (auto simp: kref_init_def acquire_def group_stage_def release_def fun_eq_iff intro!: world.equality)
qed

lemma group_created_stage:
  "(group_stage n \<lparr>group_id = gid, group_minor = mn, group_ctrls = cs\<rparr> [] [DevNode mn, Cdev mn, Buf GroupCtrls, DevRef CoreDev] cs
      (s\<lparr>group_ida := insert (nat gid) (group_ida s), minor_ida := insert (nat mn) (minor_ida s)\<rparr>))\<lparr>
      children := children s @ [\<lparr>ch_minor = mn, ch_name = BAFS_GROUP_DEVICE_NAME gid,
          ch_class = BAFS_GROUP_CLASS_NAME, ch_data = Some (DrvGroup (next_addr s))\<rparr>],
      krefs := (\<lambda>k. krefs s k + ctrl_refs cs k)(KGroup (next_addr s) := 1)\<rparr> =
   (group_created gid mn cs s)\<lparr>now := n\<rparr>"
  by (simp add: group_stage_def group_created_def Let_def)

lemma stage_device_create:
  "device_create K mn cls nm d (group_stage n x devs rs cs s) =
     (let ret = k_ret K DeviceCreate n in
      (ret, if ret < 0 then group_stage (Suc n) x devs rs cs s
            else acquire (DevNode mn) ((group_stage (Suc n) x devs rs cs s)\<lparr>children := children s @
              [\<lparr>ch_minor = mn, ch_name = nm, ch_class = cls, ch_data = d\<rparr>]\<rparr>)))"
  by (simp add: device_create_def stage_ask Let_def)

lemma group_alloc_device_cases:
  assumes "fresh s" and "ida_ok K" and "ctrls_live s cs"
  shows "yields (group_alloc_device K (next_addr s) devs cs
      (group_stage n x devs [Buf GroupCtrls, DevRef CoreDev, Buf DevPtrs] cs s)) (\<lambda>(ret, g, s').
    if ret < 0 then g = None \<and> restored s s'
    else ret = 0 \<and> g = Some (next_addr s) \<and> (\<exists>gid mn. 0 \<le> gid \<and> 0 \<le> mn \<and> nat gid \<notin> group_ida s \<and>
      nat mn \<notin> minor_ida s \<and> s' = (group_created gid mn cs s)\<lparr>now := now s'\<rparr>))"
proof -
  define gid where "gid = k_ida K n (group_ida s)"
  define mn where "mn = k_ida K (Suc n) (minor_ida s)"
  let ?g = "next_addr s" and ?x = "\<lparr>group_id = gid, group_minor = mn, group_ctrls = cs\<rparr>"
  let ?rs = "[Buf GroupCtrls, DevRef CoreDev, Buf DevPtrs]"
  let ?t = "s\<lparr>group_ida := insert (nat gid) (group_ida s), minor_ida := insert (nat mn) (minor_ida s)\<rparr>"
  have gid: "gid \<ge> 0 \<Longrightarrow> nat gid \<notin> group_ida s" and mn: "mn \<ge> 0 \<Longrightarrow> nat mn \<notin> minor_ida s"
    using assms(2) by (simp_all add: gid_def mn_def ida_notin)
  consider (a) "gid < 0" | (b) "0 \<le> gid" "mn < 0" | (c) "0 \<le> gid" "0 \<le> mn" "k_ret K CdevAdd (n + 2) < 0"
    | (d) "0 \<le> gid" "0 \<le> mn" "0 \<le> k_ret K CdevAdd (n + 2)" "k_ret K DeviceCreate (n + 3) < 0"
    | (e) "0 \<le> gid" "0 \<le> mn" "0 \<le> k_ret K CdevAdd (n + 2)" "0 \<le> k_ret K DeviceCreate (n + 3)"
    by linarith
  then show ?thesis
  proof cases
    case e
    have "group_alloc_device K ?g devs cs (group_stage n x devs ?rs cs s) =
        (put_devices devs (kref_init (KGroup ?g) (acquire (DevNode mn)
          ((group_stage (n + 4) ?x devs ([Cdev mn, Buf GroupCtrls, DevRef CoreDev] @ [Buf DevPtrs]) cs ?t)\<lparr>children :=
            children s @ [\<lparr>ch_minor = mn, ch_name = BAFS_GROUP_DEVICE_NAME gid,
              ch_class = BAFS_GROUP_CLASS_NAME, ch_data = Some (DrvGroup ?g)\<rparr>]\<rparr>))) \<bind> release (Buf DevPtrs))
        \<bind> (\<lambda>s. Some (0, Some ?g, s))"
      using e by (simp add: group_alloc_device_def stage_ida_get stage_minor_get Let_def stage_steps
        stage_set_group stage_device_create gid_def [symmetric] mn_def [symmetric] eval_nat_numeral)
    also have "\<dots> = Some (0, Some ?g, (group_created gid mn cs s)\<lparr>now := n + 4\<rparr>)"
      unfolding stage_finish by (simp add: group_created_stage [symmetric])
    finally have "group_alloc_device K ?g devs cs (group_stage n x devs ?rs cs s) =
        Some (0, Some ?g, (group_created gid mn cs s)\<lparr>now := n + 4\<rparr>)" .
    with e gid mn show ?thesis by auto
  qed (use assms gid mn in \<open>simp_all add: group_alloc_device_def stage_ida_get stage_minor_get Let_def stage_steps
      stage_set_group stage_device_create gid_def [symmetric] mn_def [symmetric] fails_def group_out_free_ctrls_eq
      group_out_id_put_eq group_out_minor_put_eq group_out_delete_cdev_def restored_def eval_nat_numeral\<close>)
qed

text \<open>
  The devices a list of names stands for. Every child device of the controller class
  carries its live controller as driver data, which \<open>bafs_ctrl_alloc\<close> establishes.
\<close>

definition ctrl_class :: "child \<Rightarrow> bool" where
  "ctrl_class ch \<longleftrightarrow> take (length BAFS_CTRL_CLASS_NAME) (ch_class ch) = BAFS_CTRL_CLASS_NAME"

definition ctrl_of :: "child \<Rightarrow> addr" where
  "ctrl_of ch = (case ch_data ch of Some (DrvCtrl c) \<Rightarrow> c | _ \<Rightarrow> 0)"

definition ctrl_children :: "world \<Rightarrow> bool" where
  "ctrl_children s \<longleftrightarrow> (\<forall>ch \<in> set (children s). ctrl_class ch \<longrightarrow>
     ch_data ch = Some (DrvCtrl (ctrl_of ch)) \<and> ctrls s (ctrl_of ch) \<noteq> None \<and> 0 < krefs s (KCtrl (ctrl_of ch)))"

definition names_ctrls :: "world \<Rightarrow> string list \<Rightarrow> bool" where
  "names_ctrls s names \<longleftrightarrow> (\<forall>nm \<in> set names. case find_child nm s of None \<Rightarrow> False | Some ch \<Rightarrow> ctrl_class ch)"

definition members :: "world \<Rightarrow> string list \<Rightarrow> addr list" where
  "members s names = map (\<lambda>nm. ctrl_of (the (find_child nm s))) names"

lemma find_child_in: "find_child nm s = Some ch \<Longrightarrow> ch \<in> set (children s) \<and> ch_name ch = nm"
  by (auto simp: find_child_def find_Some_iff)

lemma names_ctrls_Cons:
  "names_ctrls s (nm # names) \<longleftrightarrow> (\<exists>ch. find_child nm s = Some ch \<and> ctrl_class ch) \<and> names_ctrls s names"
  by (auto simp: names_ctrls_def split: option.splits)

lemma names_ctrls_live:
  assumes "ctrl_children s" and "names_ctrls s names" and "ch \<in> set (map (\<lambda>nm. the (find_child nm s)) names)"
  shows "ch_data ch = Some (DrvCtrl (ctrl_of ch)) \<and> ctrls s (ctrl_of ch) \<noteq> None \<and> 0 < krefs s (KCtrl (ctrl_of ch))"
proof -
  from assms(3) obtain nm where nm: "nm \<in> set names" "ch = the (find_child nm s)" by auto
  with assms(2) obtain "find_child nm s = Some ch" "ctrl_class ch"
    by (auto simp: names_ctrls_def split: option.splits)
  with assms(1) find_child_in show ?thesis unfolding ctrl_children_def by blast
qed

text \<open>The device whose reference the first loop takes and does not record.\<close>

fun odd_one :: "string list \<Rightarrow> world \<Rightarrow> child list" where
  "odd_one [] s = []"
| "odd_one (nm # names) s =
     (case find_child nm s of None \<Rightarrow> [] | Some ch \<Rightarrow> if ctrl_class ch then odd_one names s else [ch])"

definition with_refs :: "child list \<Rightarrow> world \<Rightarrow> world" where
  "with_refs chs s = s\<lparr>res := (\<lambda>r. res s r + dev_refs chs r)\<rparr>"

lemma with_refs_simps [simp]:
  "with_refs [] s = s" "fresh (with_refs chs s) = fresh s" "next_addr (with_refs chs s) = next_addr s"
  by (simp_all add: with_refs_def fresh_def dev_refs_def)

lemma odd_one_props:
  "length (odd_one names s) \<le> 1"
  "ch \<in> set (odd_one names s) \<Longrightarrow> ch \<in> set (children s) \<and> ch_name ch \<in> set names \<and> \<not> ctrl_class ch"
  "names_ctrls s names \<Longrightarrow> odd_one names s = []"
  by (induction names) (auto simp: names_ctrls_Cons dest: find_child_in find_child_in [OF sym] split: option.splits if_splits)

lemma odd_acquire:
  "acquire (DevRef (ChildDev (ch_minor ch))) (group_stage n x devs rs cs s) = group_stage n x devs rs cs (with_refs [ch] s)"
  by (auto simp: group_stage_def acquire_def with_refs_def dev_refs_Cons intro!: world.equality)

lemma find_ctrl_devices_stage:
  "\<exists>devs'. find_ctrl_devices names devs (group_stage n x devs rs cs s) =
     (if names_ctrls s names then 0 else - EINVAL, devs', group_stage n x devs' rs cs (with_refs (odd_one names s) s)) \<and>
   (names_ctrls s names \<longrightarrow> devs' = devs @ map (\<lambda>nm. the (find_child nm s)) names)"
proof (induction names arbitrary: devs)
  case Nil
  show ?case by (simp add: names_ctrls_def)
next
  case (Cons nm names)
  show ?case
  proof (cases "find_child nm s")
    case None
    then show ?thesis by (simp add: names_ctrls_Cons)
  next
    case (Some ch)
    show ?thesis
    proof (cases "ctrl_class ch")
      case True
      with Some Cons.IH [of "devs @ [ch]"] show ?thesis
        by (simp add: names_ctrls_Cons Let_def stage_acquire_dev ctrl_class_def)
    next
      case False
      with Some show ?thesis by (simp add: names_ctrls_Cons Let_def odd_acquire ctrl_class_def)
    qed
  qed
qed

lemma get_ctrls_stage:
  assumes "\<And>ch. ch \<in> set chs \<Longrightarrow> ch_data ch = Some (DrvCtrl (ctrl_of ch)) \<and> ctrls s (ctrl_of ch) \<noteq> None \<and> 0 < krefs s (KCtrl (ctrl_of ch))"
  shows "get_ctrls chs cs (group_stage n x devs rs cs s) =
    Some (0, cs @ map ctrl_of chs, group_stage n x devs rs (cs @ map ctrl_of chs) s)"
  using assms
proof (induction chs arbitrary: cs)
  case (Cons ch chs)
  from Cons.prems [of ch] have ch: "ch_data ch = Some (DrvCtrl (ctrl_of ch))"
    and live: "ctrls s (ctrl_of ch) \<noteq> None" "0 < krefs s (KCtrl (ctrl_of ch))" by simp_all
  show ?case
    using Cons.IH [of "cs @ [ctrl_of ch]"] Cons.prems by (simp add: ch stage_get_ctrl [OF live])
qed simp

section \<open>Group construction and release\<close>

lemma bafs_group_alloc_cases:
  assumes fresh: "fresh s" and ida: "ida_ok K" and chs: "ctrl_children s"
  shows "yields (bafs_group_alloc K names s) (\<lambda>(ret, g, s').
    if ret = 0 then names_ctrls s names \<and> g = Some (next_addr s) \<and> (\<exists>gid mn. 0 \<le> gid \<and> 0 \<le> mn \<and>
        nat gid \<notin> group_ida s \<and> nat mn \<notin> minor_ida s \<and>
        s' = (group_created gid mn (members s names) s)\<lparr>now := now s'\<rparr>)
    else ret < 0 \<and> g = None \<and> restored (if ret = - EINVAL then with_refs (odd_one names s) s else s) s')"
proof -
  let ?g = "next_addr s" and ?x = "\<lparr>group_id = 0, group_minor = 0, group_ctrls = []\<rparr>" and ?n = "now s"
  let ?rs = "[DevRef CoreDev, Buf DevPtrs]"
  obtain devs where find: "find_ctrl_devices names [] (group_stage (?n + 2) ?x [] ?rs [] s) =
      (if names_ctrls s names then 0 else - EINVAL, devs, group_stage (?n + 2) ?x devs ?rs [] (with_refs (odd_one names s) s))"
    and devs: "names_ctrls s names \<Longrightarrow> devs = map (\<lambda>nm. the (find_child nm s)) names"
    using find_ctrl_devices_stage [of names "[]" "?n + 2" ?x ?rs "[]" s] by auto
  have first: "s\<lparr>now := Suc ?n, next_addr := Suc ?g, groups := (groups s)(?g \<mapsto> ?x)\<rparr> = group_stage (Suc ?n) ?x [] [] [] s"
    by (simp add: group_stage_def)
  let ?rest = "if \<not> k_alloc K (?n + 2) then fails (- ENOMEM) (group_out_put_devices ?g devs (group_stage (?n + 3) ?x devs ?rs [] s))
     else do {
       (ret, cs, s) \<leftarrow> get_ctrls devs [] (group_stage (?n + 3) ?x devs (Buf GroupCtrls # ?rs) [] s);
       if ret \<noteq> 0 then fails ret (group_out_free_ctrls ?g devs cs s) else group_alloc_device K ?g devs cs s }"
  have eq: "bafs_group_alloc K names s =
    (if \<not> k_alloc K ?n then Some (- ENOMEM, None, s\<lparr>now := Suc ?n\<rparr>)
     else if \<not> k_alloc K (Suc ?n) then fails (- ENOMEM) (kfree_group ?g (group_stage (?n + 2) ?x [] [] [] s))
     else if \<not> names_ctrls s names then fails (- EINVAL) (group_out_put_devices ?g devs
       (group_stage (?n + 2) ?x devs ?rs [] (with_refs (odd_one names s) s)))
     else ?rest)"
    using find odd_one_props(3) [of s names]
    by (simp add: bafs_group_alloc_def ask_def [of _ s] Let_def first stage_steps eval_nat_numeral)
  show ?thesis
  proof (cases "k_alloc K ?n \<and> k_alloc K (Suc ?n) \<and> names_ctrls s names \<and> k_alloc K (?n + 2)")
    case False
    then show ?thesis
      using fresh group_out_put_devices_eq [of "with_refs (odd_one names s) s"] group_out_put_devices_eq [OF fresh]
      unfolding eq by (auto simp: fails_def stage_kfree restored_def)
  next
    case True
    have live: "ch_data ch = Some (DrvCtrl (ctrl_of ch)) \<and> ctrls s (ctrl_of ch) \<noteq> None \<and> 0 < krefs s (KCtrl (ctrl_of ch))"
      if "ch \<in> set devs" for ch
      using names_ctrls_live [OF chs, of names ch] that True devs by simp
    have cs: "map ctrl_of devs = members s names" using True devs by (simp add: members_def)
    have "ctrls_live s (members s names)" using live by (auto simp: ctrls_live_def cs [symmetric])
    from group_alloc_device_cases [OF fresh ida this] have
      "yields (bafs_group_alloc K names s) (\<lambda>(ret, g, s').
        if ret < 0 then g = None \<and> restored s s'
        else ret = 0 \<and> g = Some ?g \<and> (\<exists>gid mn. 0 \<le> gid \<and> 0 \<le> mn \<and> nat gid \<notin> group_ida s \<and>
          nat mn \<notin> minor_ida s \<and> s' = (group_created gid mn (members s names) s)\<lparr>now := now s'\<rparr>))"
      unfolding eq using True get_ctrls_stage [OF live] by (simp add: cs)
    then show ?thesis by (rule yields_mono) (use True odd_one_props(3) in \<open>auto split: if_splits\<close>)
  qed
qed

text \<open>Giving back the only reference of a group that was just made.\<close>

lemma release_ctrls_added:
  assumes "krefs t = (\<lambda>k. f k + ctrl_refs cs k)" and "\<forall>c \<in> set cs. ctrls t c \<noteq> None \<and> 0 < f (KCtrl c)"
  shows "release_ctrls cs t = Some (t\<lparr>krefs := f\<rparr>)"
  using release_ctrls_eq [of cs t] assms by simp

lemma group_created_put:
  assumes fresh: "fresh s" and chs: "children_ok s" and live: "ctrls_live s cs"
    and num: "0 \<le> gid" "nat gid \<notin> group_ida s" "0 \<le> mn" "nat mn \<notin> minor_ida s"
  shows "bafs_put_group (next_addr s) ((group_created gid mn cs s)\<lparr>now := n\<rparr>) =
    Some (s\<lparr>now := n, next_addr := Suc (next_addr s)\<rparr>)"
proof -
  have flt: "filter (\<lambda>ch. ch_minor ch \<noteq> mn) (children s) = children s"
    using chs num by (intro filter_True) (auto simp: children_ok_def)
  have k0: "(\<lambda>k. krefs s k + ctrl_refs cs k)(KGroup (next_addr s) := 0) = (\<lambda>k. krefs s k + ctrl_refs cs k)"
    using freshD [OF fresh order_refl] by (intro fun_upd_idem) simp
  show ?thesis
    using num live freshD [OF fresh order_refl]
    by (auto simp: group_created_def bafs_put_group_def bafs_group_release_kref_def prim_defs Let_def k0 flt
        device_destroy_def group_ida_remove_def bafs_put_minor_number_def release_ctrls_added [where f = "krefs s"]
        ctrls_live_def fun_upd_idem intro!: world.equality)
qed

text \<open>
  C31. \<open>bafs_group_alloc\<close> returns 0 only when every name is the name of a controller device; the
  group then has the controllers of these devices as members, in the order of the names,
  each with one more reference, one reference of its own, an unused id and minor number,
  and no reference on the devices is kept. Every failure undoes what was done, except that
  a name of a device of another class leaves the reference on that device behind.
\<close>

theorem bafs_group_alloc_spec:
  assumes "fresh s" and "ida_ok K" and "ctrl_children s"
  shows "yields (bafs_group_alloc K names s) (\<lambda>(ret, g, s').
    if ret = 0 then names_ctrls s names \<and> g = Some (next_addr s) \<and> (\<exists>gid mn. 0 \<le> gid \<and> 0 \<le> mn \<and>
        nat gid \<notin> group_ida s \<and> nat mn \<notin> minor_ida s \<and>
        s' = (group_created gid mn (members s names) s)\<lparr>now := now s'\<rparr>)
    else ret < 0 \<and> g = None \<and> restored (if ret = - EINVAL then with_refs (odd_one names s) s else s) s')"
  using assms by (rule bafs_group_alloc_cases)

text \<open>A world with the controller device \<open>bafsc0\<close>, and one that also has a group of it.\<close>

definition demo_group_world :: world where
  "demo_group_world = ctrl_created 5 0 0 (empty_world demo_user)"

lemma print_zero: "print_nat 0 = ''0''"
  by (simp add: print_nat.simps digit_def char_of_def bit_iff_odd)

lemma demo_group_world_ok:
  "fresh demo_group_world" "ctrl_children demo_group_world" "children_ok demo_group_world"
  "members demo_group_world [''bafsc0''] = [1]" "names_ctrls demo_group_world [''bafsc0'']"
  by (auto simp: demo_group_world_def ctrl_created_def empty_world_def Let_def fresh_def ctrl_children_def children_ok_def
      ctrl_of_def members_def names_ctrls_def find_child_def BAFS_CTRL_DEVICE_NAME_def ctrl_class_def print_zero)

lemma demo_group_alloc: "\<exists>s'. bafs_group_alloc demo_kernel [''bafsc0''] demo_group_world = Some (0, Some 2, s')"
  by (simp add: bafs_group_alloc_def group_alloc_device_def prim_defs Let_def device_create_def bafs_get_minor_number_def
      group_ida_get_def demo_kernel_def demo_group_world_def ctrl_created_def empty_world_def find_child_def bafs_get_ctrl_def
      BAFS_CTRL_DEVICE_NAME_def print_zero)

theorem bafs_group_alloc_spec_witness:
  "\<exists>s'. bafs_group_alloc demo_kernel [''bafsc0''] demo_group_world = Some (0, Some 2, s') \<and>
     krefs s' (KCtrl 1) = 2 \<and> group_ctrls (the (groups s' 2)) = [1]"
proof -
  obtain s' where s': "bafs_group_alloc demo_kernel [''bafsc0''] demo_group_world = Some (0, Some 2, s')"
    using demo_group_alloc by blast
  have base: "krefs demo_group_world (KCtrl 1) = 1" "next_addr demo_group_world = 2"
    by (simp_all add: demo_group_world_def ctrl_created_def empty_world_def)
  from bafs_group_alloc_spec [OF demo_group_world_ok(1) demo_kernel_ok(2) demo_group_world_ok(2), of "[''bafsc0'']"] s'
  obtain gid mn where "s' = (group_created gid mn [1] demo_group_world)\<lparr>now := now s'\<rparr>"
    by (auto simp: demo_group_world_ok)
  then have "krefs s' = krefs (group_created gid mn [1] demo_group_world)"
    "groups s' = groups (group_created gid mn [1] demo_group_world)"
    by (metis world.select_convs world.surjective world.update_convs)+
  with s' base show ?thesis by (simp add: group_created_def Let_def ctrl_refs_Cons)
qed

text \<open>
  Creating a group and giving its reference back leaves the world as it was: the
  references on the members, the id, the minor number, the device and the array of
  controllers are gone.
\<close>

theorem group_alloc_put_roundtrip:
  assumes fresh: "fresh s" and ida: "ida_ok K" and chs: "ctrl_children s" "children_ok s"
    and alloc: "bafs_group_alloc K names s = Some (0, Some g, s')"
  shows "yields (bafs_put_group g s') (\<lambda>s''. restored s s'')"
proof -
  obtain n where n: "now s' = n" by blast
  from bafs_group_alloc_cases [OF fresh ida chs(1), of names] alloc
  obtain gid mn where g: "g = next_addr s" "names_ctrls s names"
    and num: "0 \<le> gid" "nat gid \<notin> group_ida s" "0 \<le> mn" "nat mn \<notin> minor_ida s"
    and s': "s' = (group_created gid mn (members s names) s)\<lparr>now := n\<rparr>"
    by (auto simp: n)
  have "ctrls_live s (members s names)"
    using names_ctrls_live [OF chs(1) g(2)] by (auto simp: ctrls_live_def members_def)
  from group_created_put [OF fresh chs(2) this num] show ?thesis
    unfolding g(1) s' by (simp add: restored_def)
qed

theorem group_alloc_put_roundtrip_witness:
  "\<exists>s'. bafs_group_alloc demo_kernel [''bafsc0''] demo_group_world = Some (0, Some 2, s') \<and>
     yields (bafs_put_group 2 s') (\<lambda>s''. restored demo_group_world s'')"
  using demo_group_alloc group_alloc_put_roundtrip [OF demo_group_world_ok(1) demo_kernel_ok(2) demo_group_world_ok(2,3)]
  by blast

end
