(* ===== verification/Bafs_Group_Dma.thy ===== *)
theory Bafs_Group_Dma
  imports Bafs_Group
begin

text \<open>
  The DMA mapping of one memory for every controller of a group, \<open>bafs_group_dma_map_mem\<close> of
  \<^verbatim>\<open>module/bafs/group.c\<close>: the state after a number of mappings, the layout of the addresses
  in the user's array, and the removal of all mappings when one fails.
\<close>

section \<open>Several mappings of one memory\<close>

definition dma_step :: "addr \<Rightarrow> addr \<times> u64 list \<times> u64 \<Rightarrow> world \<Rightarrow> world" where
  "dma_step m = (\<lambda>(c, as, dst) s. dma_made c m (the (mems s m)) (pdev (the (ctrls s c))) as dst s)"

definition made :: "addr \<Rightarrow> (addr \<times> u64 list \<times> u64) list \<Rightarrow> world \<Rightarrow> world" where
  "made m L s = fold (dma_step m) L s"

lemma made_simps [simp]:
  "made m [] s = s"
  "made m ((c, as, dst) # L) s = made m L (dma_made c m (the (mems s m)) (pdev (the (ctrls s c))) as dst s)"
  by (simp_all add: made_def dma_step_def)

text \<open>The controllers with their addresses and the places in the user's array, from index \<open>i\<close> on.\<close>

fun slots :: "u64 \<Rightarrow> u64 \<Rightarrow> nat \<Rightarrow> addr list \<Rightarrow> u64 list list \<Rightarrow> (addr \<times> u64 list \<times> u64) list" where
  "slots dst np i (c # cs) (as # ass) = (c, as, dst + 8 * (np * of_nat i)) # slots dst np (Suc i) cs ass"
| "slots dst np i cs ass = []"

lemma dma_made_now: "dma_made c m x p as dst (s\<lparr>now := t\<rparr>) = (dma_made c m x p as dst s)\<lparr>now := t\<rparr>"
  by (simp add: dma_made_def Let_def)

lemma made_now: "made m L (s\<lparr>now := t\<rparr>) = (made m L s)\<lparr>now := t\<rparr>"
  by (induction L arbitrary: s) (auto simp: made_def dma_step_def dma_made_now)

lemma dma_made_next [simp]: "next_addr (dma_made c m x p as dst s) = Suc (next_addr s)"
  by (simp add: dma_made_def Let_def)

lemma cpu_live_list [simp]: "cpu_live b (x\<lparr>dma_list := l\<rparr>) = cpu_live b x"
  by (simp add: cpu_live_def mem_geom_def)

lemma dma_new_list [simp]: "dma_new c m (x\<lparr>dma_list := l\<rparr>) as = dma_new c m x as"
  by (simp add: dma_new_def)

lemma dma_owns_fresh [simp]:
  "dma_owns p y (Page a) = 0" "dma_owns p y (CudaPin a) = 0" "dma_owns p y (CudaTable a) = 0"
  "dma_owns p y (CudaDmaMap a) = 0" "dma_owns p y (CudaMapping a) = 0" "dma_owns p y (Buf DmaPtrs) = 0"
  by (simp_all add: dma_owns_def maps_of_def)

lemma fresh_made:
  assumes "fresh s" and "dma_ready s c ctx va m x cc"
  shows "fresh (dma_made c m x p as dst s)"
proof -
  have "m < next_addr s" "c < next_addr s"
    using assms freshD(2) [of s m] freshD(4) [of s c] by (force simp: dma_ready_def not_less [symmetric])+
  with assms(1) show ?thesis unfolding fresh_def dma_made_def Let_def by auto
qed

lemma ready_made:
  assumes "dma_ready s c ctx va m x cc" and "dma_ready s e ctx va m x ee"
  shows "dma_ready (dma_made c m x p as dst s) e ctx va m (x\<lparr>dma_list := next_addr s # dma_list x\<rparr>) ee"
proof -
  have hit: "hit va (the (((mems s)(m \<mapsto> x\<lparr>dma_list := l\<rparr>)) a)) = hit va (the (mems s a))" for a l
    using assms(1) by (auto simp: hit_def dma_ready_def)
  then have "first_hit (dma_made c m x p as dst s) va ms = first_hit s va ms" for ms
    by (simp add: first_hit_def dma_made_def Let_def)
  with assms show ?thesis
    unfolding dma_ready_def by (auto simp: mems_ok_def dma_made_def Let_def)
qed

text \<open>Every controller of the list can be given a mapping of the memory.\<close>

definition group_ready :: "world \<Rightarrow> addr list \<Rightarrow> addr \<Rightarrow> u64 \<Rightarrow> addr \<Rightarrow> bafs_mem \<Rightarrow> bool" where
  "group_ready s cs ctx va m x \<longleftrightarrow> (\<forall>c \<in> set cs. dma_ready s c ctx va m x (the (ctrls s c)))"

lemma group_ready_now: "group_ready (s\<lparr>now := t\<rparr>) cs ctx va m x = group_ready s cs ctx va m x"
  by (simp add: group_ready_def dma_ready_now)

lemma group_ready_ConsD:
  assumes "group_ready s (c # cs) ctx va m x"
  shows "dma_ready s c ctx va m x (the (ctrls s c))" "mems s m = Some x"
    "group_ready (dma_made c m x p as dst s) cs ctx va m (x\<lparr>dma_list := next_addr s # dma_list x\<rparr>)"
proof -
  show c: "dma_ready s c ctx va m x (the (ctrls s c))" using assms by (simp add: group_ready_def)
  then show "mems s m = Some x" by (simp add: dma_ready_def)
  have "ctrls (dma_made c m x p as dst s) = ctrls s" by (simp add: dma_made_def Let_def)
  with assms show "group_ready (dma_made c m x p as dst s) cs ctx va m (x\<lparr>dma_list := next_addr s # dma_list x\<rparr>)"
    by (auto simp: group_ready_def intro: ready_made [OF c])
qed

section \<open>The loop over the controllers\<close>

definition lens :: "bafs_mem \<Rightarrow> u64 list list \<Rightarrow> bool" where
  "lens x ass \<longleftrightarrow> (\<forall>as \<in> set ass. length as = unat (n_pages x))"

definition pages32 :: "bafs_mem \<Rightarrow> u32" where
  "pages32 x = ucast (n_pages x)"

lemma pages32_list [simp]: "pages32 (x\<lparr>dma_list := l\<rparr>) = pages32 x" "lens (x\<lparr>dma_list := l\<rparr>) ass = lens x ass"
  by (simp_all add: pages32_def lens_def)

definition total32 :: "nat \<Rightarrow> u32 \<Rightarrow> nat \<Rightarrow> u32 \<Rightarrow> u32" where
  "total32 i n k p = (if k = 0 then n else (if i = 0 then 0 else n) + of_nat k * p)"

text \<open>The two results of the loop: all controllers mapped, or some first ones and an error.\<close>

definition loop_done where
  "loop_done x m dst np i cs n ds s r \<longleftrightarrow> (\<exists>t ass. length ass = length cs \<and> lens x ass \<and>
     r = Some (0 :: int, ds @ [next_addr s..<next_addr s + length cs], total32 i n (length cs) (pages32 x),
       (made m (slots dst np i cs ass) s)\<lparr>now := t\<rparr>))"

definition loop_failed where
  "loop_failed x m dst np i cs ds s r \<longleftrightarrow> (\<exists>ret n' t a lk cs' ass.
     ret \<in> {- ENOMEM, - EFAULT} \<and> lk \<le> (1 :: nat) \<and> length ass = length cs' \<and> lens x ass \<and> (\<exists>cs2. cs = cs' @ cs2) \<and>
     r = Some (ret, ds @ [next_addr s..<next_addr s + length cs'], n' :: u32,
       (made m (slots dst np i cs' ass) s)\<lparr>now := t, next_addr := a,
          res := (\<lambda>r. res (made m (slots dst np i cs' ass) s) r + (if r = Buf DmaAddrs then lk else 0))\<rparr>))"

lemma upt_run: "a # [Suc a..<Suc (a + n)] = [a..<Suc (a + n)]"
  by (simp add: upt_conv_Cons del: upt_Suc)

lemma loop_done_Cons:
  assumes "s1 = (dma_made c m x (pdev (the (ctrls s c))) as (dst + 8 * (np * of_nat i)) s)\<lparr>now := t\<rparr>"
    and "mems s m = Some x" and "length as = unat (n_pages x)"
    and "loop_done (x\<lparr>dma_list := l\<rparr>) m dst np (Suc i) cs (count_addrs i n (pages32 x)) (ds @ [next_addr s]) s1 r"
  shows "loop_done x m dst np i (c # cs) n ds s r"
proof -
  from assms(4) obtain t' ass where ass: "length ass = length cs" "lens x ass"
    and r: "r = Some (0, (ds @ [next_addr s]) @ [next_addr s1..<next_addr s1 + length cs],
      total32 (Suc i) (count_addrs i n (pages32 x)) (length cs) (pages32 x), (made m (slots dst np (Suc i) cs ass) s1)\<lparr>now := t'\<rparr>)"
    by (auto simp: loop_done_def)
  note run = upt_run [of "next_addr s" "length cs"]
  have "total32 (Suc i) (count_addrs i n (pages32 x)) (length cs) (pages32 x) = total32 i n (Suc (length cs)) (pages32 x)"
    by (simp add: total32_def count_addrs_def algebra_simps)
  then show ?thesis
    unfolding loop_done_def r using assms(2,3) ass run
    by (intro exI [of _ t'] exI [of _ "as # ass"]) (simp add: lens_def assms(1) made_now del: upt_Suc)
qed

lemma loop_failed_Cons:
  assumes "s1 = (dma_made c m x (pdev (the (ctrls s c))) as (dst + 8 * (np * of_nat i)) s)\<lparr>now := t\<rparr>"
    and "mems s m = Some x" and "length as = unat (n_pages x)"
    and "loop_failed (x\<lparr>dma_list := l\<rparr>) m dst np (Suc i) cs (ds @ [next_addr s]) s1 r"
  shows "loop_failed x m dst np i (c # cs) ds s r"
proof -
  from assms(4) obtain ret n' t' e lk cs' ass cs2 where ret: "ret \<in> {- ENOMEM, - EFAULT}" "lk \<le> (1 :: nat)"
    and ass: "length ass = length cs'" "lens x ass" "cs = cs' @ cs2"
    and r: "r = Some (ret, (ds @ [next_addr s]) @ [next_addr s1..<next_addr s1 + length cs'], n',
      (made m (slots dst np (Suc i) cs' ass) s1)\<lparr>now := t', next_addr := e,
          res := (\<lambda>r. res (made m (slots dst np (Suc i) cs' ass) s1) r + (if r = Buf DmaAddrs then lk else 0))\<rparr>)"
    unfolding loop_failed_def pages32_list by blast
  note run = upt_run [of "next_addr s" "length cs'"]
  with assms(2,3) ret ass show ?thesis
    unfolding loop_failed_def r
    by - (rule exI [of _ ret], rule exI [of _ n'], rule exI [of _ t'], rule exI [of _ e], rule exI [of _ lk],
      rule exI [of _ "c # cs'"], rule exI [of _ "as # ass"], simp add: lens_def assms(1) made_now del: upt_Suc)
qed

lemma group_map_loop_cases:
  assumes "fresh s" and "group_ready s cs ctx va m x" and "cpu_live b x"
    and "np = ucast (pages32 x)" and "i = 0 \<or> per = np"
  shows "loop_done x m dst np i cs n ds s (group_map_loop K ctx va dst cs i per n ds s) \<or>
    loop_failed x m dst np i cs ds s (group_map_loop K ctx va dst cs i per n ds s)"
  using assms
proof (induction cs arbitrary: i per n ds s x)
  case Nil
  have "s = s\<lparr>now := now s\<rparr>" by simp
  then have "loop_done x m dst np i [] n ds s (Some (0, ds, n, s))"
    unfolding loop_done_def by (intro exI [of _ "now s"] exI [of _ "[]"]) (simp add: lens_def total32_def)
  then show ?case by simp
next
  case (Cons c cs)
  note c = group_ready_ConsD [OF Cons.prems(2)]
  let ?cc = "the (ctrls s c)" and ?pos = "dst + 8 * (np * of_nat i)"
  have pos: "dst + 8 * (per * of_nat i) = ?pos" using Cons.prems(5) by auto
  show ?case
  proof (rule bafs_ctrl_dma_map_mem_cases [OF Cons.prems(1) c(1) Cons.prems(3), of K n ?pos i])
    fix ret n' t a k
    assume f: "bafs_ctrl_dma_map_mem K c ctx va n ?pos i s = Some (ret, None, n', s\<lparr>now := t, next_addr := a,
         res := (res s)(Buf DmaAddrs := res s (Buf DmaAddrs) + k)\<rparr>)" and ret: "ret \<in> {- ENOMEM, - EFAULT}" "k \<le> (1 :: nat)"
    then have "group_map_loop K ctx va dst (c # cs) i per n ds s = Some (ret, ds, n', s\<lparr>now := t, next_addr := a,
         res := (res s)(Buf DmaAddrs := res s (Buf DmaAddrs) + k)\<rparr>)"
      by (auto simp: pos)
    moreover have "(res s)(Buf DmaAddrs := res s (Buf DmaAddrs) + k) = (\<lambda>r. res s r + (if r = Buf DmaAddrs then k else 0))" by auto
    ultimately have "loop_failed x m dst np i (c # cs) ds s (group_map_loop K ctx va dst (c # cs) i per n ds s)"
      unfolding loop_failed_def using ret
      by - (rule exI [of _ ret], rule exI [of _ n'], rule exI [of _ t], rule exI [of _ a], rule exI [of _ k],
        rule exI [of _ "[]"], simp add: lens_def)
    then show ?thesis ..
  next
    fix as t
    assume as: "length as = unat (n_pages x)" and f: "bafs_ctrl_dma_map_mem K c ctx va n ?pos i s = Some (0, Some (next_addr s),
         count_addrs i n (ucast (n_pages x)), (dma_made c m x (pdev ?cc) as ?pos s)\<lparr>now := t\<rparr>)"
    let ?s = "(dma_made c m x (pdev ?cc) as ?pos s)\<lparr>now := t\<rparr>" and ?n = "count_addrs i n (pages32 x)"
    let ?x = "x\<lparr>dma_list := next_addr s # dma_list x\<rparr>" and ?per = "if i = 0 then ucast ?n else per"
    have eq: "group_map_loop K ctx va dst (c # cs) i per n ds s =
        group_map_loop K ctx va dst cs (Suc i) ?per ?n (ds @ [next_addr s]) ?s"
      using f by (simp add: pos pages32_def)
    have "loop_done ?x m dst np (Suc i) cs ?n (ds @ [next_addr s]) ?s (group_map_loop K ctx va dst (c # cs) i per n ds s) \<or>
        loop_failed ?x m dst np (Suc i) cs (ds @ [next_addr s]) ?s (group_map_loop K ctx va dst (c # cs) i per n ds s)"
      unfolding eq
      by (rule Cons.IH) (use Cons.prems c fresh_made [OF Cons.prems(1) c(1)] in \<open>auto simp: group_ready_now count_addrs_def\<close>)
    then show ?thesis
      using loop_done_Cons [OF refl c(2) as] loop_failed_Cons [OF refl c(2) as] by blast
  qed
qed

section \<open>Removing the mappings of a failed run\<close>

lemma unmap_mems_append: "unmap_mems K (xs @ ys) s = do { s \<leftarrow> unmap_mems K xs s; unmap_mems K ys s }"
proof (induction xs arbitrary: s)
  case (Cons d xs)
  then show ?case by (cases "bafs_ctrl_dma_unmap_mem K d s") simp_all
qed simp

lemma unmap_made:
  assumes "fresh s" and "group_ready s cs ctx va m x" and "cpu_live b x" and "length ass = length cs" and "lens x ass"
  shows "unmap_mems K (rev [next_addr s..<next_addr s + length cs]) ((made m (slots dst np i cs ass) s)\<lparr>now := t, next_addr := a,
      user := u, res := (\<lambda>r. res (made m (slots dst np i cs ass) s) r + lk r)\<rparr>) =
    Some (s\<lparr>now := t, next_addr := a, user := u, res := (\<lambda>r. res s r + lk r)\<rparr>)"
  using assms
proof (induction cs arbitrary: s x i ass)
  case (Cons c cs)
  from Cons.prems(4) obtain as ass' where ass: "ass = as # ass'" by (cases ass) auto
  note c = group_ready_ConsD [OF Cons.prems(2)]
  let ?cc = "the (ctrls s c)" and ?pos = "dst + 8 * (np * of_nat i)"
  let ?s = "dma_made c m x (pdev ?cc) as ?pos s"
  have mid: "unmap_mems K (rev [next_addr ?s..<next_addr ?s + length cs]) ((made m (slots dst np (Suc i) cs ass') ?s)\<lparr>now := t,
      next_addr := a, user := u, res := (\<lambda>r. res (made m (slots dst np (Suc i) cs ass') ?s) r + lk r)\<rparr>) =
    Some (?s\<lparr>now := t, next_addr := a, user := u, res := (\<lambda>r. res ?s r + lk r)\<rparr>)"
    by (rule Cons.IH [OF fresh_made [OF Cons.prems(1) c(1)] c(3)])
      (use Cons.prems in \<open>simp_all add: ass lens_def\<close>)
  have R: "(\<lambda>r. res ?s r + lk r) = (\<lambda>r. res s r + lk r + dma_owns (pdev ?cc) (dma_new c m x as) r)"
    by (simp add: dma_made_def Let_def ac_simps)
  have one: "bafs_ctrl_dma_unmap_mem K (next_addr s) (?s\<lparr>now := t, next_addr := a, user := u, res := (\<lambda>r. res ?s r + lk r)\<rparr>) =
      Some (s\<lparr>now := t, next_addr := a, user := u, res := (\<lambda>r. res s r + lk r)\<rparr>)"
    unfolding R by (rule dma_made_unmap_later [OF Cons.prems(1) c(1) Cons.prems(3) _ refl]) (use Cons.prems in \<open>simp add: ass lens_def\<close>)
  have "rev [next_addr s..<next_addr s + length (c # cs)] = rev [next_addr ?s..<next_addr ?s + length cs] @ [next_addr s]"
    by (simp add: upt_run [symmetric] del: upt_Suc)
  with mid one c(2) show ?case by (simp add: ass unmap_mems_append del: upt_Suc)
qed simp

section \<open>What a complete run leaves\<close>

lemma put_longs_append: "put_longs a (xs @ ys) f = put_longs (a + 8 * of_nat (length xs)) ys (put_longs a xs f)"
  by (induction xs arbitrary: a f) (simp_all add: algebra_simps)

definition group_owns :: "world \<Rightarrow> addr \<Rightarrow> bafs_mem \<Rightarrow> addr list \<Rightarrow> u64 list list \<Rightarrow> resource \<Rightarrow> nat" where
  "group_owns s m x cs ass r =
     sum_list (map2 (\<lambda>c as. dma_owns (pdev (the (ctrls s c))) (dma_new c m x as) r) cs ass)"

definition new_dmas :: "addr \<Rightarrow> addr \<Rightarrow> bafs_mem \<Rightarrow> addr list \<Rightarrow> u64 list list \<Rightarrow> addr \<rightharpoonup> bafs_mem_dma" where
  "new_dmas a m x cs ass d =
     (if a \<le> d \<and> d < a + length cs then Some (dma_new (cs ! (d - a)) m x (ass ! (d - a))) else None)"

lemma made_eq:
  assumes "mems s m = Some x" and "length ass = length cs" and "\<forall>as \<in> set ass. of_nat (length as) = np"
  shows "made m (slots dst np i cs ass) s = s\<lparr>next_addr := next_addr s + length cs,
    dmas := dmas s ++ new_dmas (next_addr s) m x cs ass,
    mems := (mems s)(m \<mapsto> x\<lparr>dma_list := rev [next_addr s..<next_addr s + length cs] @ dma_list x\<rparr>),
    krefs := (\<lambda>k. krefs s k + ((if k = KMem m then length cs else 0) + ctrl_refs cs k)),
    res := (\<lambda>r. res s r + group_owns s m x cs ass r),
    user := (user s)\<lparr>u_long := put_longs (dst + 8 * (np * of_nat i)) (concat ass) (u_long (user s))\<rparr>\<rparr>"
  using assms
proof (induction cs arbitrary: s x i ass)
  case Nil
  have "new_dmas (next_addr s) m x [] [] = Map.empty" by (auto simp: new_dmas_def)
  with Nil show ?case by (auto simp: group_owns_def intro!: world.equality)
next
  case (Cons c cs)
  from Cons.prems(2) obtain as ass' where ass: "ass = as # ass'" by (cases ass) auto
  let ?s = "dma_made c m x (pdev (the (ctrls s c))) as (dst + 8 * (np * of_nat i)) s" and ?a = "next_addr s"
  let ?x = "x\<lparr>dma_list := ?a # dma_list x\<rparr>"
  have s: "mems ?s m = Some ?x" "ctrls ?s = ctrls s" by (simp_all add: dma_made_def Let_def)
  have D: "(dmas s)(?a \<mapsto> dma_new c m x as) ++ new_dmas (Suc ?a) m ?x cs ass' = dmas s ++ new_dmas ?a m x (c # cs) ass"
    by (auto simp: new_dmas_def map_add_def ass nth_Cons' fun_eq_iff)
  have M: "rev [Suc ?a..<Suc ?a + length cs] @ ?a # dma_list x = rev [?a..<?a + length (c # cs)] @ dma_list x"
    by (simp add: upt_run [symmetric] del: upt_Suc)
  have O: "group_owns s m ?x cs ass' r + dma_owns (pdev (the (ctrls s c))) (dma_new c m x as) r = group_owns s m x (c # cs) ass r" for r
    by (simp add: group_owns_def ass)
  have g: "group_owns ?s m ?x cs ass' = group_owns s m ?x cs ass'" by (simp add: group_owns_def s fun_eq_iff)
  have U: "dst + 8 * (np * of_nat (Suc i)) = (dst + 8 * (np * of_nat i)) + 8 * of_nat (length as)"
    using Cons.prems(3) by (simp add: ass algebra_simps)
  have "made m (slots dst np i (c # cs) ass) s = made m (slots dst np (Suc i) cs ass') ?s"
    by (simp add: ass Cons.prems(1))
  also have "\<dots> = ?s\<lparr>next_addr := next_addr ?s + length cs, dmas := dmas ?s ++ new_dmas (next_addr ?s) m ?x cs ass',
    mems := (mems ?s)(m \<mapsto> ?x\<lparr>dma_list := rev [next_addr ?s..<next_addr ?s + length cs] @ dma_list ?x\<rparr>),
    krefs := (\<lambda>k. krefs ?s k + ((if k = KMem m then length cs else 0) + ctrl_refs cs k)),
    res := (\<lambda>r. res ?s r + group_owns ?s m ?x cs ass' r),
    user := (user ?s)\<lparr>u_long := put_longs (dst + 8 * (np * of_nat (Suc i))) (concat ass') (u_long (user ?s))\<rparr>\<rparr>"
    by (rule Cons.IH [OF s(1)]) (use Cons.prems in \<open>simp_all add: ass\<close>)
  finally show ?case
    unfolding g U D [symmetric] M [symmetric] O [symmetric]
    by (auto simp: dma_made_def Let_def put_longs_append ass ctrl_refs_Cons simp del: upt_Suc intro!: world.equality)
qed

lemma pages32_fits:
  assumes "cpu_live b x"
  shows "unat (n_pages x) \<le> 2 ^ 20" and "ucast (pages32 x) = n_pages x" and "unat (pages32 x) = unat (n_pages x)"
proof -
  from assms show le: "unat (n_pages x) \<le> 2 ^ 20"
    using page_count_le by (auto simp: cpu_live_def mem_geom_def)
  then have "unat (n_pages x) < 2 ^ 32" by simp
  then show u: "unat (pages32 x) = unat (n_pages x)" unfolding pages32_def by (simp add: unsigned_ucast_eq take_bit_nat_eq_self)
  have "unat (ucast (pages32 x) :: u64) = unat (pages32 x)" by simp
  then show "ucast (pages32 x) = n_pages x" by (simp add: u word_unat_eq_iff)
qed

lemma concat_nth:
  assumes "\<forall>as \<in> set ass. length as = n" and "i < length ass" and "j < n"
  shows "concat ass ! (i * n + j) = ass ! i ! j" and "i * n + j < length (concat ass)"
  using assms
proof (induction ass arbitrary: i)
  case (Cons as ass)
  { case 1 with Cons show ?case by (cases i) (auto simp: nth_append) }
  { case 2 with Cons show ?case by (cases i) (auto simp: add.assoc) }
qed simp_all

section \<open>The operation\<close>

lemma fresh_lock [simp]: "fresh s \<Longrightarrow> groups s g \<noteq> None \<Longrightarrow> fresh (s\<lparr>held := insert (GroupLock g) (held s)\<rparr>)"
  using freshD(5) [of s g] unfolding fresh_def by auto

text \<open>The state in which the loop runs: the lock is held and the array of mappings is allocated.\<close>

definition map_start :: "addr \<Rightarrow> world \<Rightarrow> world" where
  "map_start g s = s\<lparr>held := insert (GroupLock g) (held s), now := now s + 2,
     res := (res s)(Buf DmaPtrs := Suc (res s (Buf DmaPtrs)))\<rparr>"

lemma map_start_ok:
  assumes "fresh s" and "groups s g \<noteq> None"
  shows "fresh (map_start g s)" and "group_ready (map_start g s) cs ctx va m x = group_ready s cs ctx va m x"
  using assms fresh_lock [OF assms]
  by (simp_all add: map_start_def fresh_def group_ready_def dma_ready_def mems_ok_def first_hit_def)

lemma bafs_group_dma_map_mem_eq:
  assumes "groups s g = Some xg" and "GroupLock g \<notin> held s" and prm: "prm = u_dma (user s) argp"
  shows "bafs_group_dma_map_mem K g ctx argp s =
    (if \<not> k_copy K (now s) then Some (- EFAULT, s\<lparr>now := now s + 1\<rparr>)
     else if \<not> k_alloc K (now s + 1) then Some (- ENOMEM, s\<lparr>now := now s + 2\<rparr>)
     else do {
       (ret, ds, n, s) \<leftarrow> group_map_loop K ctx (dm_vaddr prm) (dm_dma_addrs prm) (group_ctrls xg) 0 0 (dm_n_dma_addrs prm) [] (map_start g s);
       if ret < 0 then group_out_unmap_mems K g ds ret s
       else do {
         let (ok, s) = ask (k_copy K) s;
         if \<not> ok then group_out_unmap_mems K g ds (- EFAULT) s
         else do {
           let s = s\<lparr>user := (user s)\<lparr>u_dma := (u_dma (user s))(argp := prm\<lparr>dm_n_dma_addrs := n\<rparr>)\<rparr>\<rparr>;
           s \<leftarrow> spin_unlock (GroupLock g) s;
           Some (ret, s)
         }
       }
     })"
  unfolding prm using assms(1,2)
  by (simp add: bafs_group_dma_map_mem_def ask_def Let_def spin_lock_def spin_unlock_def acquire_def map_start_def)

lemma group_out_unmap_mems_eq:
  assumes "fresh s" and "groups s g \<noteq> None" and "GroupLock g \<notin> held s" and "group_ready s cs ctx va m x" and "cpu_live b x"
    and "length ass = length cs" and "lens x ass"
  shows "group_out_unmap_mems K g [next_addr s..<next_addr s + length cs] ret
      ((made m (slots dst np i cs ass) (map_start g s))\<lparr>now := t, next_addr := a, user := u,
        res := (\<lambda>r. res (made m (slots dst np i cs ass) (map_start g s)) r + lk r)\<rparr>) =
    Some (ret, s\<lparr>now := t, next_addr := a, user := u, res := (\<lambda>r. res s r + lk r)\<rparr>)"
proof -
  have "group_ready (map_start g s) cs ctx va m x" using assms by (simp add: map_start_ok)
  from unmap_made [OF map_start_ok(1) [OF assms(1,2)] this assms(5-7), where K = K and dst = dst and np = np
      and i = i and t = t and a = a and u = u and lk = lk] assms(3)
  show ?thesis
    by (auto simp: group_out_unmap_mems_def map_start_def release_def spin_unlock_def Let_def intro!: world.equality)
qed

text \<open>
  A complete run, over the state before it: \<open>n\<close> is the count, \<open>ass\<close> the addresses of each
  controller. The array of mappings, \<open>Buf DmaPtrs\<close>, is still allocated.
\<close>

definition group_mapped :: "addr \<Rightarrow> bafs_mem \<Rightarrow> addr list \<Rightarrow> u64 list list \<Rightarrow> u64 \<Rightarrow> BAFS_IOC_DMA_MAP_MEM_PARAMS \<Rightarrow> world \<Rightarrow> world" where
  "group_mapped m x cs ass argp prm s = s\<lparr>next_addr := next_addr s + length cs,
    dmas := dmas s ++ new_dmas (next_addr s) m x cs ass,
    mems := (mems s)(m \<mapsto> x\<lparr>dma_list := rev [next_addr s..<next_addr s + length cs] @ dma_list x\<rparr>),
    krefs := (\<lambda>k. krefs s k + ((if k = KMem m then length cs else 0) + ctrl_refs cs k)),
    res := (\<lambda>r. res s r + group_owns s m x cs ass r + (if r = Buf DmaPtrs then 1 else 0)),
    user := (user s)\<lparr>u_long := put_longs (dm_dma_addrs prm) (concat ass) (u_long (user s)),
      u_dma := (u_dma (user s))(argp := prm\<lparr>dm_n_dma_addrs :=
        if cs = [] then dm_n_dma_addrs prm else of_nat (length cs) * pages32 x\<rparr>)\<rparr>\<rparr>"

text \<open>The cleanup after the loop failed, and after the count could not be written.\<close>

lemma loop_failed_cleanup:
  assumes "fresh s" and "groups s g \<noteq> None" and "GroupLock g \<notin> held s" and ready: "group_ready s cs ctx va m x" and "cpu_live b x"
    and "loop_failed x m dst np i cs [] (map_start g s) r"
  shows "yields (r \<bind> (\<lambda>(ret, ds, n, s). group_out_unmap_mems K g ds ret s)) (\<lambda>(ret, s').
    ret \<in> {- ENOMEM, - EFAULT} \<and> (\<exists>k \<le> 1. restored (s\<lparr>res := (res s)(Buf DmaAddrs := res s (Buf DmaAddrs) + k)\<rparr>) (s'\<lparr>user := user s\<rparr>)))"
    and "\<exists>ret ds n s'. r = Some (ret, ds, n, s') \<and> ret < 0"
proof -
  have na: "next_addr (map_start g s) = next_addr s" by (simp add: map_start_def)
  from assms(6) obtain ret n t a lk cs' ass cs2 where ret: "ret \<in> {- ENOMEM, - EFAULT}" "lk \<le> (1 :: nat)"
    and ass: "length ass = length cs'" "lens x ass" and cs: "cs = cs' @ cs2"
    and r: "r = Some (ret, [next_addr s..<next_addr s + length cs'], n, (made m (slots dst np i cs' ass) (map_start g s))\<lparr>now := t, next_addr := a,
          res := (\<lambda>r. res (made m (slots dst np i cs' ass) (map_start g s)) r + (if r = Buf DmaAddrs then lk else 0))\<rparr>)"
    unfolding loop_failed_def na append_Nil by blast
  let ?M = "made m (slots dst np i cs' ass) (map_start g s)"
  have "group_ready s cs' ctx va m x" using ready by (simp add: group_ready_def cs)
  note out = group_out_unmap_mems_eq [OF assms(1-3) this assms(5) ass, where K = K and ret = ret and t = t and a = a
      and lk = "\<lambda>r. if r = Buf DmaAddrs then lk else 0" and u = "user ?M" and dst = dst and np = np and i = i]
  have "(\<lambda>r. res s r + (if r = Buf DmaAddrs then lk else 0)) = (res s)(Buf DmaAddrs := res s (Buf DmaAddrs) + lk)" by auto
  with ret out show "yields (r \<bind> (\<lambda>(ret, ds, n, s). group_out_unmap_mems K g ds ret s)) (\<lambda>(ret, s').
    ret \<in> {- ENOMEM, - EFAULT} \<and> (\<exists>k \<le> 1. restored (s\<lparr>res := (res s)(Buf DmaAddrs := res s (Buf DmaAddrs) + k)\<rparr>) (s'\<lparr>user := user s\<rparr>)))"
    unfolding r by (auto simp: restored_def intro!: exI [of _ lk])
  show "\<exists>ret ds n s'. r = Some (ret, ds, n, s') \<and> ret < 0" using ret unfolding r by auto
qed

lemma count_failed_cleanup:
  assumes "fresh s" and "groups s g \<noteq> None" and "GroupLock g \<notin> held s" and "group_ready s cs ctx va m x" and "cpu_live b x"
    and "length ass = length cs" and "lens x ass"
  shows "yields (group_out_unmap_mems K g [next_addr s..<next_addr s + length cs] ret
      ((made m (slots dst np i cs ass) (map_start g s))\<lparr>now := t\<rparr>)) (\<lambda>(ret', s'). ret' = ret \<and> restored s (s'\<lparr>user := user s\<rparr>))"
proof -
  let ?M = "made m (slots dst np i cs ass) (map_start g s)"
  show ?thesis
    using group_out_unmap_mems_eq [OF assms, where K = K and ret = ret and t = t and a = "next_addr ?M"
      and lk = "\<lambda>r. 0" and u = "user ?M" and dst = dst and np = np and i = i]
    by (simp add: restored_def)
qed

lemma group_mapped_eq:
  assumes "mems s m = Some x" and "cpu_live b x" and "length ass = length cs" and "lens x ass" and "GroupLock g \<notin> held s"
  shows "(let s' = (made m (slots (dm_dma_addrs prm) (ucast (pages32 x)) 0 cs ass) (map_start g s))\<lparr>now := t\<rparr>;
      s' = s'\<lparr>user := (user s')\<lparr>u_dma := (u_dma (user s'))(argp := prm\<lparr>dm_n_dma_addrs :=
        total32 0 (dm_n_dma_addrs prm) (length cs) (pages32 x)\<rparr>)\<rparr>\<rparr>
    in spin_unlock (GroupLock g) s') = Some ((group_mapped m x cs ass argp prm s)\<lparr>now := t\<rparr>)"
proof -
  have m: "mems (map_start g s) m = Some x" using assms(1) by (simp add: map_start_def)
  have len: "\<forall>as \<in> set ass. of_nat (length as) = (ucast (pages32 x) :: u64)"
    using assms(4) by (simp add: lens_def pages32_fits [OF assms(2)])
  have own: "group_owns (map_start g s) m x cs ass = group_owns s m x cs ass"
    by (simp add: group_owns_def map_start_def fun_eq_iff)
  show ?thesis
    unfolding made_eq [OF m assms(3) len] own using assms(5)
    by (auto simp: Let_def group_mapped_def map_start_def spin_unlock_def total32_def intro!: world.equality)
qed

lemma group_dma_cases:
  assumes fresh: "fresh s" and g: "groups s g = Some xg" "GroupLock g \<notin> held s" and prm: "prm = u_dma (user s) argp"
    and cs: "cs = group_ctrls xg" and ready: "group_ready s cs ctx (dm_vaddr prm) m x" and live: "cpu_live b x" "mems s m = Some x"
  shows "yields (bafs_group_dma_map_mem K g ctx argp s) (\<lambda>(ret, s').
    if ret = 0 then \<exists>ass. length ass = length cs \<and> lens x ass \<and> s' = (group_mapped m x cs ass argp prm s)\<lparr>now := now s'\<rparr>
    else ret \<in> {- ENOMEM, - EFAULT} \<and> (\<exists>k \<le> 1. restored (s\<lparr>res := (res s)(Buf DmaAddrs := res s (Buf DmaAddrs) + k)\<rparr>) (s'\<lparr>user := user s\<rparr>)))"
proof (cases "k_copy K (now s) \<and> k_alloc K (now s + 1)")
  case False
  then show ?thesis
    unfolding bafs_group_dma_map_mem_eq [OF g prm] by (auto simp: restored_def intro!: exI [of _ 0])
next
  case True
  let ?s = "map_start g s" and ?dst = "dm_dma_addrs prm" and ?np = "ucast (pages32 x) :: u64"
  let ?loop = "group_map_loop K ctx (dm_vaddr prm) ?dst cs 0 0 (dm_n_dma_addrs prm) [] ?s"
  have s: "fresh ?s" "group_ready ?s cs ctx (dm_vaddr prm) m x" "next_addr ?s = next_addr s" and g': "groups s g \<noteq> None"
    using fresh g ready by (simp_all add: map_start_ok) (simp_all add: map_start_def)
  note eq = bafs_group_dma_map_mem_eq [OF g prm, of K ctx, unfolded cs [symmetric]]
  from group_map_loop_cases [OF s(1,2) live(1) refl, where i = 0]
  have "loop_done x m ?dst ?np 0 cs (dm_n_dma_addrs prm) [] ?s ?loop \<or> loop_failed x m ?dst ?np 0 cs [] ?s ?loop" by simp
  then show ?thesis
  proof
    assume "loop_failed x m ?dst ?np 0 cs [] ?s ?loop"
    note out = loop_failed_cleanup [OF fresh g' g(2) ready live(1) this]
    from out(2) obtain ret ds n s' where "?loop = Some (ret, ds, n, s')" "ret < 0" by blast
    with True have "bafs_group_dma_map_mem K g ctx argp s = ?loop \<bind> (\<lambda>(ret, ds, n, s). group_out_unmap_mems K g ds ret s)"
      unfolding eq by simp
    with out(1) [of K] show ?thesis by (auto elim!: yields_mono split: if_splits)
  next
    assume "loop_done x m ?dst ?np 0 cs (dm_n_dma_addrs prm) [] ?s ?loop"
    then obtain t ass where ass: "length ass = length cs" "lens x ass"
      and loop: "?loop = Some (0, [next_addr s..<next_addr s + length cs], total32 0 (dm_n_dma_addrs prm) (length cs) (pages32 x),
       (made m (slots ?dst ?np 0 cs ass) ?s)\<lparr>now := t\<rparr>)"
      unfolding loop_done_def s(3) by auto
    show ?thesis
    proof (cases "k_copy K t")
      case False
      with count_failed_cleanup [OF fresh g' g(2) ready live(1) ass, where K = K and ret = "- EFAULT" and dst = ?dst
          and np = ?np and i = 0 and t = "Suc t"] True loop show ?thesis
        unfolding eq by (auto simp: ask_def elim!: yields_mono intro!: exI [of _ 0])
    next
      case ok: True
      with group_mapped_eq [OF live(2,1) ass g(2), where prm = prm and t = "Suc t" and argp = argp] True loop ass show ?thesis
        unfolding eq by (auto simp: ask_def Let_def)
    qed
  qed
qed

lemma lens_concat: "lens x ass \<Longrightarrow> length (concat ass) = length ass * unat (n_pages x)"
  by (induction ass) (auto simp: lens_def)

lemma group_mapped_layout:
  assumes "cpu_live b x" and "length cs < 2 ^ 32" and "length ass = length cs" and "lens x ass" and np: "np = unat (n_pages x)"
    and "i < length cs" and "j < np"
  shows "u_long (user (group_mapped m x cs ass argp prm s)) (dm_dma_addrs prm + 8 * of_nat (i * np + j)) = ass ! i ! j"
proof -
  have "length (concat ass) \<le> 2 ^ 32 * 2 ^ 20"
    unfolding lens_concat [OF assms(4)] using assms(2,3) pages32_fits(1) [OF assms(1)] by (intro mult_le_mono) simp_all
  then have "length (concat ass) \<le> 2 ^ 61" by simp
  moreover have "\<forall>as \<in> set ass. length as = np" using assms(4) np by (simp add: lens_def)
  ultimately show ?thesis
    using put_longs_read [of "concat ass" "i * np + j"] concat_nth [of ass np i j] assms(3,6,7)
    by (simp add: group_mapped_def del: length_concat of_nat_add of_nat_mult)
qed

lemma group_mapped_facts:
  assumes live: "cpu_live b x" and cs: "cs \<noteq> []" "length cs < 2 ^ 32" and ass: "length ass = length cs" "lens x ass"
    and np: "np = unat (n_pages x)" and s': "s' = (group_mapped m x cs ass argp prm s)\<lparr>now := t\<rparr>"
  shows "(\<forall>i < length cs. \<exists>y as. dmas s' (next_addr s + i) = Some y \<and> dma_ctrl y = cs ! i \<and> dma_mem y = m \<and> dma_addrs y = Some as \<and>
        length as = np \<and> (\<forall>j < np. u_long (user s') (dm_dma_addrs prm + 8 * of_nat (i * np + j)) = as ! j)) \<and>
      dm_n_dma_addrs (u_dma (user s') argp) = of_nat (length cs * np) \<and>
      krefs s' (KMem m) = krefs s (KMem m) + length cs \<and>
      (\<forall>c. krefs s' (KCtrl c) = krefs s (KCtrl c) + count_list cs c) \<and> held s' = held s \<and>
      res s' (Buf DmaPtrs) = Suc (res s (Buf DmaPtrs))"
proof -
  let ?M = "group_mapped m x cs ass argp prm s"
  have refs: "ctrl_refs cs (KCtrl c) = count_list cs c" for c
    by (induction cs) (simp_all add: ctrl_refs_Cons)
  have p: "pages32 x = of_nat np" by (simp add: np pages32_def)
  have "group_owns s m x cs ass (Buf DmaPtrs) = 0"
    by (simp add: group_owns_def)
  moreover have "dmas ?M (next_addr s + i) = Some (dma_new (cs ! i) m x (ass ! i))" "length (ass ! i) = np" if "i < length cs" for i
    using that ass by (simp_all add: group_mapped_def new_dmas_def lens_def np)
  ultimately show ?thesis
    unfolding s' using group_mapped_layout [OF live cs(2) ass np, of _ _ m argp prm s] cs(1)
    by (auto simp: refs p) (simp_all add: group_mapped_def refs p)
qed

text \<open>
  C32. Mapping a live CPU memory for a group: when it succeeds, every controller of the group has
  a mapping of its own (with one reference on it and one on the memory), the address of
  page \<open>j\<close> for controller \<open>i\<close> stands at place \<open>i\<close> times the number of pages plus \<open>j\<close> of the user's
  array, and the count is the total number of addresses; the array of pointers to the mappings
  that the operation allocates for itself is never freed. When it fails for any controller,
  or the count cannot be written, the mappings of all controllers are removed again; at
  most one array of addresses is left behind.
\<close>

theorem group_dma_map_spec:
  assumes "fresh s" and "groups s g = Some xg" and "GroupLock g \<notin> held s" and prm: "prm = u_dma (user s) argp"
    and cs: "cs = group_ctrls xg" "cs \<noteq> []" "length cs < 2 ^ 32"
    and "group_ready s cs ctx (dm_vaddr prm) m x" and live: "cpu_live b x" "mems s m = Some x" and np: "np = unat (n_pages x)"
  shows "yields (bafs_group_dma_map_mem K g ctx argp s) (\<lambda>(ret, s').
    if ret = 0 then
      (\<forall>i < length cs. \<exists>y as. dmas s' (next_addr s + i) = Some y \<and> dma_ctrl y = cs ! i \<and> dma_mem y = m \<and> dma_addrs y = Some as \<and>
        length as = np \<and> (\<forall>j < np. u_long (user s') (dm_dma_addrs prm + 8 * of_nat (i * np + j)) = as ! j)) \<and>
      dm_n_dma_addrs (u_dma (user s') argp) = of_nat (length cs * np) \<and>
      krefs s' (KMem m) = krefs s (KMem m) + length cs \<and>
      (\<forall>c. krefs s' (KCtrl c) = krefs s (KCtrl c) + count_list cs c) \<and> held s' = held s \<and>
      res s' (Buf DmaPtrs) = Suc (res s (Buf DmaPtrs))
    else ret \<in> {- ENOMEM, - EFAULT} \<and> (\<exists>k \<le> 1. restored (s\<lparr>res := (res s)(Buf DmaAddrs := res s (Buf DmaAddrs) + k)\<rparr>) (s'\<lparr>user := user s\<rparr>)))"
proof (rule yields_mono [OF group_dma_cases [OF assms(1-5,8-10)]], clarify, goal_cases)
  case (1 ret s')
  show ?case
  proof (cases "ret = 0")
    case True
    with 1 obtain ass t where ass: "length ass = length cs" "lens x ass" and s': "s' = (group_mapped m x cs ass argp prm s)\<lparr>now := t\<rparr>"
      by auto
    from group_mapped_facts [OF live(1) cs(2,3) ass np s'] True show ?thesis by simp
  next
    case False
    with 1 show ?thesis by simp
  qed
qed

text \<open>The demonstration memory with a group of two controllers at address 9.\<close>

definition demo_group_dma_world :: world where
  "demo_group_dma_world = demo_live_world\<lparr>next_addr := 10,
     ctrls := [7 \<mapsto> \<lparr>pdev = 5, ctrl_minor = 1, ctrl_id = 0\<rparr>, 8 \<mapsto> \<lparr>pdev = 6, ctrl_minor = 2, ctrl_id = 1\<rparr>],
     groups := [9 \<mapsto> \<lparr>group_id = 0, group_minor = 3, group_ctrls = [7, 8]\<rparr>],
     krefs := (\<lambda>_. 0)(KCtx 1 := 2, KMem 2 := 1, KCtrl 7 := 2, KCtrl 8 := 2, KGroup 9 := 2)\<rparr>"

lemma demo_group_dma_world_ok:
  "fresh demo_group_dma_world" "groups demo_group_dma_world 9 = Some \<lparr>group_id = 0, group_minor = 3, group_ctrls = [7, 8]\<rparr>"
  "GroupLock 9 \<notin> held demo_group_dma_world" "mems demo_group_dma_world 2 = Some demo_mem"
  "group_ready demo_group_dma_world [7, 8] 1 0x10000 2 demo_mem" "dm_vaddr (u_dma (user demo_group_dma_world) 0x900) = 0x10000"
  "krefs demo_group_dma_world (KMem 2) = 1"
  by (simp_all add: demo_group_dma_world_def demo_live_world_def fresh_def demo_vma_world_def demo_ctx_world_def empty_world_def
      group_ready_def dma_ready_def mems_ok_def first_hit_def hit_def demo_user_def)

theorem group_dma_map_spec_witness:
  "yields (bafs_group_dma_map_mem demo_kernel 9 1 0x900 demo_group_dma_world) (\<lambda>(ret, s').
     if ret = 0 then dm_n_dma_addrs (u_dma (user s') 0x900) = 4 \<and> krefs s' (KMem 2) = 3 else ret \<in> {- ENOMEM, - EFAULT})"
proof -
  have "unat (n_pages demo_mem) = 2" using demo_live(2) by simp
  with group_dma_map_spec [OF demo_group_dma_world_ok(1-3) refl refl _ _ _ demo_live(1) demo_group_dma_world_ok(4) refl,
      where ctx = 1 and argp = "0x900" and K = demo_kernel]
  show ?thesis
    using demo_group_dma_world_ok(5-7) by (auto elim!: yields_mono split: if_splits)
qed

end
