(* ===== verification/Bafs_Group_File.thy ===== *)
theory Bafs_Group_File
  imports Bafs_Group_Dma
begin

text \<open>
  The file operations of a group device, \<^verbatim>\<open>module/bafs/group.c\<close>: opening and closing, the
  ioctl commands, and the mapping of the registers of all members.
\<close>

section \<open>Opening and closing a group\<close>

lemma fresh_get_group:
  "fresh s \<Longrightarrow> groups s g \<noteq> None \<Longrightarrow> fresh (s\<lparr>krefs := (krefs s)(KGroup g := Suc (krefs s (KGroup g)))\<rparr>)"
  using freshD(5) [of s g] unfolding fresh_def by auto

text \<open>
  Opening a group device and closing it again leaves the world as it was, whether or not the
  process had a context, provided it has no unmapped registration.
\<close>

theorem group_open_close_roundtrip:
  assumes "fresh s" and "table_ok s t" and grp: "groups s g \<noteq> None" "0 < krefs s (KGroup g)"
    and stale: "\<And>e cx. ctxs s e = Some cx \<Longrightarrow> stale_of s (mem_list cx) = []"
    and "bafs_group_open K t (Some g) s = Some (0, pd, s')"
  shows "yields (bafs_group_release pd s') (\<lambda>(ret, pd', s''). ret = 0 \<and> pd' = PNull \<and> restored s s'')"
proof -
  let ?s = "s\<lparr>krefs := (krefs s)(KGroup g := Suc (krefs s (KGroup g))), now := Suc (now s),
    res := (res s)(Buf FileCtx := Suc (res s (Buf FileCtx)))\<rparr>"
  have fr: "fresh ?s" using fresh_get_group [OF assms(1) grp(1)] by (simp add: fresh_def)
  have st: "stale_of ?s ms = stale_of s ms" for ms by (simp add: stale_of_def)
  have tb: "table_ok ?s t" using assms(2) by (simp add: table_ok_def ctx_ok_def st split: option.splits)
  from assms(6) grp obtain e where pd: "pd = PGroup g e" and get: "bafs_get_ctx K t ?s = Some (Some e, s')"
    by (auto simp: bafs_group_open_def ask_def acquire_def bafs_get_group_live elim!: bind_SomeE
        split: if_splits option.splits)
  obtain n where "release_stale e s' = Some (?s\<lparr>now := n, next_addr := Suc (next_addr s)\<rparr>)"
    using get_ctx_release_stale [OF fr tb get] stale st by auto
  with grp show ?thesis
    by (simp add: bafs_group_release_def pd bafs_put_group_shared release_def restored_def fun_upd_idem)
qed

definition demo_open_world :: world where
  "demo_open_world = demo_ctrl_world\<lparr>next_addr := 9, groups := [8 \<mapsto> \<lparr>group_id = 0, group_minor = 3, group_ctrls = [7]\<rparr>],
     krefs := (\<lambda>_. 0)(KCtrl 7 := 2, KGroup 8 := 1)\<rparr>"

lemma demo_open_world_ok:
  "fresh demo_open_world" "table_ok demo_open_world t" "groups demo_open_world 8 = Some \<lparr>group_id = 0, group_minor = 3, group_ctrls = [7]\<rparr>"
  "0 < krefs demo_open_world (KGroup 8)" "ctxs demo_open_world = Map.empty" "vmas demo_open_world = [0 \<mapsto> demo_vma]"
  "remaps demo_open_world = []" "ctrls_live demo_open_world [7]" "ctrls demo_open_world = [7 \<mapsto> \<lparr>pdev = 5, ctrl_minor = 1, ctrl_id = 0\<rparr>]"
  "GroupLock 8 \<notin> held demo_open_world"
  by (simp_all add: demo_open_world_def demo_ctrl_world_def empty_world_def fresh_def table_ok_def ctrls_live_def)

theorem group_open_close_roundtrip_witness:
  "\<exists>pd s'. bafs_group_open demo_kernel 77 (Some 8) demo_open_world = Some (0, pd, s') \<and>
     yields (bafs_group_release pd s') (\<lambda>(ret, pd', s''). ret = 0 \<and> pd' = PNull \<and> restored demo_open_world s'')"
proof -
  have "\<exists>pd s'. bafs_group_open demo_kernel 77 (Some 8) demo_open_world = Some (0, pd, s')"
    by (simp add: bafs_group_open_def bafs_get_group_live ctx_defs prim_defs Let_def demo_kernel_def demo_open_world_def)
  with group_open_close_roundtrip [where s = demo_open_world and g = 8 and K = demo_kernel and t = 77] demo_open_world_ok
  show ?thesis by simp blast
qed

section \<open>Mapping the registers of all members\<close>

text \<open>The mappings of the first register windows of a list of controllers, one after the other.\<close>

fun bars :: "kernel \<Rightarrow> world \<Rightarrow> u64 \<Rightarrow> addr list \<Rightarrow> remap list" where
  "bars K s va [] = []"
| "bars K s va (c # cs) =
     (let p = pdev (the (ctrls s c)) in
      \<lparr>rmp_vaddr = va, rmp_pfn = k_bar_start K p, rmp_len = k_bar_len K p\<rparr> # bars K s (va + k_bar_len K p) cs)"

lemma bars_frame: "ctrls t = ctrls s \<Longrightarrow> bars K t va cs = bars K s va cs"
  by (induction cs arbitrary: va) (simp_all add: Let_def)

text \<open>The state after the first members have been mapped, but for the protection bits of the area.\<close>

definition bars_mapped :: "kernel \<Rightarrow> u64 \<Rightarrow> addr list \<Rightarrow> world \<Rightarrow> world" where
  "bars_mapped K va cs s = s\<lparr>krefs := (\<lambda>k. krefs s k + ctrl_refs cs k), remaps := remaps s @ bars K s va cs\<rparr>"

lemma bars_mapped_Nil: "bars_mapped K va [] s = s"
  by (simp add: bars_mapped_def)

lemma bars_mapped_Cons:
  "bars_mapped K (va + k_bar_len K (pdev (the (ctrls s c)))) cs ((bars_mapped K va [c] s)\<lparr>vmas := w, now := t\<rparr>) =
    (bars_mapped K va (c # cs) s)\<lparr>vmas := w, now := t\<rparr>"
  by (rule world.equality) (simp_all add: bars_mapped_def Let_def ctrl_refs_Cons fun_eq_iff
    bars_frame [of "s\<lparr>krefs := _, remaps := _, vmas := _, now := _\<rparr>" s])

lemma bafs_ctrl_mmap_eq:
  assumes "ret_ok K" and "ctrls s c \<noteq> None" and "0 < krefs s (KCtrl c)" and "vmas s v = Some vma"
    and w: "w = (vmas s)(v \<mapsto> vma\<lparr>vm_noncached := True\<rparr>)"
  shows "bafs_ctrl_mmap K (Some c) v va sz s = Some (
    if k_ret K IoRemapPfnRange (now s) = 0
    then (0, k_bar_len K (pdev (the (ctrls s c))), (bars_mapped K va [c] s)\<lparr>vmas := w, now := Suc (now s)\<rparr>)
    else (k_ret K IoRemapPfnRange (now s), k_bar_len K (pdev (the (ctrls s c))), s\<lparr>vmas := w, now := Suc (now s)\<rparr>))"
proof -
  have "k_ret K IoRemapPfnRange (now s) \<le> 0" using assms(1) by (simp add: ret_ok_def)
  with assms(2-4) show ?thesis
    by (auto simp: bafs_ctrl_mmap_def bafs_get_ctrl_live upd_vma_def io_remap_pfn_range_def ask_def bars_mapped_def w
        bafs_ctrl_release_shared Let_def ctrl_refs_Cons fun_eq_iff intro!: world.equality)
qed

definition bars_result :: "kernel \<Rightarrow> u64 \<Rightarrow> addr list \<Rightarrow> world \<Rightarrow> int \<Rightarrow> world \<Rightarrow> bool" where
  "bars_result K va cs s ret s' \<longleftrightarrow> (\<exists>t w cs' cs2. cs = cs' @ cs2 \<and> (if ret = 0 then cs2 = [] else ret < 0 \<and> cs2 \<noteq> []) \<and>
     s' = (bars_mapped K va cs' s)\<lparr>vmas := w, now := t\<rparr>)"

lemma bars_result_Cons:
  assumes "bars_result K (va + k_bar_len K (pdev (the (ctrls s c)))) cs ((bars_mapped K va [c] s)\<lparr>vmas := w, now := t\<rparr>) ret s'"
  shows "bars_result K va (c # cs) s ret s'"
proof -
  from assms obtain t' w' cs' cs2 where cs: "cs = cs' @ cs2" "if ret = 0 then cs2 = [] else ret < 0 \<and> cs2 \<noteq> []"
    and s': "s' = (bars_mapped K va (c # cs') s)\<lparr>vmas := w', now := t'\<rparr>"
    unfolding bars_result_def bars_mapped_Cons by auto
  show ?thesis
    unfolding bars_result_def
    by (rule exI [of _ t'], rule exI [of _ w'], rule exI [of _ "c # cs'"], rule exI [of _ cs2]) (use cs s' in simp)
qed

lemma group_mmap_loop_cases:
  assumes "ret_ok K" and "ctrls_live s cs" and "vmas s v \<noteq> None"
  shows "yields (group_mmap_loop K cs v start ms cur s) (\<lambda>(ret, s'). bars_result K (start + ms) cs s ret s')"
  using assms
proof (induction cs arbitrary: s ms cur)
  case Nil
  have "s = (bars_mapped K (start + ms) [] s)\<lparr>vmas := vmas s, now := now s\<rparr>" by (simp add: bars_mapped_Nil)
  then show ?case by (simp add: bars_result_def) blast
next
  case (Cons c cs)
  let ?len = "k_bar_len K (pdev (the (ctrls s c)))" and ?t = "Suc (now s)"
  have c: "ctrls s c \<noteq> None" "0 < krefs s (KCtrl c)" using Cons.prems(2) by (simp_all add: ctrls_live_def)
  from Cons.prems(3) obtain vma where vma: "vmas s v = Some vma" by auto
  define w where "w = (vmas s)(v \<mapsto> vma\<lparr>vm_noncached := True\<rparr>)"
  note eq = bafs_ctrl_mmap_eq [OF Cons.prems(1) c vma w_def, of "start + ms" cur]
  show ?case
  proof (cases "k_ret K IoRemapPfnRange (now s) = 0")
    case False
    then have "k_ret K IoRemapPfnRange (now s) < 0" using Cons.prems(1) by (simp add: ret_ok_def order_less_le)
    moreover have "bars_result K (start + ms) (c # cs) s (k_ret K IoRemapPfnRange (now s)) (s\<lparr>vmas := w, now := ?t\<rparr>)"
      unfolding bars_result_def
      by (rule exI [of _ ?t], rule exI [of _ w], rule exI [of _ "[]"]) (use calculation in \<open>simp add: bars_mapped_Nil\<close>)
    ultimately show ?thesis using eq False by simp
  next
    case True
    let ?s = "(bars_mapped K (start + ms) [c] s)\<lparr>vmas := w, now := ?t\<rparr>"
    have s: "ctrls_live ?s cs" "vmas ?s v \<noteq> None"
      using Cons.prems(2) by (simp_all add: bars_mapped_def ctrls_live_def w_def)
    have step: "group_mmap_loop K (c # cs) v start ms cur s = group_mmap_loop K cs v start (ms + ?len) ?len ?s"
      using True eq by simp
    from Cons.IH [OF Cons.prems(1) s, of "ms + ?len" ?len] show ?thesis
      unfolding step by (rule yields_mono) (auto simp: add.assoc [symmetric] intro: bars_result_Cons)
  qed
qed

text \<open>
  C33. Mapping a group file at page offset 0 maps the first register window of each member, in the
  order of the members and without a gap, starting at the start of the mapping, and keeps
  one more reference on each of them for good; if the mapping of a member fails, the
  references on the members that were mapped before it are kept as well. The group itself
  has as many references as before.
\<close>

theorem group_mmap_spec:
  assumes "ret_ok K" and grp: "groups s g = Some x" "0 < krefs s (KGroup g)" "GroupLock g \<notin> held s"
    and live: "ctrls_live s (group_ctrls x)" and v: "vmas s v = Some vma" "vm_pgoff vma = 0"
  shows "yields (bafs_group_mmap K (PGroup g ctx) v s) (\<lambda>(ret, s'). \<exists>cs' cs2. group_ctrls x = cs' @ cs2 \<and>
    (if ret = 0 then cs2 = [] else ret < 0 \<and> cs2 \<noteq> []) \<and>
    remaps s' = remaps s @ bars K s (vm_start vma) cs' \<and> krefs s' = (\<lambda>k. krefs s k + ctrl_refs cs' k) \<and>
    held s' = held s \<and> groups s' = groups s \<and> res s' = res s)"
proof -
  let ?s = "s\<lparr>krefs := (krefs s)(KGroup g := Suc (krefs s (KGroup g))), held := insert (GroupLock g) (held s)\<rparr>"
  have pre: "ctrls_live ?s (group_ctrls x)" "vmas ?s v \<noteq> None" using live v by (simp_all add: ctrls_live_def)
  have bars: "bars K ?s va cs = bars K s va cs" for va cs by (rule bars_frame) simp
  have start: "bafs_group_mmap K (PGroup g ctx) v s = do {
      (ret, s) \<leftarrow> group_mmap_loop K (group_ctrls x) v (vm_start vma) 0 0 ?s;
      s \<leftarrow> spin_unlock (GroupLock g) s;
      s \<leftarrow> bafs_put_group g s;
      Some (if ret < 0 then ret else 0, s) }"
    using grp v by (simp add: bafs_group_mmap_def bafs_get_group_live spin_lock_def)
  show ?thesis
    unfolding start yields_bind
  proof (rule yields_mono [OF group_mmap_loop_cases [OF assms(1) pre]], clarify, goal_cases)
    case (1 ret s')
    then obtain t w cs' cs2 where cs: "group_ctrls x = cs' @ cs2" "if ret = 0 then cs2 = [] else ret < 0 \<and> cs2 \<noteq> []"
      and s': "s' = (bars_mapped K (vm_start vma) cs' ?s)\<lparr>vmas := w, now := t\<rparr>"
      by (auto simp: bars_result_def)
    have "spin_unlock (GroupLock g) s' = Some (s'\<lparr>held := held s\<rparr>)" "groups s' g = Some x"
      using grp by (simp_all add: s' bars_mapped_def spin_unlock_def)
    moreover have k: "krefs s' = (\<lambda>k. krefs s k + ctrl_refs cs' k)(KGroup g := Suc (krefs s (KGroup g)))"
      by (auto simp: s' bars_mapped_def)
    moreover have "(\<lambda>k. krefs s k + ctrl_refs cs' k)(KGroup g := krefs s (KGroup g)) = (\<lambda>k. krefs s k + ctrl_refs cs' k)"
      by (rule fun_upd_idem) simp
    ultimately have run: "do { s \<leftarrow> spin_unlock (GroupLock g) s'; s \<leftarrow> bafs_put_group g s; Some (if ret < 0 then ret else 0, s) } =
        Some (if ret < 0 then ret else 0, s'\<lparr>held := held s, krefs := (\<lambda>k. krefs s k + ctrl_refs cs' k)\<rparr>)"
      using grp(2) by (simp add: bafs_put_group_shared)
    have "ret < 0 \<or> ret = 0" using cs(2) by (auto split: if_splits)
    with cs show ?case
      unfolding run yields_Some case_prod_conv by - (rule exI [of _ cs'], rule exI [of _ cs2], auto simp: s' bars_mapped_def bars)
  qed
qed

theorem group_mmap_spec_witness:
  "yields (bafs_group_mmap demo_kernel (PGroup 8 1) 0 (demo_open_world\<lparr>vmas := [0 \<mapsto> demo_vma\<lparr>vm_pgoff := 0\<rparr>]\<rparr>)) (\<lambda>(ret, s').
     ret = 0 \<longrightarrow> remaps s' = [\<lparr>rmp_vaddr = 0x10000, rmp_pfn = 0xf0000000, rmp_len = 0x4000\<rparr>])"
proof -
  let ?s = "demo_open_world\<lparr>vmas := [0 \<mapsto> demo_vma\<lparr>vm_pgoff := 0\<rparr>]\<rparr>" and ?x = "\<lparr>group_id = 0, group_minor = 3, group_ctrls = [7]\<rparr>"
  have w: "groups ?s 8 = Some ?x" "0 < krefs ?s (KGroup 8)" "GroupLock 8 \<notin> held ?s" "ctrls_live ?s (group_ctrls ?x)"
    "vmas ?s 0 = Some (demo_vma\<lparr>vm_pgoff := 0\<rparr>)" "vm_pgoff (demo_vma\<lparr>vm_pgoff := 0\<rparr>) = 0"
    using demo_open_world_ok by (simp_all add: ctrls_live_def)
  from group_mmap_spec [OF demo_kernel_ok(3) w, of 1] show ?thesis
    by (rule yields_mono) (auto simp: demo_open_world_ok demo_vma_def demo_kernel_def split: if_splits)
qed

section \<open>The ioctl of a group\<close>

lemma group_codes [simp]:
  "IOC_TYPE BAFS_GROUP_IOC_REG_MEM = BAFS_GROUP_IOCTL" "IOC_TYPE BAFS_GROUP_IOC_DMA_MAP_MEM = BAFS_GROUP_IOCTL"
  "BAFS_GROUP_IOC_REG_MEM \<noteq> BAFS_GROUP_IOC_DMA_MAP_MEM" "BAFS_GROUP_IOC_DMA_MAP_MEM \<noteq> BAFS_GROUP_IOC_REG_MEM"
  by (simp_all add: IOC_TYPE_def IOWR_def BAFS_GROUP_IOC_REG_MEM_def BAFS_GROUP_IOC_DMA_MAP_MEM_def BAFS_GROUP_IOCTL_def)

lemma bafs_group_ioctl_eq:
  assumes "groups s g \<noteq> None" and "0 < krefs s (KGroup g)"
    and s1: "s1 = s\<lparr>krefs := (krefs s)(KGroup g := Suc (krefs s (KGroup g)))\<rparr>"
  shows "bafs_group_ioctl K (PGroup g ctx) cmd argp s =
    (if cmd = BAFS_GROUP_IOC_REG_MEM then do {
       (ret, s) \<leftarrow> bafs_core_reg_mem K argp ctx s1;
       if ret < 0 then Some (ret, s) else do { s \<leftarrow> bafs_put_group g s; Some (0, s) }
     }
     else if cmd = BAFS_GROUP_IOC_DMA_MAP_MEM then do {
       (ret, s) \<leftarrow> bafs_group_dma_map_mem K g ctx argp s1;
       s \<leftarrow> bafs_put_group g s;
       Some (if ret < 0 then ret else 0, s)
     }
     else Some (- EINVAL, s))"
  using assms by (simp add: bafs_group_ioctl_def bafs_get_group_live bafs_put_group_shared fun_upd_idem)

text \<open>
  C34. The commands of a group file: a registration that succeeds leaves the group with as many
  references as before, one that fails never gives the reference on the group back and
  changes nothing else; every command that is neither a registration nor a DMA mapping
  is \<open>-EINVAL\<close> and changes nothing.
\<close>

theorem group_ioctl_spec:
  assumes "fresh s" and "xa_index_ok K" and ctx: "ctxs s ctx = Some cx" "0 < krefs s (KCtx ctx)" "CtxLock ctx \<notin> held s"
    and f: "groups s g \<noteq> None" "0 < krefs s (KGroup g)" and "cmd \<noteq> BAFS_GROUP_IOC_DMA_MAP_MEM"
  shows "yields (bafs_group_ioctl K (PGroup g ctx) cmd argp s) (\<lambda>(ret, s').
    if cmd \<noteq> BAFS_GROUP_IOC_REG_MEM then ret = - EINVAL \<and> s' = s
    else if ret = 0 then krefs s' (KGroup g) = krefs s (KGroup g) \<and> mems s' (next_addr s) \<noteq> None
    else ret < 0 \<and> krefs s' = (krefs s)(KGroup g := Suc (krefs s (KGroup g))) \<and> restored s (s'\<lparr>krefs := krefs s\<rparr>))"
proof -
  let ?s = "s\<lparr>krefs := (krefs s)(KGroup g := Suc (krefs s (KGroup g)))\<rparr>"
  have pre: "fresh ?s" "ctxs ?s ctx = Some cx" "0 < krefs ?s (KCtx ctx)" "CtxLock ctx \<notin> held ?s"
    using assms by (simp_all add: fresh_get_group)
  note reg = bafs_core_reg_mem_eq [OF pre(1) assms(2) pre(2-4) refl refl, of argp]
  have "next_addr s \<noteq> g" using assms(1) f(1) freshD(5) [of s g] by auto
  then show ?thesis
    unfolding bafs_group_ioctl_eq [OF f refl] reg using f assms(1,8)
    by (simp add: bafs_put_group_shared registered_def Let_def restored_def)
qed

theorem group_ioctl_spec_witness:
  "yields (bafs_group_ioctl (demo_kernel\<lparr>k_copy := \<lambda>_. False\<rparr>) (PGroup 9 1) BAFS_GROUP_IOC_REG_MEM 0 demo_group_dma_world)
     (\<lambda>(ret, s'). ret \<noteq> 0 \<longrightarrow> krefs s' (KGroup 9) = 3)"
proof -
  have w: "ctxs demo_group_dma_world 1 = Some \<lparr>bafs_mem_xa = [0 \<mapsto> 2], mem_list = [2], ctx_tgid = 77\<rparr>"
    "0 < krefs demo_group_dma_world (KCtx 1)" "CtxLock 1 \<notin> held demo_group_dma_world" "groups demo_group_dma_world 9 \<noteq> None"
    "0 < krefs demo_group_dma_world (KGroup 9)"
    by (simp_all add: demo_group_dma_world_def)
  have "xa_index_ok (demo_kernel\<lparr>k_copy := \<lambda>_. False\<rparr>)" using demo_kernel_ok(1) unfolding xa_index_ok_def by simp blast
  from group_ioctl_spec [OF demo_group_dma_world_ok(1) this w group_codes(3), of 0] show ?thesis
    by (rule yields_mono) (auto simp: demo_group_dma_world_def split: if_splits)
qed

end
