(* ===== verification/Bafs_Names.thy ===== *)
theory Bafs_Names
  imports Bafs_Types
begin

text \<open>
  The device names as an interface: printed ids can be read back, so device names identify
  devices; and the length of a name against \<open>MAX_NAME_LEN\<close>.
\<close>

section \<open>Command numbers\<close>

lemmas command_defs = BAFS_CORE_IOC_REG_MEM_def BAFS_CORE_IOC_CREATE_GROUP_def BAFS_CORE_IOC_DELETE_GROUP_def
  BAFS_CTRL_IOC_REG_MEM_def BAFS_CTRL_IOC_DMA_MAP_MEM_def BAFS_GROUP_IOC_REG_MEM_def BAFS_GROUP_IOC_DMA_MAP_MEM_def
  BAFS_CORE_IOCTL_def BAFS_CTRL_IOCTL_def BAFS_GROUP_IOCTL_def IOWR_def

section \<open>Printed numbers\<close>

definition digit_val :: "char \<Rightarrow> nat" where
  "digit_val c = of_char c - 48"

definition is_digit :: "char \<Rightarrow> bool" where
  "is_digit c \<longleftrightarrow> 48 \<le> (of_char c :: nat) \<and> (of_char c :: nat) < 58"

definition read_digits :: "string \<Rightarrow> nat" where
  "read_digits = foldl (\<lambda>n c. 10 * n + digit_val c) 0"

lemma of_char_digit: "(of_char (digit d) :: nat) = 48 + d mod 10"
  by (simp add: digit_def)

lemma digit_val_digit [simp]: "digit_val (digit d) = d mod 10" "is_digit (digit d)"
  by (simp_all add: digit_val_def is_digit_def of_char_digit)

lemma read_digits_snoc [simp]: "read_digits (ds @ [c]) = 10 * read_digits ds + digit_val c" "read_digits [] = 0"
  by (simp_all add: read_digits_def)

lemma read_print_nat [simp]: "read_digits (print_nat n) = n"
proof (induction n rule: print_nat.induct)
  case (1 n)
  show ?case
  proof (cases "n < 10")
    case True
    then show ?thesis using read_digits_snoc(1) [of "[]" "digit n"] by (simp add: print_nat.simps)
  next
    case False
    with 1 have "read_digits (print_nat n) = 10 * (n div 10) + n mod 10"
      by (subst print_nat.simps) simp
    then show ?thesis by simp
  qed
qed

lemma print_nat_inj [simp]: "print_nat m = print_nat n \<longleftrightarrow> m = n"
  by (metis read_print_nat)

lemma print_nat_digits: "list_all is_digit (print_nat n)"
proof (induction n rule: print_nat.induct)
  case (1 n)
  then show ?case by (cases "n < 10") (simp_all add: print_nat.simps [of n])
qed

lemma print_nat_nonempty [simp]: "print_nat n \<noteq> []"
  by (simp add: print_nat.simps [of n])

lemma length_print_nat: "length (print_nat n) \<le> Suc k \<longleftrightarrow> n < 10 ^ Suc k"
proof (induction k arbitrary: n)
  case 0
  show ?case by (simp add: print_nat.simps [of n])
next
  case (Suc k)
  show ?case
  proof (cases "n < 10")
    case True
    then have "n < 10 ^ Suc (Suc k)" by (rule order_less_le_trans) simp
    with True show ?thesis by (simp add: print_nat.simps)
  next
    case False
    with Suc [of "n div 10"] show ?thesis
      by (subst print_nat.simps) (simp add: less_mult_imp_div_less div_less_iff_less_mult mult.commute)
  qed
qed

section \<open>Device names\<close>

lemma device_name_inj:
  assumes "0 \<le> i" and "0 \<le> j"
  shows "BAFS_CTRL_DEVICE_NAME i = BAFS_CTRL_DEVICE_NAME j \<longleftrightarrow> i = j"
    and "BAFS_GROUP_DEVICE_NAME i = BAFS_GROUP_DEVICE_NAME j \<longleftrightarrow> i = j"
    and "BAFS_CTRL_DEVICE_NAME i \<noteq> BAFS_GROUP_DEVICE_NAME j"
  using assms by (auto simp: BAFS_CTRL_DEVICE_NAME_def BAFS_GROUP_DEVICE_NAME_def)

lemma length_group_name:
  assumes "0 \<le> i"
  shows "length (''/dev/'' @ BAFS_GROUP_DEVICE_NAME i) < MAX_NAME_LEN \<longleftrightarrow> i < 10 ^ 9"
  using assms length_print_nat [of "nat i" 8] by (simp add: BAFS_GROUP_DEVICE_NAME_def MAX_NAME_LEN_def nat_less_iff) linarith

text \<open>
  C36. Devices have different names: two controllers or two groups with different ids, and a
  controller and a group, never share a name; and the path of a group device fits the
  buffer of \<open>MAX_NAME_LEN\<close> bytes, with its terminating zero, exactly for ids below 1000000000.
\<close>

theorem device_names_distinct_and_fit:
  assumes "0 \<le> i" and "0 \<le> j"
  shows "(BAFS_CTRL_DEVICE_NAME i = BAFS_CTRL_DEVICE_NAME j \<longleftrightarrow> i = j) \<and>
    (BAFS_GROUP_DEVICE_NAME i = BAFS_GROUP_DEVICE_NAME j \<longleftrightarrow> i = j) \<and>
    BAFS_CTRL_DEVICE_NAME i \<noteq> BAFS_GROUP_DEVICE_NAME j \<and>
    (length (''/dev/'' @ BAFS_GROUP_DEVICE_NAME i) < MAX_NAME_LEN \<longleftrightarrow> i < 1000000000)"
  using device_name_inj [OF assms] length_group_name [OF assms(1)] by simp

theorem device_names_distinct_and_fit_witness:
  "BAFS_CTRL_DEVICE_NAME 3 \<noteq> BAFS_GROUP_DEVICE_NAME 3 \<and> \<not> length (''/dev/'' @ BAFS_GROUP_DEVICE_NAME 1000000000) < MAX_NAME_LEN"
  using device_names_distinct_and_fit [of 3 3] device_names_distinct_and_fit [of 1000000000 3] by simp

end
