(* ===== verification/Bafs_Core.thy ===== *)
theory Bafs_Core
  imports Bafs_Group_File Bafs_Names
begin

text \<open>
  The core device, \<^verbatim>\<open>module/bafs/core.c\<close>: creation and deletion of groups and the file
  operations of the device \<^verbatim>\<open>/dev/bafs\<close>.
\<close>

section \<open>Groups\<close>

text \<open>
  \<open>strncpy_from_user(dst, src, MAX_NAME_LEN)\<close>: the length of the string, or \<open>MAX_NAME_LEN\<close>
  when it does not fit, or an error.
\<close>

definition strncpy_from_user :: "kernel \<Rightarrow> u64 \<Rightarrow> world \<Rightarrow> int \<times> string \<times> world" where
  "strncpy_from_user K src s =
     (let (ok, s) = ask (k_copy K) s; str = u_str (user s) src in
      if \<not> ok then (- EFAULT, [], s)
      else (int (min (length str) MAX_NAME_LEN), take MAX_NAME_LEN str, s))"

fun copy_ctrl_names :: "kernel \<Rightarrow> u64 \<Rightarrow> nat \<Rightarrow> nat \<Rightarrow> string list \<Rightarrow> world \<Rightarrow> int \<times> string list \<times> world" where
  "copy_ctrl_names K src i 0 names s = (0, names, s)"
| "copy_ctrl_names K src i (Suc k) names s =
     (let (ret, name, s) = strncpy_from_user K (src + of_nat (MAX_NAME_LEN * i)) s in
      if ret < 0 then (ret, names, s)
      else if ret \<ge> int MAX_NAME_LEN then (- EINVAL, names, s)
      else copy_ctrl_names K src (Suc i) k (names @ [name]) s)"

text \<open>\<open>bafs_core_create_group\<close>: the part after the names were copied, then the whole.\<close>

definition create_named_group :: "kernel \<Rightarrow> u64 \<Rightarrow> string list \<Rightarrow> world \<Rightarrow> (int \<times> world) option" where
  "create_named_group K dst names s = do {
     (ret, grp, s) \<leftarrow> bafs_group_alloc K names s;
     if ret < 0 then do { s \<leftarrow> release (Buf CtrlNames) s; Some (ret, s) }
     else do {
       g \<leftarrow> grp;
       x \<leftarrow> groups s g;
       let name = ''/dev/'' @ BAFS_GROUP_DEVICE_NAME (group_id x);
       if length name \<ge> MAX_NAME_LEN \<or> length name = 0 then do {
         s \<leftarrow> bafs_put_group g s;
         s \<leftarrow> release (Buf CtrlNames) s;
         Some (- EINVAL, s)
       }
       else do {
         let (ok, s) = ask (k_copy K) s;
         if \<not> ok then do {
           s \<leftarrow> bafs_put_group g s;
           s \<leftarrow> release (Buf CtrlNames) s;
           Some (- EFAULT, s)
         }
         else do {
           let s = s\<lparr>user := (user s)\<lparr>u_str := (u_str (user s))(dst := name)\<rparr>\<rparr>;
           s \<leftarrow> release (Buf CtrlNames) s;
           Some (0, s)
         }
       }
     }
   }"

definition bafs_core_create_group :: "kernel \<Rightarrow> u64 \<Rightarrow> world \<Rightarrow> (int \<times> world) option" where
  "bafs_core_create_group K argp s = do {
     let (ok, s) = ask (k_copy K) s;
     if \<not> ok then Some (- EFAULT, s)
     else do {
       let params = u_create (user s) argp;
       let (ok, s) = ask (k_alloc K) s;
       if \<not> ok then Some (- ENOMEM, s)
       else do {
         let s = acquire (Buf CtrlNames) s;
         let (ret, names, s) = copy_ctrl_names K (cg_ctrls params) 0 (unat (cg_n_ctrls params)) [] s;
         if ret < 0 then do { s \<leftarrow> release (Buf CtrlNames) s; Some (ret, s) }
         else create_named_group K (cg_group_name params) names s
       }
     }
   }"

text \<open>
  \<open>bafs_core_delete_group\<close>. \<open>dev_get_drvdata\<close> returns an untyped pointer, which is taken for a
  group whatever the class of the device is.
\<close>

fun drv_addr :: "drvdata \<Rightarrow> addr" where
  "drv_addr (DrvCtrl c) = c"
| "drv_addr (DrvGroup g) = g"

definition bafs_core_delete_group :: "kernel \<Rightarrow> u64 \<Rightarrow> world \<Rightarrow> (int \<times> world) option" where
  "bafs_core_delete_group K argp s = do {
     let (ok, s) = ask (k_copy K) s;
     if \<not> ok then Some (- EFAULT, s)
     else do {
       let params = u_delete (user s) argp;
       let (ret, name, s) = strncpy_from_user K (dg_group_name params) s;
       if ret < 0 then Some (ret, s)
       else if ret = int MAX_NAME_LEN then Some (- EINVAL, s)
       else case find_child name s of
         None \<Rightarrow> Some (- EINVAL, s)
       | Some ch \<Rightarrow> do {
           let s = acquire (DevRef (ChildDev (ch_minor ch))) s;
           case ch_data ch of
             None \<Rightarrow> do {
               s \<leftarrow> release (DevRef (ChildDev (ch_minor ch))) s;
               Some (- EFAULT, s)
             }
           | Some grp \<Rightarrow> do {
               s \<leftarrow> release (DevRef (ChildDev (ch_minor ch))) s;
               s \<leftarrow> bafs_put_group (drv_addr grp) s;
               Some (ret, s)
             }
         }
     }
   }"

section \<open>File operations of the core device\<close>

definition bafs_core_mmap :: "kernel \<Rightarrow> private_data \<Rightarrow> nat \<Rightarrow> world \<Rightarrow> (int \<times> world) option" where
  "bafs_core_mmap K pd v s =
     (case pd of
        PCore ctx \<Rightarrow> pin_bafs_mem K v ctx s
      | PNull \<Rightarrow> Some (- EFAULT, s)
      | _ \<Rightarrow> None)"

definition bafs_core_ioctl :: "kernel \<Rightarrow> private_data \<Rightarrow> u32 \<Rightarrow> u64 \<Rightarrow> world \<Rightarrow> (int \<times> world) option" where
  "bafs_core_ioctl K pd cmd argp s =
     (if IOC_TYPE cmd \<noteq> BAFS_CORE_IOCTL then Some (- EINVAL, s)
      else if cmd = BAFS_CORE_IOC_REG_MEM then
        (case pd of
           PCore ctx \<Rightarrow> do {
             (ret, s) \<leftarrow> bafs_core_reg_mem K argp ctx s;
             Some (if ret < 0 then ret else 0, s)
           }
         | PNull \<Rightarrow> Some (- EFAULT, s)
         | _ \<Rightarrow> None)
      else if cmd = BAFS_CORE_IOC_CREATE_GROUP then do {
        (ret, s) \<leftarrow> bafs_core_create_group K argp s;
        Some (if ret < 0 then ret else 0, s)
      }
      else if cmd = BAFS_CORE_IOC_DELETE_GROUP then do {
        (ret, s) \<leftarrow> bafs_core_delete_group K argp s;
        Some (if ret < 0 then ret else 0, s)
      }
      else Some (- EINVAL, s))"

text \<open>\<open>bafs_core_release\<close> leaves \<open>file->private_data\<close> as it is.\<close>

definition bafs_core_release :: "private_data \<Rightarrow> world \<Rightarrow> (int \<times> private_data \<times> world) option" where
  "bafs_core_release pd s =
     (case pd of
        PCore ctx \<Rightarrow> do { s \<leftarrow> release_stale ctx s; Some (0, pd, s) }
      | PNull \<Rightarrow> Some (- EINVAL, pd, s)
      | _ \<Rightarrow> None)"

section \<open>Creating a group\<close>

definition user_names :: "world \<Rightarrow> u64 \<Rightarrow> nat \<Rightarrow> nat \<Rightarrow> string list" where
  "user_names s src i n = map (\<lambda>j. u_str (user s) (src + of_nat (MAX_NAME_LEN * j))) [i..<i + n]"

lemma copy_ctrl_names_cases:
  "\<exists>t ret names'. copy_ctrl_names K src i n names s = (ret, names', s\<lparr>now := t\<rparr>) \<and>
     (if ret = 0 then names' = names @ user_names s src i n else ret \<in> {- EFAULT, - EINVAL})"
proof (induction n arbitrary: i names s)
  case 0
  show ?case by (simp add: user_names_def, rule exI [of _ "now s"]) simp
next
  case (Suc n)
  let ?str = "u_str (user s) (src + of_nat (MAX_NAME_LEN * i))" and ?s = "s\<lparr>now := Suc (now s)\<rparr>"
  have cp: "strncpy_from_user K (src + of_nat (MAX_NAME_LEN * i)) s =
      (if k_copy K (now s) then (int (min (length ?str) MAX_NAME_LEN), take MAX_NAME_LEN ?str, ?s) else (- EFAULT, [], ?s))"
    by (simp add: strncpy_from_user_def ask_def Let_def)
  have un: "user_names s src i (Suc n) = ?str # user_names ?s src (Suc i) n"
    by (simp add: user_names_def upt_conv_Cons del: upt_Suc)
  show ?case
  proof (cases "k_copy K (now s) \<and> length ?str < MAX_NAME_LEN")
    case True
    then have step: "copy_ctrl_names K src i (Suc n) names s = copy_ctrl_names K src (Suc i) n (names @ [?str]) ?s"
      unfolding copy_ctrl_names.simps cp by simp
    from Suc [of "Suc i" "names @ [?str]" ?s] obtain t ret names' where
      "copy_ctrl_names K src (Suc i) n (names @ [?str]) ?s = (ret, names', s\<lparr>now := t\<rparr>)"
      "if ret = 0 then names' = (names @ [?str]) @ user_names ?s src (Suc i) n else ret \<in> {- EFAULT, - EINVAL}" by auto
    then show ?thesis
      unfolding step un by - (rule exI [of _ t], rule exI [of _ ret], rule exI [of _ names'], simp split: if_splits)
  next
    case False
    then show ?thesis
      unfolding copy_ctrl_names.simps cp by (auto intro!: exI [of _ "Suc (now s)"])
  qed
qed

text \<open>The state with the copied names, in which the group is made.\<close>

definition with_names :: "nat \<Rightarrow> world \<Rightarrow> world" where
  "with_names t s = s\<lparr>now := t, res := (res s)(Buf CtrlNames := Suc (res s (Buf CtrlNames)))\<rparr>"

lemma with_names_simps [simp]:
  "fresh (with_names t s) = fresh s" "ctrl_children (with_names t s) = ctrl_children s"
  "names_ctrls (with_names t s) names = names_ctrls s names" "members (with_names t s) names = members s names"
  "odd_one names (with_names t s) = odd_one names s" "children_ok (with_names t s) = children_ok s"
  "next_addr (with_names t s) = next_addr s" "group_ida (with_names t s) = group_ida s" "minor_ida (with_names t s) = minor_ida s"
  "ctrls_live (with_names t s) cs = ctrls_live s cs" "user (with_names t s) = user s"
proof -
  have fc: "find_child nm (with_names t s) = find_child nm s" for nm by (simp add: find_child_def with_names_def)
  show "odd_one names (with_names t s) = odd_one names s"
    by (induction names) (simp_all add: fc split: option.split)
  show "names_ctrls (with_names t s) names = names_ctrls s names" "members (with_names t s) names = members s names"
    by (simp_all add: names_ctrls_def members_def fc)
qed (auto simp: with_names_def fresh_def ctrl_children_def children_ok_def ctrls_live_def)

lemma release_names:
  "restored (with_names t s) s' \<Longrightarrow> \<exists>s''. release (Buf CtrlNames) s' = Some s'' \<and> restored s s''"
proof -
  assume r: "restored (with_names t s) s'"
  define n a where "n = now s'" and "a = next_addr s'"
  from r have "s' = (with_names t s)\<lparr>now := n, next_addr := a\<rparr>" unfolding restored_def n_def a_def .
  then show ?thesis by (simp add: with_names_def release_def restored_def)
qed

lemma release_names_refs:
  "restored (with_refs chs (with_names t s)) s' \<Longrightarrow> \<exists>s''. release (Buf CtrlNames) s' = Some s'' \<and> restored (with_refs chs s) s''"
proof -
  have "with_refs chs (with_names t s) = with_names t (with_refs chs s)"
    by (auto simp: with_refs_def with_names_def intro!: world.equality)
  then show "restored (with_refs chs (with_names t s)) s' \<Longrightarrow> ?thesis" using release_names by simp
qed

lemma release_names_created:
  "release (Buf CtrlNames) ((group_created gid mn cs (with_names t s))\<lparr>now := n, user := u\<rparr>) =
     Some ((group_created gid mn cs s)\<lparr>now := n, user := u\<rparr>)"
  by (auto simp: group_created_def with_names_def release_def Let_def intro!: world.equality)

text \<open>What a successful creation leaves, with the path of the group written at \<open>dst\<close>.\<close>

definition created_result :: "u64 \<Rightarrow> string list \<Rightarrow> world \<Rightarrow> int \<Rightarrow> world \<Rightarrow> bool" where
  "created_result dst names s ret s' \<longleftrightarrow>
     (if ret = 0 then names_ctrls s names \<and> (\<exists>gid mn t. 0 \<le> gid \<and> gid < 10 ^ 9 \<and> 0 \<le> mn \<and> nat gid \<notin> group_ida s \<and>
        nat mn \<notin> minor_ida s \<and> s' = (group_created gid mn (members s names) s)\<lparr>now := t,
          user := (user s)\<lparr>u_str := (u_str (user s))(dst := ''/dev/'' @ BAFS_GROUP_DEVICE_NAME gid)\<rparr>\<rparr>)
      else ret < 0 \<and> (restored s s' \<or> ret = - EINVAL \<and> restored (with_refs (odd_one names s) s) s'))"

lemma create_named_group_cases:
  assumes fresh: "fresh s" and ida: "ida_ok K" and chs: "ctrl_children s" "children_ok s"
  shows "yields (create_named_group K dst names (with_names t s)) (\<lambda>(ret, s'). created_result dst names s ret s')"
proof -
  let ?s = "with_names t s"
  have pre: "fresh ?s" "ctrl_children ?s" "children_ok ?s" using assms by simp_all
  show ?thesis
    unfolding create_named_group_def yields_bind
  proof (rule yields_mono [OF bafs_group_alloc_cases [OF pre(1) ida pre(2), of names]], clarify, goal_cases)
    case (1 ret grp s')
    show ?case
    proof (cases "ret = 0")
      case False
      with 1 have "ret < 0" and "restored ?s s' \<or> ret = - EINVAL \<and> restored (with_refs (odd_one names s) ?s) s'"
        by (auto split: if_splits)
      with release_names [of t s s'] release_names_refs [of "odd_one names s" t s s'] show ?thesis by (auto simp: created_result_def)
    next
      case True
      obtain n where n: "now s' = n" by blast
      from True 1 obtain gid mn where nc: "names_ctrls s names" and g: "grp = Some (next_addr s)"
        and num: "0 \<le> gid" "nat gid \<notin> group_ida ?s" "0 \<le> mn" "nat mn \<notin> minor_ida ?s"
        and s': "s' = (group_created gid mn (members s names) ?s)\<lparr>now := n\<rparr>"
        by (auto simp: n)
      have "ctrls_live ?s (members s names)"
        using names_ctrls_live [OF chs(1) nc] by (auto simp: ctrls_live_def members_def with_names_def)
      note put = group_created_put [OF pre(1,3) this num, unfolded with_names_simps(7)]
      have x: "groups s' (next_addr s) = Some \<lparr>group_id = gid, group_minor = mn, group_ctrls = members s names\<rparr>"
        "user s' = user s" by (simp_all add: s' group_created_def Let_def)
      have rel: "release (Buf CtrlNames) (?s\<lparr>now := k, next_addr := Suc (next_addr s)\<rparr>) = Some (s\<lparr>now := k, next_addr := Suc (next_addr s)\<rparr>)" for k
        by (simp add: with_names_def release_def)
      have undone: "restored s (s\<lparr>now := k, next_addr := Suc (next_addr s)\<rparr>)" for k by (simp add: restored_def)
      have ok: "created_result dst names s 0 ((group_created gid mn (members s names) s)\<lparr>now := Suc n,
          user := (user s)\<lparr>u_str := (u_str (user s))(dst := ''/dev/'' @ BAFS_GROUP_DEVICE_NAME gid)\<rparr>\<rparr>)" if "gid < 10 ^ 9"
        using that nc num unfolding created_result_def by auto
      show ?thesis
      proof (cases "gid < 10 ^ 9")
        case False
        with length_group_name [OF num(1)] have "MAX_NAME_LEN \<le> length (''/dev/'' @ BAFS_GROUP_DEVICE_NAME gid)" by linarith
        then show ?thesis using True x(1) put [of n] rel undone by (simp add: g s' created_result_def)
      next
        case fits: True
        with length_group_name [OF num(1)] have "\<not> MAX_NAME_LEN \<le> length (''/dev/'' @ BAFS_GROUP_DEVICE_NAME gid)" by linarith
        then show ?thesis
          using True x put [of "Suc n"] rel undone ok [OF fits] release_names_created [where gid = gid and mn = mn and cs = "members s names" and t = t and s = s and n = "Suc n"]
          by (simp add: g s' ask_def Let_def created_result_def [of _ _ _ "- EFAULT"])
      qed
    qed
  qed
qed

lemma with_names_now: "(with_names t s)\<lparr>now := n\<rparr> = with_names n s" "user_names (with_names t s) = user_names s"
  by (simp_all add: with_names_def user_names_def fun_eq_iff)

lemma create_group_cases:
  assumes "fresh s" and "ida_ok K" and "ctrl_children s" and "children_ok s" and prm: "prm = u_create (user s) argp"
  shows "yields (bafs_core_create_group K argp s) (\<lambda>(ret, s').
    created_result (cg_group_name prm) (user_names s (cg_ctrls prm) 0 (unat (cg_n_ctrls prm))) s ret s')"
proof (cases "k_copy K (now s) \<and> k_alloc K (now s + 1)")
  case False
  then show ?thesis
    by (auto simp: bafs_core_create_group_def ask_def created_result_def restored_def Let_def)
next
  case True
  let ?s = "with_names (now s + 2) s" and ?names = "user_names s (cg_ctrls prm) 0 (unat (cg_n_ctrls prm))"
  obtain t ret names where cp: "copy_ctrl_names K (cg_ctrls prm) 0 (unat (cg_n_ctrls prm)) [] ?s = (ret, names, with_names t s)"
    and ret: "if ret = 0 then names = ?names else ret \<in> {- EFAULT, - EINVAL}"
    using copy_ctrl_names_cases [of K "cg_ctrls prm" 0 "unat (cg_n_ctrls prm)" "[]" ?s] unfolding with_names_now append_Nil by blast
  have eq: "bafs_core_create_group K argp s =
      (if ret < 0 then do { s \<leftarrow> release (Buf CtrlNames) (with_names t s); Some (ret, s) }
       else create_named_group K (cg_group_name prm) names (with_names t s))"
    using True cp unfolding prm by (simp add: bafs_core_create_group_def ask_def acquire_def with_names_def Let_def)
  show ?thesis
  proof (cases "ret = 0")
    case True
    with create_named_group_cases [OF assms(1-4)] ret show ?thesis unfolding eq by simp
  next
    case False
    have "restored (with_names t s) (with_names t s)" by simp
    from release_names [OF this] False ret show ?thesis
      unfolding eq by (auto simp: created_result_def)
  qed
qed

text \<open>
  C37. Creating a group through the core device: on success the group of the named controllers
  exists and the user's buffer holds its path \<open>/dev/bafsg<id>\<close>, which fits the buffer; every
  failure (a bad pointer, a name that is too long or unknown, any step of the
  construction, a path that does not fit) leaves neither the group nor the copied names
  behind; at most the reference on a device of another class stays.
\<close>

theorem create_group_spec:
  assumes "fresh s" and "ida_ok K" and "ctrl_children s" and "children_ok s" and "prm = u_create (user s) argp"
    and "names = user_names s (cg_ctrls prm) 0 (unat (cg_n_ctrls prm))"
  shows "yields (bafs_core_create_group K argp s) (\<lambda>(ret, s').
    if ret = 0 then names_ctrls s names \<and> (\<exists>gid mn t. 0 \<le> gid \<and> gid < 10 ^ 9 \<and> 0 \<le> mn \<and> nat gid \<notin> group_ida s \<and>
        nat mn \<notin> minor_ida s \<and> s' = (group_created gid mn (members s names) s)\<lparr>now := t,
          user := (user s)\<lparr>u_str := (u_str (user s))(cg_group_name prm := ''/dev/'' @ BAFS_GROUP_DEVICE_NAME gid)\<rparr>\<rparr>)
    else ret < 0 \<and> (restored s s' \<or> ret = - EINVAL \<and> restored (with_refs (odd_one names s) s) s'))"
  using create_group_cases [OF assms(1-5)] unfolding created_result_def assms(6) .

lemma demo_names:
  "user_names demo_group_world (cg_ctrls (u_create (user demo_group_world) 0x400)) 0
     (unat (cg_n_ctrls (u_create (user demo_group_world) 0x400))) = [''bafsc0'']"
  "cg_group_name (u_create (user demo_group_world) 0x400) = 0x200" "user demo_group_world = demo_user"
  by (simp_all add: user_names_def demo_group_world_def ctrl_created_def empty_world_def demo_user_def Let_def)

theorem create_group_spec_witness:
  "yields (bafs_core_create_group demo_kernel 0x400 demo_group_world) (\<lambda>(ret, s').
     if ret = 0 then take 10 (u_str (user s') 0x200) = ''/dev/bafsg'' else ret < 0)"
  by (rule yields_mono [OF create_group_spec [OF demo_group_world_ok(1) demo_kernel_ok(2) demo_group_world_ok(2,3) refl refl,
      where argp = "0x400"]]) (auto simp: demo_names(3) demo_user_def BAFS_GROUP_DEVICE_NAME_def split: if_splits)

section \<open>Deleting a group\<close>

lemma delete_group_eq:
  assumes nm: "nm = u_str (user s) (dg_group_name (u_delete (user s) argp))" "length nm < MAX_NAME_LEN"
    and ch: "find_child nm s = Some ch" "ch_data ch = Some (DrvGroup g)"
  shows "bafs_core_delete_group K argp s =
    (if \<not> k_copy K (now s) then Some (- EFAULT, s\<lparr>now := now s + 1\<rparr>)
     else if \<not> k_copy K (now s + 1) then Some (- EFAULT, s\<lparr>now := now s + 2\<rparr>)
     else do { s \<leftarrow> bafs_put_group g (s\<lparr>now := now s + 2\<rparr>); Some (int (length nm), s) })"
proof -
  have fc: "find_child nm (s\<lparr>now := t\<rparr>) = Some ch" for t using ch(1) by (simp add: find_child_def)
  from nm ch(2) fc show ?thesis
    by (simp add: bafs_core_delete_group_def strncpy_from_user_def ask_def acquire_def release_def Let_def fun_upd_idem)
qed

text \<open>
  The names of the child devices are those the driver gives: controllers by their id, groups
  by an id that is in use.
\<close>

definition child_names_ok :: "world \<Rightarrow> bool" where
  "child_names_ok s \<longleftrightarrow> (\<forall>ch \<in> set (children s). (\<exists>i \<ge> 0. ch_name ch = BAFS_CTRL_DEVICE_NAME i) \<or>
     (\<exists>i \<ge> 0. nat i \<in> group_ida s \<and> ch_name ch = BAFS_GROUP_DEVICE_NAME i))"

lemma find_new_group:
  assumes "child_names_ok s" and "0 \<le> gid" and "nat gid \<notin> group_ida s"
  shows "find_child (BAFS_GROUP_DEVICE_NAME gid) ((group_created gid mn cs s)\<lparr>now := t, krefs := k, user := u\<rparr>) =
    Some \<lparr>ch_minor = mn, ch_name = BAFS_GROUP_DEVICE_NAME gid, ch_class = BAFS_GROUP_CLASS_NAME,
      ch_data = Some (DrvGroup (next_addr s))\<rparr>"
proof -
  have "ch_name ch \<noteq> BAFS_GROUP_DEVICE_NAME gid" if "ch \<in> set (children s)" for ch
    using that assms device_name_inj unfolding child_names_ok_def by metis
  then have "List.find (\<lambda>ch. ch_name ch = BAFS_GROUP_DEVICE_NAME gid) (children s) = None"
    by (simp add: find_None_iff)
  moreover have "List.find P (xs @ ys) = (case List.find P xs of None \<Rightarrow> List.find P ys | Some x \<Rightarrow> Some x)"
    for P and xs ys :: "child list" by (induction xs) simp_all
  ultimately show ?thesis by (simp add: find_child_def group_created_def Let_def)
qed

lemma core_codes [simp]:
  "IOC_TYPE BAFS_CORE_IOC_CREATE_GROUP = BAFS_CORE_IOCTL" "IOC_TYPE BAFS_CORE_IOC_DELETE_GROUP = BAFS_CORE_IOCTL"
  "BAFS_CORE_IOC_CREATE_GROUP \<noteq> BAFS_CORE_IOC_REG_MEM" "BAFS_CORE_IOC_DELETE_GROUP \<noteq> BAFS_CORE_IOC_REG_MEM"
  "BAFS_CORE_IOC_DELETE_GROUP \<noteq> BAFS_CORE_IOC_CREATE_GROUP"
  by (simp_all add: IOC_TYPE_def command_defs)

lemma delete_ioctl_eq:
  assumes "u_str u (dg_group_name (u_delete u argp)) = BAFS_GROUP_DEVICE_NAME gid" "0 \<le> gid" "gid < 10 ^ 9"
    and "child_names_ok s" and "nat gid \<notin> group_ida s"
    and s': "s' = (group_created gid mn cs s)\<lparr>now := t, krefs := k, user := u\<rparr>"
  shows "bafs_core_ioctl K pd BAFS_CORE_IOC_DELETE_GROUP argp s' =
    (if k_copy K t \<and> k_copy K (t + 1) then do { s \<leftarrow> bafs_put_group (next_addr s) (s'\<lparr>now := t + 2\<rparr>); Some (0, s) }
     else Some (- EFAULT, s'\<lparr>now := if k_copy K t then t + 2 else t + 1\<rparr>))"
proof -
  have len: "length (BAFS_GROUP_DEVICE_NAME gid) < MAX_NAME_LEN"
    using length_group_name [OF assms(2)] assms(3) by simp
  have u: "user s' = u" "now s' = t" by (simp_all add: s')
  have find: "find_child (BAFS_GROUP_DEVICE_NAME gid) s' = Some \<lparr>ch_minor = mn, ch_name = BAFS_GROUP_DEVICE_NAME gid,
      ch_class = BAFS_GROUP_CLASS_NAME, ch_data = Some (DrvGroup (next_addr s))\<rparr>"
    unfolding s' by (rule find_new_group [OF assms(4,2,5)])
  note eq = delete_group_eq [where s = s' and argp = argp and K = K and nm = "BAFS_GROUP_DEVICE_NAME gid",
      OF _ len find, unfolded u, OF assms(1) [symmetric]]
  have "int (length (BAFS_GROUP_DEVICE_NAME gid)) \<ge> 0" by simp
  with eq show ?thesis
    by (simp add: bafs_core_ioctl_def)
qed

lemma group_created_put_user:
  assumes "fresh s" and "children_ok s" and "ctrls_live s cs"
    and "0 \<le> gid" "nat gid \<notin> group_ida s" "0 \<le> mn" "nat mn \<notin> minor_ida s"
  shows "bafs_put_group (next_addr s) ((group_created gid mn cs s)\<lparr>user := u, now := n\<rparr>) =
    Some (s\<lparr>now := n, next_addr := Suc (next_addr s), user := u\<rparr>)"
proof -
  let ?s = "s\<lparr>user := u\<rparr>"
  have "fresh ?s" "children_ok ?s" "ctrls_live ?s cs" "nat gid \<notin> group_ida ?s" "nat mn \<notin> minor_ida ?s"
    using assms by (simp_all add: fresh_def children_ok_def ctrls_live_def)
  moreover have "(group_created gid mn cs ?s)\<lparr>now := n\<rparr> = (group_created gid mn cs s)\<lparr>user := u, now := n\<rparr>"
    by (simp add: group_created_def Let_def)
  ultimately show ?thesis
    using group_created_put [of ?s cs gid mn n] assms(4,6) by simp
qed

text \<open>
  Creating a group through the core device and deleting it by the name of its device (the path
  that was returned, without its directory) leaves the world as it was, but for user memory.
\<close>

lemma create_delete_roundtrip:
  assumes fresh: "fresh s" and ida: "ida_ok K" and chs: "ctrl_children s" "children_ok s" "child_names_ok s"
    and create: "bafs_core_ioctl K pd BAFS_CORE_IOC_CREATE_GROUP argp s = Some (0, s')"
    and path: "path = u_str (user s') (cg_group_name (u_create (user s) argp))"
    and name: "u_str u (dg_group_name (u_delete u argp')) = drop 5 path"
  shows "yields (bafs_core_ioctl K pd BAFS_CORE_IOC_DELETE_GROUP argp' (s'\<lparr>user := u\<rparr>)) (\<lambda>(ret, s'').
    if ret = 0 then restored s (s''\<lparr>user := user s\<rparr>) else ret = - EFAULT \<and> restored (s'\<lparr>user := u\<rparr>) s'')"
proof -
  let ?prm = "u_create (user s) argp" and ?names = "user_names s (cg_ctrls (u_create (user s) argp)) 0 (unat (cg_n_ctrls (u_create (user s) argp)))"
  from create obtain ret where "bafs_core_create_group K argp s = Some (ret, s')" and ret: "ret \<ge> 0"
    by (auto simp: bafs_core_ioctl_def elim!: bind_SomeE split: if_splits)
  with create_group_cases [OF fresh ida chs(1,2) refl, of argp] have "created_result (cg_group_name ?prm) ?names s ret s'" by simp
  with ret obtain gid mn t where nc: "names_ctrls s ?names" and gid: "0 \<le> gid" "gid < 10 ^ 9" "nat gid \<notin> group_ida s"
    and mn: "0 \<le> mn" "nat mn \<notin> minor_ida s"
    and s': "s' = (group_created gid mn (members s ?names) s)\<lparr>now := t,
          user := (user s)\<lparr>u_str := (u_str (user s))(cg_group_name ?prm := ''/dev/'' @ BAFS_GROUP_DEVICE_NAME gid)\<rparr>\<rparr>"
    unfolding created_result_def by (auto split: if_splits)
  let ?G = "group_created gid mn (members s ?names) s"
  have "path = ''/dev/'' @ BAFS_GROUP_DEVICE_NAME gid" unfolding path s' by simp
  with name have nm: "u_str u (dg_group_name (u_delete u argp')) = BAFS_GROUP_DEVICE_NAME gid" by simp
  have s2: "s'\<lparr>user := u\<rparr> = ?G\<lparr>now := t, krefs := krefs ?G, user := u\<rparr>" unfolding s' by simp
  have "ctrls_live s (members s ?names)"
    using names_ctrls_live [OF chs(1) nc] by (auto simp: ctrls_live_def members_def)
  from group_created_put_user [OF fresh chs(2) this gid(1,3) mn, where n = "t + 2" and u = u] show ?thesis
    unfolding delete_ioctl_eq [OF nm gid(1,2) chs(3) gid(3) s2]
    by (simp add: s2 restored_def)
qed

lemma demo_child_names: "child_names_ok demo_group_world"
  by (auto simp: child_names_ok_def demo_group_world_def ctrl_created_def empty_world_def Let_def intro: exI [of _ 0])

text \<open>
  C38. Deleting takes a reference that belongs to nobody: the group stays visible while a file is open
  on it, so a second deletion by name succeeds as well, takes the reference of the open
  file, and frees the group; the next operation on the file uses freed memory.
\<close>

theorem delete_twice_frees_open_group:
  assumes fresh: "fresh s" and chs: "children_ok s" "child_names_ok s" and live: "ctrls_live s cs"
    and gid: "0 \<le> gid" "gid < 10 ^ 9" "nat gid \<notin> group_ida s" and mn: "0 \<le> mn" "nat mn \<notin> minor_ida s"
    and copy: "\<And>n. k_copy K n"
    and g: "g = next_addr s" "u_str (user s) (dg_group_name (u_delete (user s) argp)) = BAFS_GROUP_DEVICE_NAME gid"
    and s1: "bafs_get_group g ((group_created gid mn cs s)\<lparr>now := t\<rparr>) = Some s1"
  shows "yields (bafs_core_ioctl K pd BAFS_CORE_IOC_DELETE_GROUP argp s1) (\<lambda>(ret, s2). ret = 0 \<and>
    yields (bafs_core_ioctl K pd BAFS_CORE_IOC_DELETE_GROUP argp s2) (\<lambda>(ret', s3).
      ret' = 0 \<and> groups s3 g = None \<and> bafs_group_ioctl K (PGroup g ctx) cmd argp' s3 = None))"
proof -
  let ?G = "group_created gid mn cs s" and ?kg = "KGroup (next_addr s)"
  have G: "user ?G = user s" "krefs ?G ?kg = 1" "groups ?G (next_addr s) \<noteq> None" by (simp_all add: group_created_def Let_def)
  have s1': "s1 = ?G\<lparr>now := t, krefs := (krefs ?G)(?kg := 2), user := user s\<rparr>"
    using s1 G(2,3) by (auto simp: g(1) bafs_get_group_live G(1) [symmetric] numeral_2_eq_2)
  have s2': "?G\<lparr>now := t + 2\<rparr> = ?G\<lparr>now := t + 2, krefs := krefs ?G, user := user s\<rparr>" by (simp add: G(1) [symmetric])
  have id: "(krefs ?G)(?kg := 1) = krefs ?G" using G(2) by (simp add: fun_upd_idem)
  have one: "bafs_core_ioctl K pd BAFS_CORE_IOC_DELETE_GROUP argp s1 = Some (0, ?G\<lparr>now := t + 2\<rparr>)"
    unfolding delete_ioctl_eq [OF g(2) gid(1,2) chs(2) gid(3) s1'] using copy G id
    by (simp add: s1' bafs_put_group_shared)
  have two: "bafs_core_ioctl K pd BAFS_CORE_IOC_DELETE_GROUP argp (?G\<lparr>now := t + 2\<rparr>) =
      Some (0, s\<lparr>now := t + 4, next_addr := Suc (next_addr s)\<rparr>)"
    unfolding delete_ioctl_eq [OF g(2) gid(1,2) chs(2) gid(3) s2']
    using copy group_created_put [OF fresh chs(1) live gid(1,3) mn, of "t + 4"] by (simp add: eval_nat_numeral)
  show ?thesis
    unfolding one yields_Some case_prod_conv two
    using freshD(5) [OF fresh order_refl] by (simp add: g(1) bafs_group_ioctl_def bafs_get_group_def)
qed

theorem delete_twice_frees_open_group_witness:
  "\<exists>s1. bafs_get_group 2 ((group_created 0 1 [1] demo_group_world)\<lparr>now := 20\<rparr>) = Some s1 \<and>
     yields (bafs_core_ioctl demo_kernel (PCore 9) BAFS_CORE_IOC_DELETE_GROUP 0x500 s1) (\<lambda>(ret, s2). ret = 0 \<and>
       yields (bafs_core_ioctl demo_kernel (PCore 9) BAFS_CORE_IOC_DELETE_GROUP 0x500 s2) (\<lambda>(ret', s3). ret' = 0 \<and> groups s3 2 = None \<and>
         bafs_group_ioctl demo_kernel (PGroup 2 9) BAFS_GROUP_IOC_REG_MEM 0 s3 = None))"
proof -
  have w: "next_addr demo_group_world = 2" "group_ida demo_group_world = {}" "minor_ida demo_group_world = {0}"
    "ctrls_live demo_group_world [1]" "\<And>n. k_copy demo_kernel n"
    by (simp_all add: demo_group_world_def ctrl_created_def empty_world_def Let_def ctrls_live_def demo_kernel_def)
  have nm: "u_str (user demo_group_world) (dg_group_name (u_delete (user demo_group_world) 0x500)) = BAFS_GROUP_DEVICE_NAME 0"
    by (simp add: demo_names(3) demo_user_def BAFS_GROUP_DEVICE_NAME_def print_zero)
  obtain s1 where s1: "bafs_get_group 2 ((group_created 0 1 [1] demo_group_world)\<lparr>now := 20\<rparr>) = Some s1"
    by (simp add: bafs_get_group_live group_created_def Let_def w(1))
  from delete_twice_frees_open_group [OF demo_group_world_ok(1,3) demo_child_names w(4) _ _ _ _ _ w(5) w(1) [symmetric] nm s1, of "PCore 9" 9 BAFS_GROUP_IOC_REG_MEM 0] s1
  show ?thesis by (simp add: w(2,3))
qed

end
