(* ===== verification/Bafs_Module.thy ===== *)
theory Bafs_Module
  imports Bafs_Core
begin

text \<open>
  The module itself: PCI probe and remove, loading and unloading (\<^verbatim>\<open>module/bafs/core.c\<close>, with
  the class constructors of \<^verbatim>\<open>ctrl.c\<close> and \<^verbatim>\<open>group.c\<close>).
\<close>

section \<open>PCI driver\<close>

definition bafs_ctrl_pci_probe :: "kernel \<Rightarrow> nat \<Rightarrow> world \<Rightarrow> (int \<times> world) option" where
  "bafs_ctrl_pci_probe K p s = do {
     (ret, c, s) \<leftarrow> bafs_ctrl_alloc K p s;
     Some (ret, s)
   }"

definition bafs_ctrl_pci_remove :: "nat \<Rightarrow> world \<Rightarrow> world option" where
  "bafs_ctrl_pci_remove p s = do {
     c \<leftarrow> pci_drvdata s p;
     bafs_ctrl_release c s
   }"

text \<open>
  The PCI core: registering the driver probes every device \<open>ps\<close> that is present, and a device
  whose probe fails stays unbound; unregistering it removes the devices that are bound and
  clears their driver data.
\<close>

fun probe_all :: "kernel \<Rightarrow> nat list \<Rightarrow> world \<Rightarrow> world option" where
  "probe_all K [] s = Some s"
| "probe_all K (p # ps) s = do { (ret, s) \<leftarrow> bafs_ctrl_pci_probe K p s; probe_all K ps s }"

fun remove_all :: "nat list \<Rightarrow> world \<Rightarrow> world option" where
  "remove_all [] s = Some s"
| "remove_all (p # ps) s =
     (if pci_drvdata s p = None then remove_all ps s
      else do {
        s \<leftarrow> bafs_ctrl_pci_remove p s;
        remove_all ps (s\<lparr>pci_drvdata := (pci_drvdata s)(p := None)\<rparr>)
      })"

definition pci_register_driver :: "kernel \<Rightarrow> nat list \<Rightarrow> world \<Rightarrow> (int \<times> world) option" where
  "pci_register_driver K ps s = do {
     let (ret, s) = ask (k_ret K PciRegisterDriver) s;
     if ret < 0 then Some (ret, s)
     else do { s \<leftarrow> probe_all K ps (acquire PciDriver s); Some (ret, s) }
   }"

definition pci_unregister_driver :: "nat list \<Rightarrow> world \<Rightarrow> world option" where
  "pci_unregister_driver ps s = do { s \<leftarrow> remove_all ps s; release PciDriver s }"

section \<open>Loading and unloading the module\<close>

definition class_create :: "kernel \<Rightarrow> string \<Rightarrow> world \<Rightarrow> int \<times> world" where
  "class_create K name s =
     (let (ret, s) = ask (k_ret K ClassCreate) s in
      (ret, if ret < 0 then s else acquire (ClassObj name) s))"

definition bafs_ctrl_init :: "kernel \<Rightarrow> world \<Rightarrow> int \<times> world" where
  "bafs_ctrl_init K s = class_create K BAFS_CTRL_CLASS_NAME s"

text \<open>The pointer to the controller class is null exactly when the class does not exist.\<close>

definition bafs_ctrl_fini :: "world \<Rightarrow> world option" where
  "bafs_ctrl_fini s =
     (if res s (ClassObj BAFS_CTRL_CLASS_NAME) = 0 then Some s
      else release (ClassObj BAFS_CTRL_CLASS_NAME) s)"

definition bafs_group_init :: "kernel \<Rightarrow> world \<Rightarrow> int \<times> world" where
  "bafs_group_init K s = class_create K BAFS_GROUP_CLASS_NAME s"

definition bafs_group_fini :: "world \<Rightarrow> world option" where
  "bafs_group_fini s = release (ClassObj BAFS_GROUP_CLASS_NAME) s"

definition init_out_destroy_core_class :: "world \<Rightarrow> world option" where
  "init_out_destroy_core_class s = do {
     s \<leftarrow> release (ClassObj BAFS_CORE_CLASS_NAME) s;
     release ChrdevRegion s
   }"

definition init_out_ctrl_fini :: "world \<Rightarrow> world option" where
  "init_out_ctrl_fini s = do { s \<leftarrow> bafs_ctrl_fini s; init_out_destroy_core_class s }"

definition init_out_group_fini :: "world \<Rightarrow> world option" where
  "init_out_group_fini s = do { s \<leftarrow> bafs_group_fini s; init_out_ctrl_fini s }"

text \<open>
  \<open>cdev_del\<close> of the core device: it also removes a device that \<open>cdev_add\<close> did not add,
  which the kernel tolerates.
\<close>

definition cdev_del_core :: "world \<Rightarrow> world" where
  "cdev_del_core s = clear_flag (Cdev (core_minor s)) s"

definition init_out_delete_core_cdev :: "world \<Rightarrow> world option" where
  "init_out_delete_core_cdev s = init_out_group_fini (cdev_del_core s)"

definition init_out_destroy_device :: "world \<Rightarrow> world option" where
  "init_out_destroy_device s = do {
     s \<leftarrow> release (DevNode (core_minor s)) s;
     init_out_delete_core_cdev s
   }"

definition init_fails :: "int \<Rightarrow> world option \<Rightarrow> (int \<times> world) option" where
  "init_fails ret k = do { s \<leftarrow> k; Some (ret, s) }"

text \<open>\<open>bafs_init\<close>: the part that makes the core device, then the whole.\<close>

definition init_core_device :: "kernel \<Rightarrow> nat list \<Rightarrow> world \<Rightarrow> (int \<times> world) option" where
  "init_core_device K ps s = do {
     let (ret, s) = bafs_get_minor_number K s;
     if ret < 0 then init_fails ret (init_out_group_fini s)
     else do {
       let s = s\<lparr>core_minor := ret\<rparr>;
       let (ret, s) = ask (k_ret K CdevAdd) s;
       if ret < 0 then init_fails ret (init_out_delete_core_cdev s)
       else do {
         let s = set_flag (Cdev (core_minor s)) s;
         let (ret, s) = ask (k_ret K DeviceCreate) s;
         if ret < 0 then init_fails ret (init_out_delete_core_cdev s)
         else do {
           let s = acquire (DevNode (core_minor s)) s;
           (ret, s) \<leftarrow> pci_register_driver K ps s;
           if ret < 0 then init_fails ret (init_out_destroy_device s)
           else Some (ret, s\<lparr>global_ctx_xa := Map.empty\<rparr>)
         }
       }
     }
   }"

definition bafs_init :: "kernel \<Rightarrow> nat list \<Rightarrow> world \<Rightarrow> (int \<times> world) option" where
  "bafs_init K ps s = do {
     let (ret, s) = ask (k_ret K AllocChrdevRegion) s;
     if ret < 0 then Some (ret, s)
     else do {
       let s = acquire ChrdevRegion s;
       let (ret, s) = class_create K BAFS_CORE_CLASS_NAME s;
       if ret < 0 then init_fails ret (release ChrdevRegion s)
       else do {
         let (ret, s) = bafs_ctrl_init K s;
         if ret < 0 then init_fails ret (init_out_destroy_core_class s)
         else do {
           let (ret, s) = bafs_group_init K s;
           if ret < 0 then init_fails ret (init_out_ctrl_fini s)
           else init_core_device K ps s
         }
       }
     }
   }"

definition bafs_exit :: "nat list \<Rightarrow> world \<Rightarrow> world option" where
  "bafs_exit ps s = do {
     s \<leftarrow> pci_unregister_driver ps s;
     s \<leftarrow> release (DevNode (core_minor s)) s;
     let s = cdev_del_core s;
     s \<leftarrow> bafs_group_fini s;
     s \<leftarrow> bafs_ctrl_fini s;
     s \<leftarrow> release (ClassObj BAFS_CORE_CLASS_NAME) s;
     s \<leftarrow> release ChrdevRegion s;
     let s = s\<lparr>global_ctx_xa := Map.empty\<rparr>;
     bafs_put_minor_number (core_minor s) s
   }"

section \<open>Several controllers\<close>

text \<open>
  The state with a list of new controllers, each an address with its object, over the state
  \<open>s\<close> before they were probed. \<open>bound\<close> are the devices whose driver data is set.
\<close>

definition ctrl_owns :: "bafs_ctrl \<Rightarrow> resource list" where
  "ctrl_owns x = [DevRef (PciDev (pdev x)), PciMaster (pdev x), PciRegion (pdev x), PciEnabled (pdev x),
     Cdev (ctrl_minor x), DevRef CoreDev, DevNode (ctrl_minor x)]"

definition ctrl_child :: "addr \<times> bafs_ctrl \<Rightarrow> child" where
  "ctrl_child = (\<lambda>(c, x). \<lparr>ch_minor = ctrl_minor x, ch_name = BAFS_CTRL_DEVICE_NAME (ctrl_id x),
     ch_class = BAFS_CTRL_CLASS_NAME, ch_data = Some (DrvCtrl c)\<rparr>)"

definition with_ctrls :: "(addr \<times> bafs_ctrl) list \<Rightarrow> nat \<Rightarrow> addr \<Rightarrow> world \<Rightarrow> world" where
  "with_ctrls L t a s = s\<lparr>now := t, next_addr := a, ctrls := ctrls s ++ map_of L,
     krefs := (\<lambda>k. krefs s k + ctrl_refs (map fst L) k),
     res := (\<lambda>r. res s r + count_list (concat (map (ctrl_owns \<circ> snd) L)) r),
     minor_ida := minor_ida s \<union> (nat \<circ> ctrl_minor \<circ> snd) ` set L,
     ctrl_ida := ctrl_ida s \<union> (nat \<circ> ctrl_id \<circ> snd) ` set L,
     children := children s @ map ctrl_child L,
     pci_drvdata := pci_drvdata s ++ map_of (map (\<lambda>(c, x). (pdev x, c)) L)\<rparr>"

text \<open>Addresses, PCI devices and numbers of the new controllers differ from each other and from those in use.\<close>

definition ctrls_new :: "(addr \<times> bafs_ctrl) list \<Rightarrow> addr \<Rightarrow> world \<Rightarrow> bool" where
  "ctrls_new L a s \<longleftrightarrow> fresh s \<and> distinct (map fst L) \<and> distinct (map (pdev \<circ> snd) L) \<and>
     distinct (map (nat \<circ> ctrl_minor \<circ> snd) L) \<and> distinct (map (nat \<circ> ctrl_id \<circ> snd) L) \<and> next_addr s \<le> a \<and>
     (\<forall>(c, x) \<in> set L. next_addr s \<le> c \<and> c < a \<and> pci_drvdata s (pdev x) = None \<and> res s (PciMaster (pdev x)) = 0 \<and>
        0 \<le> ctrl_minor x \<and> nat (ctrl_minor x) \<notin> minor_ida s \<and> 0 \<le> ctrl_id x \<and> nat (ctrl_id x) \<notin> ctrl_ida s)"

lemma with_ctrls_Nil: "with_ctrls [] t a s = s\<lparr>now := t, next_addr := a\<rparr>"
  by (simp add: with_ctrls_def)

lemma map_add_snoc:
  assumes "k \<notin> fst ` set L"
  shows "(m ++ map_of L)(k \<mapsto> v) = m ++ map_of (L @ [(k, v)])"
proof -
  have "map_of L k = None" using assms by (simp add: map_of_eq_None_iff)
  then show ?thesis by (auto simp: map_add_def fun_eq_iff split: option.split)
qed

lemma fresh_with_ctrls:
  assumes "ctrls_new L a s"
  shows "fresh (with_ctrls L t a s)"
proof -
  have "map_of L c = None" "ctrl_refs (map fst L) (KCtrl c) = 0" if "a \<le> c" for c
    using assms that by (force simp: ctrls_new_def ctrl_refs_def map_of_eq_None_iff filter_empty_conv)+
  moreover have "count_list (concat (map (ctrl_owns \<circ> snd) L)) r = 0"
    if "r \<in> {Page c, CudaPin c, CudaTable c, CudaDmaMap c, CudaMapping c}" for r c
    using that by (auto simp: count_list_0_iff ctrl_owns_def)
  ultimately show ?thesis
    using assms unfolding fresh_def with_ctrls_def ctrls_new_def by (auto simp: map_add_def)
qed

lemma bafs_ctrl_alloc_next:
  assumes "fresh s" and "ida_ok K"
  shows "yields (bafs_ctrl_alloc K p s) (\<lambda>(ret, c, s'). next_addr s \<le> next_addr s')"
  using assms
  by (simp add: bafs_ctrl_alloc_def ctrl_alloc_numbers_def ctrl_alloc_device_def prim_defs Let_def
      device_create_def bafs_get_minor_number_def ctrl_ida_get_def ctrl_out_defs freshD fun_upd_idem
      bafs_put_minor_number_def ctrl_ida_remove_def ida_notin fun_upd_twist)

lemma ctrl_created_with:
  assumes "ctrls_new L a s" and "x = \<lparr>pdev = p, ctrl_minor = mn, ctrl_id = cid\<rparr>" and "p \<notin> (pdev \<circ> snd) ` set L"
    and "res s (PciMaster p) = 0"
  shows "(ctrl_created p mn cid (with_ctrls L t a s))\<lparr>now := t'\<rparr> = with_ctrls (L @ [(a, x)]) t' (Suc a) s"
proof -
  have a: "krefs s (KCtrl a) = 0" "ctrl_refs (map fst L) (KCtrl a) = 0" "a \<notin> fst ` set L" "ctrls s a = None"
    using assms(1) freshD [of s a] by (force simp: ctrls_new_def ctrl_refs_def filter_empty_conv)+
  have m: "count_list (concat (map (ctrl_owns \<circ> snd) L)) (PciMaster p) = 0"
    using assms(3) by (auto simp: count_list_0_iff ctrl_owns_def)
  have "p \<notin> fst ` set (map (\<lambda>(c, x). (pdev x, c)) L)" using assms(3) by force
  note e = map_add_snoc [OF a(3), of "ctrls s"] map_add_snoc [OF this, of "pci_drvdata s"]
  show ?thesis
    by (rule world.equality) (use a m e assms(2,4) in
      \<open>auto simp: ctrl_created_def with_ctrls_def Let_def ctrl_child_def ctrl_owns_def ctrl_refs_Cons fun_eq_iff\<close>)
qed

lemma probe_with_ctrls:
  assumes new: "ctrls_new L a s" and ida: "ida_ok K" and p: "p \<notin> (pdev \<circ> snd) ` set L" "pci_drvdata s p = None" "res s (PciMaster p) = 0"
  shows "\<exists>ret L' t' a'. bafs_ctrl_pci_probe K p (with_ctrls L t a s) = Some (ret, with_ctrls L' t' a' s) \<and> ctrls_new L' a' s \<and>
    (L' = L \<or> (\<exists>c x. L' = L @ [(c, x)] \<and> pdev x = p))"
proof -
  let ?s = "with_ctrls L t a s"
  have fr: "fresh ?s" by (rule fresh_with_ctrls [OF new])
  have pre: "pci_drvdata ?s p = None" "res ?s (PciMaster p) = 0"
    using p by (force simp: with_ctrls_def map_of_eq_None_iff count_list_0_iff ctrl_owns_def)+
  obtain ret co s' where run: "bafs_ctrl_alloc K p ?s = Some (ret, co, s')" and le: "next_addr ?s \<le> next_addr s'"
    and res: "if ret < 0 then co = None \<and> restored ?s s' else ret = 0 \<and> co = Some (next_addr ?s) \<and>
      (\<exists>x. ctrls s' (next_addr ?s) = Some x \<and> 0 \<le> ctrl_minor x \<and> 0 \<le> ctrl_id x \<and>
        nat (ctrl_minor x) \<notin> minor_ida ?s \<and> nat (ctrl_id x) \<notin> ctrl_ida ?s \<and>
        s' = (ctrl_created p (ctrl_minor x) (ctrl_id x) ?s)\<lparr>now := now s'\<rparr>)"
    using bafs_ctrl_alloc_cases [OF fr ida pre] bafs_ctrl_alloc_next [OF fr ida, of p]
    by (cases "bafs_ctrl_alloc K p ?s") auto
  have a: "next_addr ?s = a" by (simp add: with_ctrls_def)
  have probe: "bafs_ctrl_pci_probe K p ?s = Some (ret, s')" using run by (simp add: bafs_ctrl_pci_probe_def)
  show ?thesis
  proof (cases "ret < 0")
    case True
    define n b where "n = now s'" and "b = next_addr s'"
    from True res have "s' = ?s\<lparr>now := n, next_addr := b\<rparr>" by (simp add: restored_def n_def b_def)
    then have "s' = with_ctrls L n b s" by (simp add: with_ctrls_def)
    moreover have "ctrls_new L b s" using new le by (auto simp: ctrls_new_def a b_def)
    ultimately show ?thesis using probe by blast
  next
    case False
    define n where "n = now s'"
    from False res obtain x :: bafs_ctrl where x: "0 \<le> ctrl_minor x" "0 \<le> ctrl_id x" "nat (ctrl_minor x) \<notin> minor_ida ?s" "nat (ctrl_id x) \<notin> ctrl_ida ?s"
      and s': "s' = (ctrl_created p (ctrl_minor x) (ctrl_id x) ?s)\<lparr>now := n\<rparr>" by (auto simp: n_def)
    let ?x = "\<lparr>pdev = p, ctrl_minor = ctrl_minor x, ctrl_id = ctrl_id x\<rparr>"
    have "s' = with_ctrls (L @ [(a, ?x)]) n (Suc a) s"
      unfolding s' by (rule ctrl_created_with [OF new refl p(1,3)])
    moreover have "ctrls_new (L @ [(a, ?x)]) (Suc a) s"
      using new x p by (auto simp: ctrls_new_def with_ctrls_def comp_def image_iff)
    ultimately show ?thesis using probe by (metis bafs_ctrl.select_convs(1))
  qed
qed

lemma probe_all_with_ctrls:
  assumes "ctrls_new L a s" and "ida_ok K" and "distinct ps" and "\<forall>p \<in> set ps. p \<notin> (pdev \<circ> snd) ` set L \<and>
      pci_drvdata s p = None \<and> res s (PciMaster p) = 0"
  shows "\<exists>L' t' a'. probe_all K ps (with_ctrls L t a s) = Some (with_ctrls (L @ L') t' a' s) \<and> ctrls_new (L @ L') a' s \<and>
    (\<exists>P. map (pdev \<circ> snd) L' = filter P ps)"
  using assms
proof (induction ps arbitrary: L t a)
  case Nil
  then show ?case by auto
next
  case (Cons p ps)
  from probe_with_ctrls [OF Cons.prems(1,2), of p t] Cons.prems(4)
  obtain ret L1 t1 a1 where one: "bafs_ctrl_pci_probe K p (with_ctrls L t a s) = Some (ret, with_ctrls L1 t1 a1 s)" "ctrls_new L1 a1 s"
    and L1: "L1 = L \<or> (\<exists>c x. L1 = L @ [(c, x)] \<and> pdev x = p)" by auto
  have "\<forall>q \<in> set ps. q \<notin> (pdev \<circ> snd) ` set L1 \<and> pci_drvdata s q = None \<and> res s (PciMaster q) = 0"
    using L1 Cons.prems(3,4) by force
  moreover have "distinct ps" using Cons.prems(3) by simp
  ultimately obtain L' t' a' P
    where rest: "probe_all K ps (with_ctrls L1 t1 a1 s) = Some (with_ctrls (L1 @ L') t' a' s)" "ctrls_new (L1 @ L') a' s"
    and P: "map (pdev \<circ> snd) L' = filter P ps" using Cons.IH [OF one(2) Cons.prems(2), of t1] by blast
  have F: "filter (P(p := b)) ps = filter P ps" for b using Cons.prems(3) by (intro filter_cong) auto
  from L1 show ?case
  proof
    assume "L1 = L"
    with one(1) rest P F [of False] show ?case
      by - (rule exI [of _ L'], rule exI [of _ t'], rule exI [of _ a'], auto simp: comp_def intro!: exI [of _ "P(p := False)"])
  next
    assume "\<exists>c x. L1 = L @ [(c, x)] \<and> pdev x = p"
    then obtain c x where "L1 = L @ [(c, x)]" "pdev x = p" by blast
    with one(1) rest P F [of True] show ?case
      by - (rule exI [of _ "(c, x) # L'"], rule exI [of _ t'], rule exI [of _ a'], auto simp: comp_def intro!: exI [of _ "P(p := True)"])
  qed
qed

text \<open>Removing the first of several controllers, and all of them.\<close>

lemma remove_with_ctrls:
  assumes new: "ctrls_new ((c, x) # L) a s" and chs: "children_ok s" and p: "pdev x = p"
  shows "\<exists>s1. bafs_ctrl_pci_remove p (with_ctrls ((c, x) # L) t a s) = Some s1 \<and>
    s1\<lparr>pci_drvdata := (pci_drvdata s1)(p := None)\<rparr> = with_ctrls L t a s"
proof -
  let ?M = "map_of (map (\<lambda>(c, x). (pdev x, c)) L)"
  let ?s = "with_ctrls ((c, x) # L) t a s" and ?s1 = "(with_ctrls L t a s)\<lparr>pci_drvdata := (pci_drvdata s ++ ?M)(p \<mapsto> c)\<rparr>"
  have x: "krefs s (KCtrl c) = 0" "ctrls s c = None" "0 \<le> ctrl_minor x" "nat (ctrl_minor x) \<notin> minor_ida s"
    "0 \<le> ctrl_id x" "nat (ctrl_id x) \<notin> ctrl_ida s" "res s (PciMaster p) = 0" "pci_drvdata s p = None"
    using new freshD [of s c] p by (simp_all add: ctrls_new_def)
  have L: "c \<notin> fst ` set L" "p \<notin> (pdev \<circ> snd) ` set L" "nat (ctrl_minor x) \<notin> (nat \<circ> ctrl_minor \<circ> snd) ` set L"
    "nat (ctrl_id x) \<notin> (nat \<circ> ctrl_id \<circ> snd) ` set L"
    using new p by (simp_all add: ctrls_new_def)
  have n: "ctrl_refs (map fst L) (KCtrl c) = 0" "map_of L c = None" "?M p = None"
    "count_list (concat (map (ctrl_owns \<circ> snd) L)) (PciMaster p) = 0"
    using L by (force simp: ctrl_refs_def filter_empty_conv map_of_eq_None_iff count_list_0_iff ctrl_owns_def)+
  have flt: "filter (\<lambda>ch. ch_minor ch \<noteq> ctrl_minor x) (children s) = children s"
    "filter (\<lambda>ch. ch_minor ch \<noteq> ctrl_minor x) (map ctrl_child L) = map ctrl_child L"
    using chs x(4) L(3) by (force simp: children_ok_def ctrl_child_def intro!: filter_True)+
  have "bafs_ctrl_pci_remove p ?s = Some ?s1"
    using x L n flt p
    by (auto simp: with_ctrls_def bafs_ctrl_pci_remove_def bafs_ctrl_release_def bafs_ctrl_release_kref_def prim_defs Let_def
        device_destroy_def ctrl_ida_remove_def bafs_put_minor_number_def ctrl_owns_def ctrl_refs_Cons ctrl_child_def fun_eq_iff
        map_add_def intro!: world.equality)
  moreover have "(pci_drvdata s ++ ?M)(p := None) = pci_drvdata s ++ ?M"
    using x(8) n(3) by (auto simp: map_add_def)
  then have "?s1\<lparr>pci_drvdata := (pci_drvdata ?s1)(p := None)\<rparr> = with_ctrls L t a s"
    by (simp add: with_ctrls_def)
  ultimately show ?thesis by blast
qed

lemma remove_all_with_ctrls:
  assumes "ctrls_new L a s" and "children_ok s" and "map (pdev \<circ> snd) L = filter P ps" and "distinct ps"
    and "\<forall>p \<in> set ps. pci_drvdata s p = None"
  shows "remove_all ps (with_ctrls L t a s) = Some (s\<lparr>now := t, next_addr := a\<rparr>)"
  using assms
proof (induction ps arbitrary: L)
  case Nil
  then show ?case by (simp add: with_ctrls_Nil)
next
  case (Cons p ps)
  show ?case
  proof (cases "P p")
    case False
    with Cons.prems(4) have "p \<notin> set (map (pdev \<circ> snd) L)" unfolding Cons.prems(3) by simp
    then have "pci_drvdata (with_ctrls L t a s) p = None"
      using Cons.prems(5) by (force simp: with_ctrls_def map_of_eq_None_iff)
    with Cons False show ?thesis by simp
  next
    case True
    with Cons.prems(3) obtain c x L' where L: "L = (c, x) # L'" "pdev x = p" "map (pdev \<circ> snd) L' = filter P ps"
      by (cases L) (auto simp: comp_def)
    have d: "pci_drvdata (with_ctrls L t a s) p \<noteq> None" by (simp add: with_ctrls_def L)
    obtain s1 where "bafs_ctrl_pci_remove p (with_ctrls L t a s) = Some s1"
      "s1\<lparr>pci_drvdata := (pci_drvdata s1)(p := None)\<rparr> = with_ctrls L' t a s"
      using remove_with_ctrls [of c x L' a s p t] Cons.prems(1,2) L by auto
    moreover have "ctrls_new L' a s" using Cons.prems(1) by (simp add: L(1) ctrls_new_def)
    moreover from this have "remove_all ps (with_ctrls L' t a s) = Some (s\<lparr>now := t, next_addr := a\<rparr>)"
      using Cons.IH [of L'] Cons.prems(2,4,5) L(3) by (simp add: comp_def)
    ultimately show ?thesis using d by auto
  qed
qed

section \<open>Loading and unloading\<close>

definition module_unloaded :: "nat list \<Rightarrow> world \<Rightarrow> bool" where
  "module_unloaded ps s \<longleftrightarrow> fresh s \<and> children_ok s \<and> global_ctx_xa s = Map.empty \<and>
     res s (ClassObj BAFS_CTRL_CLASS_NAME) = 0 \<and> (\<forall>i. nat i \<notin> minor_ida s \<longrightarrow> res s (Cdev i) = 0) \<and>
     distinct ps \<and> (\<forall>p \<in> set ps. pci_drvdata s p = None \<and> res s (PciMaster p) = 0)"

text \<open>The answers on which the minor number is asked for.\<close>

definition classes_made :: "kernel \<Rightarrow> world \<Rightarrow> bool" where
  "classes_made K s \<longleftrightarrow> 0 \<le> k_ret K AllocChrdevRegion (now s) \<and> 0 \<le> k_ret K ClassCreate (now s + 1) \<and>
     0 \<le> k_ret K ClassCreate (now s + 2) \<and> 0 \<le> k_ret K ClassCreate (now s + 3)"

abbreviation module_res :: "resource list" where
  "module_res \<equiv> [ClassObj BAFS_GROUP_CLASS_NAME, ClassObj BAFS_CTRL_CLASS_NAME, ClassObj BAFS_CORE_CLASS_NAME, ChrdevRegion]"

definition with_res :: "resource list \<Rightarrow> world \<Rightarrow> world" where
  "with_res rs s = s\<lparr>res := (\<lambda>r. res s r + count_list rs r)\<rparr>"

lemma class_names [simp]:
  "BAFS_CORE_CLASS_NAME \<noteq> BAFS_CTRL_CLASS_NAME" "BAFS_CORE_CLASS_NAME \<noteq> BAFS_GROUP_CLASS_NAME" "BAFS_CTRL_CLASS_NAME \<noteq> BAFS_GROUP_CLASS_NAME"
  "BAFS_CTRL_CLASS_NAME \<noteq> BAFS_CORE_CLASS_NAME" "BAFS_GROUP_CLASS_NAME \<noteq> BAFS_CORE_CLASS_NAME" "BAFS_GROUP_CLASS_NAME \<noteq> BAFS_CTRL_CLASS_NAME"
  by (simp_all add: BAFS_CORE_CLASS_NAME_def BAFS_CTRL_CLASS_NAME_def BAFS_GROUP_CLASS_NAME_def)

lemma res_steps:
  "acquire r (with_res rs s) = with_res (r # rs) s"
  "release r (with_res (r # rs) s) = Some (with_res rs s)"
  "ask q (with_res rs s) = (q (now s), with_res rs (s\<lparr>now := Suc (now s)\<rparr>))"
  by (auto simp: with_res_def acquire_def release_def ask_def intro!: world.equality)

lemma with_res_Nil: "with_res [] s = s"
  by (simp add: with_res_def)

lemma bafs_ctrl_fini_res: "bafs_ctrl_fini (with_res (ClassObj BAFS_CTRL_CLASS_NAME # rs) s) = Some (with_res rs s)"
proof -
  have "res (with_res (ClassObj BAFS_CTRL_CLASS_NAME # rs) s) (ClassObj BAFS_CTRL_CLASS_NAME) \<noteq> 0" by (simp add: with_res_def)
  then show ?thesis by (simp add: bafs_ctrl_fini_def res_steps)
qed

lemma init_out_eqs:
  "init_out_destroy_core_class (with_res [ClassObj BAFS_CORE_CLASS_NAME, ChrdevRegion] s) = Some s"
  "init_out_ctrl_fini (with_res [ClassObj BAFS_CTRL_CLASS_NAME, ClassObj BAFS_CORE_CLASS_NAME, ChrdevRegion] s) = Some s"
  "init_out_group_fini (with_res module_res s) = Some s"
  by (simp_all add: init_out_destroy_core_class_def init_out_ctrl_fini_def init_out_group_fini_def bafs_group_fini_def
      res_steps bafs_ctrl_fini_res with_res_Nil)

lemma bafs_init_classes:
  "if classes_made K s then bafs_init K ps s = init_core_device K ps (with_res module_res (s\<lparr>now := now s + 4\<rparr>))
   else \<exists>ret t. bafs_init K ps s = Some (ret, s\<lparr>now := t\<rparr>) \<and> ret < 0"
proof -
  have first: "acquire ChrdevRegion (s\<lparr>now := Suc (now s)\<rparr>) = with_res [ChrdevRegion] (s\<lparr>now := Suc (now s)\<rparr>)"
    by (simp add: res_steps(1) [symmetric] with_res_Nil)
  show ?thesis
    unfolding bafs_init_def classes_made_def
    by (auto simp: ask_def [of _ s] first class_create_def bafs_ctrl_init_def bafs_group_init_def Let_def
        res_steps init_fails_def init_out_eqs with_res_Nil eval_nat_numeral)
qed

text \<open>The core device: number, character device, device node and PCI driver.\<close>

lemma cdev_core_eqs:
  assumes "res s (Cdev (core_minor s)) = 0"
  shows "set_flag (Cdev (core_minor s)) (with_res module_res s) = with_res (Cdev (core_minor s) # module_res) s"
    and "cdev_del_core (with_res (Cdev (core_minor s) # module_res) s) = with_res module_res s"
    and "cdev_del_core (with_res module_res s) = with_res module_res s"
  using assms by (auto simp: with_res_def set_flag_def clear_flag_def cdev_del_core_def intro!: world.equality)

definition core_numbered :: "int \<Rightarrow> nat \<Rightarrow> world \<Rightarrow> world" where
  "core_numbered mn t s = s\<lparr>now := t, core_minor := mn, minor_ida := insert (nat mn) (minor_ida s)\<rparr>"

lemma core_numbered_simps [simp]:
  "core_minor (core_numbered mn t s) = mn" "now (core_numbered mn t s) = t" "res (core_numbered mn t s) = res s"
  "(core_numbered mn t s)\<lparr>now := t'\<rparr> = core_numbered mn t' s" "core_minor (with_res rs s) = core_minor s"
  "minor_ida (with_res rs s) = minor_ida s"
  by (simp_all add: core_numbered_def with_res_def)

abbreviation core_res :: "int \<Rightarrow> resource list" where
  "core_res mn \<equiv> DevNode mn # Cdev mn # module_res"

lemma init_out_device_eqs:
  assumes "res s (Cdev mn) = 0"
  shows "init_out_delete_core_cdev (with_res module_res (core_numbered mn t s)) = Some (core_numbered mn t s)"
    and "init_out_delete_core_cdev (with_res (Cdev mn # module_res) (core_numbered mn t s)) = Some (core_numbered mn t s)"
    and "init_out_destroy_device (with_res (core_res mn) (core_numbered mn t s)) = Some (core_numbered mn t s)"
  using assms cdev_core_eqs [of "core_numbered mn t s"]
  by (simp_all add: init_out_delete_core_cdev_def init_out_destroy_device_def init_out_eqs res_steps)

lemma init_core_device_eq:
  assumes free: "\<forall>i. nat i \<notin> minor_ida s \<longrightarrow> res s (Cdev i) = 0" and ida: "ida_ok K" and mn: "mn = k_ida K (now s) (minor_ida s)"
  shows "init_core_device K ps (with_res module_res s) =
    (if mn < 0 then Some (mn, s\<lparr>now := now s + 1\<rparr>)
     else if k_ret K CdevAdd (now s + 1) < 0 then Some (k_ret K CdevAdd (now s + 1), core_numbered mn (now s + 2) s)
     else if k_ret K DeviceCreate (now s + 2) < 0 then Some (k_ret K DeviceCreate (now s + 2), core_numbered mn (now s + 3) s)
     else if k_ret K PciRegisterDriver (now s + 3) < 0 then Some (k_ret K PciRegisterDriver (now s + 3), core_numbered mn (now s + 4) s)
     else do {
       s' \<leftarrow> probe_all K ps (with_res (PciDriver # core_res mn) (core_numbered mn (now s + 4) s));
       Some (k_ret K PciRegisterDriver (now s + 3), s'\<lparr>global_ctx_xa := Map.empty\<rparr>)
     })"
proof (cases "mn < 0")
  case True
  then show ?thesis
    by (simp add: init_core_device_def bafs_get_minor_number_def res_steps mn Let_def init_fails_def init_out_eqs)
next
  case False
  have z: "res s (Cdev mn) = 0" using free False ida unfolding mn by (simp add: ida_notin)
  note out = init_out_device_eqs [of s mn, OF z]
  have get: "bafs_get_minor_number K (with_res module_res s) = (mn, with_res module_res (s\<lparr>now := Suc (now s), minor_ida := insert (nat mn) (minor_ida s)\<rparr>))"
    using False by (simp add: bafs_get_minor_number_def ask_def with_res_def mn)
  have num: "(with_res module_res (s\<lparr>now := Suc (now s), minor_ida := insert (nat mn) (minor_ida s)\<rparr>))\<lparr>core_minor := mn\<rparr> =
      with_res module_res (core_numbered mn (Suc (now s)) s)"
    by (simp add: with_res_def core_numbered_def)
  have set: "set_flag (Cdev mn) (with_res module_res (core_numbered mn t s)) = with_res (Cdev mn # module_res) (core_numbered mn t s)" for t
    using cdev_core_eqs(1) [of "core_numbered mn t s"] z by simp
  show ?thesis
    using False
    by (simp add: init_core_device_def get num Let_def res_steps init_fails_def out set pci_register_driver_def eval_nat_numeral)
qed

lemma module_base_ok:
  assumes "module_unloaded ps s" and "W = with_res rs (core_numbered mn t s)" and "\<forall>p. PciMaster p \<notin> set rs"
    and "\<forall>c. set rs \<inter> {Page c, CudaPin c, CudaTable c, CudaDmaMap c, CudaMapping c} = {}"
  shows "ctrls_new [] (next_addr s) W" "children_ok W" "distinct ps" "\<forall>p \<in> set ps. pci_drvdata W p = None \<and> res W (PciMaster p) = 0"
    "W = with_ctrls [] t (next_addr s) W" "global_ctx_xa W = Map.empty"
proof -
  have c: "count_list rs r = 0" if "r \<notin> set rs" for r using that by (simp add: count_list_0_iff)
  have "fresh W" using assms by (auto simp: module_unloaded_def with_res_def core_numbered_def fresh_def c)
  then show "ctrls_new [] (next_addr s) W" by (simp add: ctrls_new_def assms(2) with_res_def core_numbered_def)
  show "children_ok W" "distinct ps" "\<forall>p \<in> set ps. pci_drvdata W p = None \<and> res W (PciMaster p) = 0" "global_ctx_xa W = Map.empty"
    using assms by (auto simp: module_unloaded_def with_res_def core_numbered_def children_ok_def c)
  show "W = with_ctrls [] t (next_addr s) W" by (simp add: with_ctrls_Nil assms(2) with_res_def core_numbered_def)
qed

text \<open>A loaded module: the core device and one controller for each device that was bound.\<close>

definition loaded :: "int \<Rightarrow> (addr \<times> bafs_ctrl) list \<Rightarrow> nat list \<Rightarrow> world \<Rightarrow> world \<Rightarrow> bool" where
  "loaded mn L ps s s' \<longleftrightarrow> 0 \<le> mn \<and> nat mn \<notin> minor_ida s \<and>
     (let W = with_res (PciDriver # core_res mn) (core_numbered mn 0 s) in
      ctrls_new L (next_addr s') W \<and> (\<exists>P. map (pdev \<circ> snd) L = filter P ps) \<and> s' = with_ctrls L (now s') (next_addr s') W)"

text \<open>The kernel answers on which the whole initialisation goes through.\<close>

definition init_granted :: "kernel \<Rightarrow> world \<Rightarrow> bool" where
  "init_granted K s \<longleftrightarrow> classes_made K s \<and> 0 \<le> k_ida K (now s + 4) (minor_ida s) \<and> k_ret K CdevAdd (now s + 5) = 0 \<and>
     k_ret K DeviceCreate (now s + 6) = 0 \<and> k_ret K PciRegisterDriver (now s + 7) = 0"

lemma bafs_init_cases:
  assumes un: "module_unloaded ps s" and ida: "ida_ok K" and ret: "ret_ok K"
  shows "yields (bafs_init K ps s) (\<lambda>(ret, s').
    if init_granted K s then ret = 0 \<and> (\<exists>mn L. loaded mn L ps s s')
    else ret < 0 \<and> restored (if classes_made K s \<and> 0 \<le> k_ida K (now s + 4) (minor_ida s)
        then core_numbered (k_ida K (now s + 4) (minor_ida s)) (now s) s else s) s')"
proof (cases "classes_made K s")
  case False
  with bafs_init_classes [of K s ps] show ?thesis by (auto simp: restored_def init_granted_def)
next
  case True
  let ?s = "s\<lparr>now := now s + 4\<rparr>"
  define mn where "mn = k_ida K (now s + 4) (minor_ida s)"
  have free: "\<forall>i. nat i \<notin> minor_ida ?s \<longrightarrow> res ?s (Cdev i) = 0" using un by (simp add: module_unloaded_def)
  have mn: "mn = k_ida K (now ?s) (minor_ida ?s)" by (simp add: mn_def)
  have init: "bafs_init K ps s = init_core_device K ps (with_res module_res ?s)" using bafs_init_classes [of K s ps] True by simp
  note run = init_core_device_eq [OF free ida mn, of ps, folded init]
  have num: "core_numbered mn t ?s = core_numbered mn t s" for t by (simp add: core_numbered_def)
  have le: "k_ret K c n < 0 \<or> k_ret K c n = 0" for c n using ret by (auto simp: ret_ok_def le_less)
  have r: "restored (core_numbered mn (now s) s) (core_numbered mn t s)" for t by (simp add: restored_def core_numbered_def)
  show ?thesis
  proof (cases "mn \<ge> 0 \<and> k_ret K CdevAdd (now ?s + 1) = 0 \<and> k_ret K DeviceCreate (now ?s + 2) = 0 \<and> k_ret K PciRegisterDriver (now ?s + 3) = 0")
    case False
    then show ?thesis
      using True le [of CdevAdd "now ?s + 1"] le [of DeviceCreate "now ?s + 2"] le [of PciRegisterDriver "now ?s + 3"] r
      unfolding run num init_granted_def mn_def [symmetric] by (auto simp: restored_def add.commute)
  next
    case up: True
    let ?W = "with_res (PciDriver # core_res mn) (core_numbered mn (now ?s + 4) s)"
      and ?V = "with_res (PciDriver # core_res mn) (core_numbered mn 0 s)"
    have W: "with_ctrls L t a ?W = with_ctrls L t a ?V" "ctrls_new L a ?W = ctrls_new L a ?V" for L t a
      by (simp_all add: with_ctrls_def with_res_def core_numbered_def ctrls_new_def fresh_def)
    have "\<forall>c. set (PciDriver # core_res mn) \<inter> {Page c, CudaPin c, CudaTable c, CudaDmaMap c, CudaMapping c} = {}"
      "\<forall>p. PciMaster p \<notin> set (PciDriver # core_res mn)" by simp_all
    note base = module_base_ok [where W = ?W and t = "now ?s + 4", OF un refl this(2,1)]
    from probe_all_with_ctrls [OF base(1) ida base(3), of "now ?s + 4"] base(4)
    obtain L t a P where probe: "probe_all K ps ?W = Some (with_ctrls L t a ?W)" and L: "ctrls_new L a ?W" "map (pdev \<circ> snd) L = filter P ps"
      unfolding base(5) [symmetric] by auto
    have g: "(with_ctrls L t a ?W)\<lparr>global_ctx_xa := Map.empty\<rparr> = with_ctrls L t a ?V"
      using base(6) by (simp add: with_ctrls_def with_res_def core_numbered_def)
    have "nat mn \<notin> minor_ida s" using up ida by (simp add: mn_def ida_notin)
    moreover have "now (with_ctrls L t a ?V) = t" "next_addr (with_ctrls L t a ?V) = a" by (simp_all add: with_ctrls_def)
    ultimately have "loaded mn L ps s (with_ctrls L t a ?V)" using up L unfolding loaded_def Let_def W by auto
    moreover have "bafs_init K ps s = Some (0, with_ctrls L t a ?V)"
      unfolding run num using up probe g by simp
    moreover have "init_granted K s" using True up by (simp add: init_granted_def mn_def add.commute)
    ultimately show ?thesis by auto
  qed
qed

text \<open>
  C39. Loading the module succeeds exactly when the kernel grants its classes, number, character
  device, device node and driver registration. Then the core device exists and every PCI device whose probe
  succeeded has its controller; a failure undoes everything, except that the minor number of
  the core device stays taken when the failure comes after it was drawn.
\<close>

theorem bafs_init_spec:
  assumes "module_unloaded ps s" and "ida_ok K" and "ret_ok K"
  shows "yields (bafs_init K ps s) (\<lambda>(ret, s').
    if init_granted K s then ret = 0 \<and> (\<exists>mn L. loaded mn L ps s s')
    else ret < 0 \<and> restored (if classes_made K s \<and> 0 \<le> k_ida K (now s + 4) (minor_ida s)
        then core_numbered (k_ida K (now s + 4) (minor_ida s)) (now s) s else s) s')"
  using assms by (rule bafs_init_cases)

text \<open>
  C40. Unloading the module after loading it removes every controller, in the order in which they were
  probed, and leaves the world as it was before, whichever devices were present and
  whichever of their probes failed; only the static variable with the minor number differs.
\<close>

theorem load_unload_roundtrip:
  assumes un: "module_unloaded ps s" and "ida_ok K" and "ret_ok K" and init: "bafs_init K ps s = Some (0, s')"
  shows "yields (bafs_exit ps s') (\<lambda>s''. restored s (s''\<lparr>core_minor := core_minor s\<rparr>))"
proof -
  from bafs_init_cases [OF assms(1-3)] init obtain mn L where "loaded mn L ps s s'" by (auto split: if_splits)
  then obtain t a P where mn: "0 \<le> mn" "nat mn \<notin> minor_ida s" and
    L: "ctrls_new L a (with_res (PciDriver # core_res mn) (core_numbered mn 0 s))" "map (pdev \<circ> snd) L = filter P ps"
    and s': "s' = with_ctrls L t a (with_res (PciDriver # core_res mn) (core_numbered mn 0 s))"
    unfolding loaded_def Let_def by blast
  let ?W = "\<lambda>rs. with_res rs ((core_numbered mn t s)\<lparr>next_addr := a\<rparr>)"
  have "\<forall>c. set (PciDriver # core_res mn) \<inter> {Page c, CudaPin c, CudaTable c, CudaDmaMap c, CudaMapping c} = {}"
    "\<forall>p. PciMaster p \<notin> set (PciDriver # core_res mn)" by simp_all
  note base = module_base_ok [where W = "with_res (PciDriver # core_res mn) (core_numbered mn 0 s)" and t = 0, OF un refl this(2,1)]
  have "remove_all ps s' = Some (?W (PciDriver # core_res mn))"
    using remove_all_with_ctrls [OF L(1) base(2) L(2) base(3), of t] base(4) unfolding s' by (simp add: with_res_def core_numbered_def)
  then have "pci_unregister_driver ps s' = Some (?W (core_res mn))" by (simp add: pci_unregister_driver_def res_steps)
  moreover have "cdev_del_core (?W (Cdev mn # module_res)) = ?W module_res"
    using cdev_core_eqs(2) [of "(core_numbered mn t s)\<lparr>next_addr := a\<rparr>"] un mn by (simp add: module_unloaded_def core_numbered_def)
  ultimately have "bafs_exit ps s' = bafs_put_minor_number mn ((core_numbered mn t s)\<lparr>next_addr := a, global_ctx_xa := Map.empty\<rparr>)"
    by (simp add: bafs_exit_def res_steps bafs_group_fini_def bafs_ctrl_fini_res with_res_Nil)
  with mn un show ?thesis
    by (simp add: bafs_put_minor_number_def core_numbered_def restored_def module_unloaded_def)
qed

lemma demo_unloaded: "module_unloaded [5] (empty_world demo_user)"
  by (simp add: module_unloaded_def children_ok_def) (simp add: empty_world_def)

lemma demo_granted: "init_granted demo_kernel (empty_world demo_user)"
  by (simp add: init_granted_def classes_made_def demo_kernel_def empty_world_def)

lemma demo_load: "\<exists>s'. bafs_init demo_kernel [5] (empty_world demo_user) = Some (0, s')"
  using bafs_init_cases [OF demo_unloaded demo_kernel_ok(2,3)] demo_granted by (auto simp: yields_iff)

theorem bafs_init_spec_witness:
  "yields (bafs_init demo_kernel [5] (empty_world demo_user)) (\<lambda>(ret, s').
    ret = 0 \<and> (\<exists>mn L. loaded mn L [5] (empty_world demo_user) s'))"
  using bafs_init_spec [OF demo_unloaded demo_kernel_ok(2,3)] demo_granted by simp

theorem load_unload_roundtrip_witness:
  "yields (bafs_init demo_kernel [5] (empty_world demo_user)) (\<lambda>(ret, s'). ret = 0 \<and>
    yields (bafs_exit [5] s') (\<lambda>s''. restored (empty_world demo_user) (s''\<lparr>core_minor := core_minor (empty_world demo_user)\<rparr>)))"
  using load_unload_roundtrip [OF demo_unloaded demo_kernel_ok(2,3)] demo_load by auto

end
