(* ===== verification/Bafs_Vfs.thy ===== *)
theory Bafs_Vfs
  imports Bafs_Module
begin

text \<open>
  The driver as a running system: the file layer that calls the three tables of file
  operations (\<open>bafs_core_fops\<close>, \<open>bafs_ctrl_fops\<close>, \<open>bafs_group_fops\<close>) and the close
  operation of a mapping, the PCI core that binds and unbinds devices while the module is
  loaded, the NVIDIA driver that revokes pinned memory, and user programs that write their
  own memory. \<open>step\<close> runs one such event to its end, \<open>reachable\<close> is what any sequence of
  events can lead to from the state before the module is loaded. The order of the events is
  restricted as little as possible: that a mapping keeps its file open, for one, is not
  assumed while the module is loaded, so more states are reachable here than on a real machine.
\<close>

section \<open>The tables of file operations\<close>

text \<open>
  A table names what the kernel calls for the files of one device class. The inode of a
  device gives the open operation the object its character device is embedded in.
\<close>

record file_operations =
  fop_open :: "kernel \<Rightarrow> nat \<Rightarrow> addr option \<Rightarrow> world \<Rightarrow> (int \<times> private_data \<times> world) option"
  fop_mmap :: "kernel \<Rightarrow> private_data \<Rightarrow> nat \<Rightarrow> world \<Rightarrow> (int \<times> world) option"
  fop_ioctl :: "kernel \<Rightarrow> private_data \<Rightarrow> u32 \<Rightarrow> u64 \<Rightarrow> world \<Rightarrow> (int \<times> world) option"
  fop_release :: "private_data \<Rightarrow> world \<Rightarrow> (int \<times> private_data \<times> world) option"

definition bafs_core_fops :: file_operations where [simp]:
  "bafs_core_fops = \<lparr>fop_open = (\<lambda>K t inode. bafs_core_open K t), fop_mmap = bafs_core_mmap,
     fop_ioctl = bafs_core_ioctl, fop_release = bafs_core_release\<rparr>"

definition bafs_ctrl_fops :: file_operations where [simp]:
  "bafs_ctrl_fops = \<lparr>fop_open = bafs_ctrl_open, fop_mmap = bafs_ctrl_file_mmap,
     fop_ioctl = bafs_ctrl_ioctl, fop_release = bafs_ctrl_file_release\<rparr>"

definition bafs_group_fops :: file_operations where [simp]:
  "bafs_group_fops = \<lparr>fop_open = bafs_group_open, fop_mmap = bafs_group_mmap,
     fop_ioctl = bafs_group_ioctl, fop_release = bafs_group_release\<rparr>"

text \<open>The one operation of a memory mapping, its close.\<close>

definition bafs_mem_ops :: "kernel \<Rightarrow> nat \<Rightarrow> world \<Rightarrow> world option" where [simp]:
  "bafs_mem_ops = bafs_mem_release"

text \<open>The private data of a file tells which table the file has.\<close>

fun fops_of :: "private_data \<Rightarrow> file_operations option" where
  "fops_of PNull = None"
| "fops_of (PCore cx) = Some bafs_core_fops"
| "fops_of (PCtrl c cx) = Some bafs_ctrl_fops"
| "fops_of (PGroup g cx) = Some bafs_group_fops"

section \<open>The PCI driver\<close>

definition PCI_CLASS_NVME :: u32 where "PCI_CLASS_NVME = 0x010802"
definition PCI_CLASS_NVME_MASK :: u32 where "PCI_CLASS_NVME_MASK = 0xffffff"

text \<open>The entries of the table, class and mask, up to the zero entry that ends it.\<close>

definition pci_dev_id_table :: "(u32 \<times> u32) list" where
  "pci_dev_id_table = [(PCI_CLASS_NVME, PCI_CLASS_NVME_MASK)]"

record pci_driver =
  drv_name :: string
  drv_id_table :: "(u32 \<times> u32) list"
  drv_probe :: "kernel \<Rightarrow> nat \<Rightarrow> world \<Rightarrow> (int \<times> world) option"
  drv_remove :: "nat \<Rightarrow> world \<Rightarrow> world option"

definition bafs_ctrl_pci_driver :: pci_driver where [simp]:
  "bafs_ctrl_pci_driver = \<lparr>drv_name = BAFS_CTRL_CLASS_NAME, drv_id_table = pci_dev_id_table,
     drv_probe = bafs_ctrl_pci_probe, drv_remove = bafs_ctrl_pci_remove\<rparr>"

text \<open>The PCI core offers a device of class \<open>cls\<close> to the drivers whose table it matches.\<close>

definition pci_match :: "(u32 \<times> u32) list \<Rightarrow> u32 \<Rightarrow> bool" where
  "pci_match ids cls \<longleftrightarrow> list_ex (\<lambda>(c, m). (c XOR cls) AND m = 0) ids"

section \<open>Opening a device node\<close>

abbreviation ENOENT :: int where "ENOENT \<equiv> 2"
abbreviation EMFILE :: int where "EMFILE \<equiv> 24"

abbreviation core_path :: string where "core_path \<equiv> ''/dev/'' @ BAFS_CORE_CLASS_NAME"

text \<open>The device file that a path names, and its open operation.\<close>

datatype node = CoreNode | CtrlNode addr | GroupNode addr

definition node_of :: "string \<Rightarrow> world \<Rightarrow> node option" where
  "node_of path s =
     (if path = core_path then (if res s PciDriver = 0 then None else Some CoreNode)
      else case List.find (\<lambda>ch. ''/dev/'' @ ch_name ch = path) (children s) of
        None \<Rightarrow> None
      | Some ch \<Rightarrow> (case ch_data ch of None \<Rightarrow> None
          | Some (DrvCtrl c) \<Rightarrow> Some (CtrlNode c) | Some (DrvGroup g) \<Rightarrow> Some (GroupNode g)))"

fun fops_open :: "kernel \<Rightarrow> nat \<Rightarrow> node \<Rightarrow> world \<Rightarrow> (int \<times> private_data \<times> world) option" where
  "fops_open K t CoreNode s = fop_open bafs_core_fops K t None s"
| "fops_open K t (CtrlNode c) s = fop_open bafs_ctrl_fops K t (Some c) s"
| "fops_open K t (GroupNode g) s = fop_open bafs_group_fops K t (Some g) s"

text \<open>A file descriptor is installed only when the operation succeeded; \<open>f\<close> is the free one.\<close>

definition vfs_open :: "kernel \<Rightarrow> nat \<Rightarrow> nat \<Rightarrow> string \<Rightarrow> world \<Rightarrow> (int \<times> world) option" where
  "vfs_open K t f path s =
     (if files s f \<noteq> None then Some (- EMFILE, s)
      else case node_of path s of
        None \<Rightarrow> Some (- ENOENT, s)
      | Some nd \<Rightarrow> do {
          (ret, pd, s) \<leftarrow> fops_open K t nd s;
          if ret < 0 then Some (ret, s)
          else Some (int f, s\<lparr>files := (files s)(f \<mapsto> pd)\<rparr>)
        })"

section \<open>Operations on an open file\<close>

definition fops_ioctl :: "kernel \<Rightarrow> private_data \<Rightarrow> u32 \<Rightarrow> u64 \<Rightarrow> world \<Rightarrow> (int \<times> world) option" where
  "fops_ioctl K pd cmd argp s = do { F \<leftarrow> fops_of pd; fop_ioctl F K pd cmd argp s }"

definition fops_mmap :: "kernel \<Rightarrow> private_data \<Rightarrow> nat \<Rightarrow> world \<Rightarrow> (int \<times> world) option" where
  "fops_mmap K pd v s = do { F \<leftarrow> fops_of pd; fop_mmap F K pd v s }"

definition fops_release :: "private_data \<Rightarrow> world \<Rightarrow> (int \<times> private_data \<times> world) option" where
  "fops_release pd s = do { F \<leftarrow> fops_of pd; fop_release F pd s }"

definition vfs_ioctl :: "kernel \<Rightarrow> nat \<Rightarrow> u32 \<Rightarrow> u64 \<Rightarrow> world \<Rightarrow> (int \<times> world) option" where
  "vfs_ioctl K f cmd argp s =
     (case files s f of None \<Rightarrow> Some (- EBADF, s) | Some pd \<Rightarrow> fops_ioctl K pd cmd argp s)"

text \<open>
  \<open>mmap\<close> refuses an offset that is not a multiple of the page size; the area it makes has the
  offset in pages. When the driver's operation fails, the area is dropped without its close
  operation. \<open>v\<close> is the new area; the address range holds no earlier mapping of the driver.
\<close>

definition vfs_mmap :: "kernel \<Rightarrow> nat \<Rightarrow> nat \<Rightarrow> u64 \<Rightarrow> u64 \<Rightarrow> world \<Rightarrow> (int \<times> world) option" where
  "vfs_mmap K f v va off s =
     (case files s f of
        None \<Rightarrow> Some (- EBADF, s)
      | Some pd \<Rightarrow>
          if off AND (PAGE_SIZE - 1) \<noteq> 0 then Some (- EINVAL, s)
          else if vmas s v \<noteq> None then Some (- ENOMEM, s)
          else do {
            let s = s\<lparr>vmas := (vmas s)(v \<mapsto> \<lparr>vm_start = va, vm_pgoff = drop_bit PAGE_SHIFT off,
                       vm_private_data = None, vm_ops_set = False, vm_noncached = False, vm_flags = 0\<rparr>)\<rparr>;
            (ret, s) \<leftarrow> fops_mmap K pd v s;
            if ret < 0 then Some (ret, s\<lparr>vmas := (vmas s)(v := None)\<rparr>) else Some (0, s)
          })"

definition vfs_munmap :: "kernel \<Rightarrow> nat \<Rightarrow> world \<Rightarrow> (int \<times> world) option" where
  "vfs_munmap K v s = do {
     vma \<leftarrow> vmas s v;
     s \<leftarrow> (if vm_ops_set vma then bafs_mem_ops K v s else Some s);
     Some (0, s\<lparr>vmas := (vmas s)(v := None)\<rparr>)
   }"

definition vfs_close :: "nat \<Rightarrow> world \<Rightarrow> (int \<times> world) option" where
  "vfs_close f s =
     (case files s f of
        None \<Rightarrow> Some (- EBADF, s)
      | Some pd \<Rightarrow> do {
          (ret, pd', s) \<leftarrow> fops_release pd s;
          Some (0, s\<lparr>files := (files s)(f := None)\<rparr>)
        })"

section \<open>Events\<close>

text \<open>
  The module is loaded exactly while its PCI driver is registered. Its open files and mappings
  keep it from being unloaded. The PCI core probes only unbound devices whose class is in
  the driver's table and removes only bound ones; the slots given to \<open>Load\<close> are those of the
  matching devices that are present, those given to \<open>Unload\<close> contain all bound ones. The NVIDIA
  driver revokes only what is pinned.
\<close>

datatype event =
    Load "nat list"
  | Unload "nat list"
  | Plug nat u32
  | Unplug nat
  | Open nat nat string
  | Ioctl nat u32 u64
  | Mmap nat nat u64 u64
  | Munmap nat
  | Close nat
  | Revoke addr
  | Write user_mem

definition pci_unbind :: "nat \<Rightarrow> world \<Rightarrow> world option" where
  "pci_unbind p s = do {
     s \<leftarrow> drv_remove bafs_ctrl_pci_driver p s;
     Some (s\<lparr>pci_drvdata := (pci_drvdata s)(p := None)\<rparr>)
   }"

text \<open>
  Loading gives the module a fresh image of its static data: the three pools of numbers, the
  table of contexts and the minor number of the core device.
\<close>

definition load_image :: "world \<Rightarrow> world" where
  "load_image s = s\<lparr>minor_ida := {}, ctrl_ida := {}, group_ida := {}, global_ctx_xa := Map.empty, core_minor := 0\<rparr>"

text \<open>
  What would still lead into the text of the module after it is unloaded: a device node, whose
  file operations lie there, and a pin, whose callback does. The kernel frees the text
  nevertheless; like the free of any object that is in use, this ends the run.
\<close>

definition text_in_use :: "world \<Rightarrow> bool" where
  "text_in_use s \<longleftrightarrow> children s \<noteq> [] \<or> list_ex (\<lambda>m. res s (CudaPin m) \<noteq> 0) [0..<next_addr s]"

fun enabled :: "event \<Rightarrow> world \<Rightarrow> bool" where
  "enabled (Load ps) s = (res s PciDriver = 0)"
| "enabled (Unload ps) s = (res s PciDriver \<noteq> 0 \<and> files s = Map.empty \<and> vmas s = Map.empty \<and> dom (pci_drvdata s) \<subseteq> set ps)"
| "enabled (Plug p cls) s = (res s PciDriver \<noteq> 0 \<and> pci_drvdata s p = None \<and> pci_match (drv_id_table bafs_ctrl_pci_driver) cls)"
| "enabled (Unplug p) s = (res s PciDriver \<noteq> 0 \<and> pci_drvdata s p \<noteq> None)"
| "enabled (Revoke m) s = (res s (CudaPin m) \<noteq> 0)"
| "enabled _ s = True"

fun step :: "kernel \<Rightarrow> event \<Rightarrow> world \<Rightarrow> (int \<times> world) option" where
  "step K (Load ps) s = bafs_init K ps (load_image s)"
| "step K (Unload ps) s = do { s \<leftarrow> bafs_exit ps s; if text_in_use s then None else Some (0, s) }"
| "step K (Plug p cls) s = drv_probe bafs_ctrl_pci_driver K p s"
| "step K (Unplug p) s = do { s \<leftarrow> pci_unbind p s; Some (0, s) }"
| "step K (Open t f path) s = vfs_open K t f path s"
| "step K (Ioctl f cmd argp) s = vfs_ioctl K f cmd argp s"
| "step K (Mmap f v va off) s = vfs_mmap K f v va off s"
| "step K (Munmap v) s = vfs_munmap K v s"
| "step K (Close f) s = vfs_close f s"
| "step K (Revoke m) s = (if res s PciDriver = 0 then None else do { s \<leftarrow> p2p_revoke m s; Some (0, s) })"
| "step K (Write u) s = Some (0, s\<lparr>user := u\<rparr>)"

inductive reachable :: "kernel \<Rightarrow> world \<Rightarrow> bool" for K where
  start: "reachable K (empty_world u)"
| event: "reachable K s \<Longrightarrow> enabled e s \<Longrightarrow> step K e s = Some (ret, s') \<Longrightarrow> reachable K s'"

text \<open>A run: the results of a list of events, or nothing when one of them stops or is not enabled.\<close>

fun run :: "kernel \<Rightarrow> event list \<Rightarrow> world \<Rightarrow> (int list \<times> world) option" where
  "run K [] s = Some ([], s)"
| "run K (e # es) s =
     (if \<not> enabled e s then None
      else do {
        (ret, s) \<leftarrow> step K e s;
        (rets, s) \<leftarrow> run K es s;
        Some (ret # rets, s)
      })"

lemma run_reachable: "reachable K s \<Longrightarrow> run K es s = Some (rets, s') \<Longrightarrow> reachable K s'"
  by (induction es arbitrary: s rets) (auto split: if_splits elim!: bind_SomeE intro: reachable.event)

end
