(* ===== verification/Bafs_Inv.thy ===== *)
theory Bafs_Inv
  imports Bafs_Vfs
begin

text \<open>
  The global invariant of the driver and its preservation by the context and memory
  operations. \<open>post\<close> is the partial-correctness judgement of a run; the rules in \<open>wp\<close>
  compute it along a \<open>do\<close> block, one rule for each primitive and each operation.
\<close>

section \<open>Partial correctness\<close>

definition post :: "'a option \<Rightarrow> ('a \<Rightarrow> bool) \<Rightarrow> bool" where
  "post r Q \<longleftrightarrow> (\<forall>x. r = Some x \<longrightarrow> Q x)"

named_theorems wp \<open>rules of the judgement post\<close>

lemma post_simps [simp]: "post (Some x) Q = Q x" "post None Q"
  "post (if b then r else r') Q = ((b \<longrightarrow> post r Q) \<and> (\<not> b \<longrightarrow> post r' Q))"
  by (auto simp: post_def)

lemma post_bind [simp]: "post (Option.bind r f) Q = post r (\<lambda>x. post (f x) Q)"
  by (cases r) simp_all

lemma postD: "post r Q \<Longrightarrow> r = Some x \<Longrightarrow> Q x"
  by (simp add: post_def)

lemma post_mono: "post r Q \<Longrightarrow> (\<And>x. Q x \<Longrightarrow> Q' x) \<Longrightarrow> post r Q'"
  by (simp add: post_def)

section \<open>The invariant\<close>

text \<open>Nothing lives at an address the allocator has not handed out: \<open>fresh\<close> without the locks.\<close>

definition alloc_inv :: "world \<Rightarrow> bool" where
  "alloc_inv s \<longleftrightarrow> (\<forall>a \<ge> next_addr s.
     ctxs s a = None \<and> mems s a = None \<and> dmas s a = None \<and> ctrls s a = None \<and> groups s a = None \<and>
     krefs s (KCtx a) = 0 \<and> krefs s (KMem a) = 0 \<and> krefs s (KCtrl a) = 0 \<and> krefs s (KGroup a) = 0 \<and>
     res s (Page a) = 0 \<and> res s (CudaPin a) = 0 \<and> res s (CudaTable a) = 0 \<and>
     res s (CudaDmaMap a) = 0 \<and> res s (CudaMapping a) = 0)"

text \<open>Every entry of \<open>bafs_global_ctx_xa\<close> is a live context of that thread group.\<close>

definition ctx_inv :: "world \<Rightarrow> bool" where
  "ctx_inv s \<longleftrightarrow> (\<forall>t c. global_ctx_xa s t = Some c \<longrightarrow>
     0 < krefs s (KCtx c) \<and> (\<exists>x. ctxs s c = Some x \<and> ctx_tgid x = t))"

text \<open>
  The device nodes under the core device are exactly those of the live controllers and groups, with
  distinct minor numbers and names, and their numbers are taken in the three pools. \<open>M\<close>,
  \<open>C\<close> and \<open>G\<close> are the numbers that are taken and that no device node has: those of an
  object under construction or destruction, and the minor number of the core device.
\<close>

definition ctrl_kid :: "addr \<Rightarrow> bafs_ctrl \<Rightarrow> child" where
  "ctrl_kid c x = \<lparr>ch_minor = ctrl_minor x, ch_name = BAFS_CTRL_DEVICE_NAME (ctrl_id x),
     ch_class = BAFS_CTRL_CLASS_NAME, ch_data = Some (DrvCtrl c)\<rparr>"

definition group_kid :: "addr \<Rightarrow> bafs_group \<Rightarrow> child" where
  "group_kid g x = \<lparr>ch_minor = group_minor x, ch_name = BAFS_GROUP_DEVICE_NAME (group_id x),
     ch_class = BAFS_GROUP_CLASS_NAME, ch_data = Some (DrvGroup g)\<rparr>"

definition kid_ok :: "nat set \<Rightarrow> nat set \<Rightarrow> world \<Rightarrow> child \<Rightarrow> bool" where
  "kid_ok C G s ch \<longleftrightarrow>
     (\<exists>c x. ch = ctrl_kid c x \<and> ctrls s c = Some x \<and> 0 < krefs s (KCtrl c) \<and>
        0 \<le> ctrl_id x \<and> nat (ctrl_id x) \<in> ctrl_ida s - C) \<or>
     (\<exists>g x. ch = group_kid g x \<and> groups s g = Some x \<and> 0 < krefs s (KGroup g) \<and>
        0 \<le> group_id x \<and> nat (group_id x) \<in> group_ida s - G)"

definition dev_inv :: "nat set \<Rightarrow> nat set \<Rightarrow> nat set \<Rightarrow> world \<Rightarrow> bool" where
  "dev_inv M C G s \<longleftrightarrow>
     M \<subseteq> minor_ida s \<and> C \<subseteq> ctrl_ida s \<and> G \<subseteq> group_ida s \<and>
     distinct (map ch_minor (children s)) \<and> distinct (map ch_name (children s)) \<and>
     (\<forall>ch \<in> set (children s). 0 \<le> ch_minor ch \<and> nat (ch_minor ch) \<in> minor_ida s - M \<and> kid_ok C G s ch) \<and>
     (\<forall>c. 0 < krefs s (KCtrl c) \<longrightarrow> (\<exists>x. ctrls s c = Some x \<and> ctrl_kid c x \<in> set (children s))) \<and>
     (\<forall>g. 0 < krefs s (KGroup g) \<longrightarrow> (\<exists>x. groups s g = Some x \<and> group_kid g x \<in> set (children s)))"

text \<open>
  The whole: \<open>X\<close> is the registration of the PCI driver and the minor number of the core device,
  which only loading and unloading change, and \<open>L\<close> the held locks.
\<close>

definition winv :: "nat \<times> int \<Rightarrow> lock set \<Rightarrow> nat set \<Rightarrow> nat set \<Rightarrow> nat set \<Rightarrow> world \<Rightarrow> bool" where
  "winv X L M C G s \<longleftrightarrow> X = (res s PciDriver, core_minor s) \<and> held s = L \<and>
     alloc_inv s \<and> ctx_inv s \<and> dev_inv M C G s"

section \<open>Primitives\<close>

text \<open>What each part of the invariant does not look at.\<close>

lemma dev_frame [simp]:
  "dev_inv M C G (s\<lparr>now := n\<rparr>) = dev_inv M C G s" "dev_inv M C G (s\<lparr>user := u\<rparr>) = dev_inv M C G s"
  "dev_inv M C G (s\<lparr>vmas := v\<rparr>) = dev_inv M C G s" "dev_inv M C G (s\<lparr>remaps := r\<rparr>) = dev_inv M C G s"
  "dev_inv M C G (s\<lparr>files := f\<rparr>) = dev_inv M C G s" "dev_inv M C G (s\<lparr>pci_drvdata := d\<rparr>) = dev_inv M C G s"
  "dev_inv M C G (s\<lparr>mems := m\<rparr>) = dev_inv M C G s" "dev_inv M C G (s\<lparr>dmas := ds\<rparr>) = dev_inv M C G s"
  "dev_inv M C G (s\<lparr>ctxs := cs\<rparr>) = dev_inv M C G s" "dev_inv M C G (s\<lparr>res := rs\<rparr>) = dev_inv M C G s"
  "dev_inv M C G (s\<lparr>held := L\<rparr>) = dev_inv M C G s" "dev_inv M C G (s\<lparr>global_ctx_xa := xa\<rparr>) = dev_inv M C G s"
  "dev_inv M C G (s\<lparr>core_minor := i\<rparr>) = dev_inv M C G s" "dev_inv M C G (s\<lparr>next_addr := a\<rparr>) = dev_inv M C G s"
  "dev_inv M C G (s\<lparr>krefs := k(KMem x := n)\<rparr>) = dev_inv M C G (s\<lparr>krefs := k\<rparr>)"
  "dev_inv M C G (s\<lparr>krefs := k(KCtx x := n)\<rparr>) = dev_inv M C G (s\<lparr>krefs := k\<rparr>)"
  by (simp_all add: dev_inv_def kid_ok_def)

lemma ctx_frame [simp]:
  "ctx_inv (s\<lparr>now := n\<rparr>) = ctx_inv s" "ctx_inv (s\<lparr>user := u\<rparr>) = ctx_inv s" "ctx_inv (s\<lparr>vmas := v\<rparr>) = ctx_inv s"
  "ctx_inv (s\<lparr>remaps := r\<rparr>) = ctx_inv s" "ctx_inv (s\<lparr>files := f\<rparr>) = ctx_inv s" "ctx_inv (s\<lparr>pci_drvdata := d\<rparr>) = ctx_inv s"
  "ctx_inv (s\<lparr>mems := m\<rparr>) = ctx_inv s" "ctx_inv (s\<lparr>dmas := ds\<rparr>) = ctx_inv s" "ctx_inv (s\<lparr>ctrls := ct\<rparr>) = ctx_inv s"
  "ctx_inv (s\<lparr>groups := gs\<rparr>) = ctx_inv s" "ctx_inv (s\<lparr>res := rs\<rparr>) = ctx_inv s" "ctx_inv (s\<lparr>held := L\<rparr>) = ctx_inv s"
  "ctx_inv (s\<lparr>core_minor := i\<rparr>) = ctx_inv s" "ctx_inv (s\<lparr>next_addr := a\<rparr>) = ctx_inv s" "ctx_inv (s\<lparr>children := ch\<rparr>) = ctx_inv s"
  "ctx_inv (s\<lparr>minor_ida := ida\<rparr>) = ctx_inv s" "ctx_inv (s\<lparr>ctrl_ida := ida\<rparr>) = ctx_inv s" "ctx_inv (s\<lparr>group_ida := ida\<rparr>) = ctx_inv s"
  "ctx_inv (s\<lparr>krefs := k(KMem x := n)\<rparr>) = ctx_inv (s\<lparr>krefs := k\<rparr>)" "ctx_inv (s\<lparr>krefs := k(KCtrl x := n)\<rparr>) = ctx_inv (s\<lparr>krefs := k\<rparr>)"
  "ctx_inv (s\<lparr>krefs := k(KGroup x := n)\<rparr>) = ctx_inv (s\<lparr>krefs := k\<rparr>)"
  by (simp_all add: ctx_inv_def)

lemma alloc_frame [simp]:
  "alloc_inv (s\<lparr>now := n\<rparr>) = alloc_inv s" "alloc_inv (s\<lparr>user := u\<rparr>) = alloc_inv s" "alloc_inv (s\<lparr>vmas := v\<rparr>) = alloc_inv s"
  "alloc_inv (s\<lparr>remaps := r\<rparr>) = alloc_inv s" "alloc_inv (s\<lparr>files := f\<rparr>) = alloc_inv s" "alloc_inv (s\<lparr>pci_drvdata := d\<rparr>) = alloc_inv s"
  "alloc_inv (s\<lparr>held := L\<rparr>) = alloc_inv s" "alloc_inv (s\<lparr>core_minor := i\<rparr>) = alloc_inv s" "alloc_inv (s\<lparr>children := ch\<rparr>) = alloc_inv s"
  "alloc_inv (s\<lparr>minor_ida := ida\<rparr>) = alloc_inv s" "alloc_inv (s\<lparr>ctrl_ida := ida\<rparr>) = alloc_inv s"
  "alloc_inv (s\<lparr>group_ida := ida\<rparr>) = alloc_inv s" "alloc_inv (s\<lparr>global_ctx_xa := xa\<rparr>) = alloc_inv s"
  by (simp_all add: alloc_inv_def)

lemma alloc_update:
  assumes "alloc_inv s"
  shows "a < next_addr s \<or> v = None \<Longrightarrow> alloc_inv (s\<lparr>mems := (mems s)(a := v)\<rparr>)"
    and "a < next_addr s \<or> w = None \<Longrightarrow> alloc_inv (s\<lparr>dmas := (dmas s)(a := w)\<rparr>)"
    and "a < next_addr s \<or> x = None \<Longrightarrow> alloc_inv (s\<lparr>ctxs := (ctxs s)(a := x)\<rparr>)"
    and "a < next_addr s \<or> y = None \<Longrightarrow> alloc_inv (s\<lparr>ctrls := (ctrls s)(a := y)\<rparr>)"
    and "a < next_addr s \<or> z = None \<Longrightarrow> alloc_inv (s\<lparr>groups := (groups s)(a := z)\<rparr>)"
    and "next_addr s \<le> a' \<Longrightarrow> alloc_inv (s\<lparr>next_addr := a'\<rparr>)"
    and "r \<in> {KCtx a, KMem a, KCtrl a, KGroup a} \<Longrightarrow> a < next_addr s \<or> n = 0 \<Longrightarrow> alloc_inv (s\<lparr>krefs := (krefs s)(r := n)\<rparr>)"
  using assms by (auto simp: alloc_inv_def)

lemma alloc_bound:
  assumes "alloc_inv s"
  shows "mems s a = Some m \<Longrightarrow> a < next_addr s" "dmas s a = Some d \<Longrightarrow> a < next_addr s" "ctxs s a = Some c \<Longrightarrow> a < next_addr s"
    "ctrls s a = Some ct \<Longrightarrow> a < next_addr s" "groups s a = Some g \<Longrightarrow> a < next_addr s"
  using assms by (force simp: alloc_inv_def not_le [symmetric])+

lemma winv_frame [simp]:
  "winv X L M C G (s\<lparr>now := n\<rparr>) = winv X L M C G s" "winv X L M C G (s\<lparr>user := u\<rparr>) = winv X L M C G s"
  "winv X L M C G (s\<lparr>vmas := v\<rparr>) = winv X L M C G s" "winv X L M C G (s\<lparr>remaps := r\<rparr>) = winv X L M C G s"
  "winv X L M C G (s\<lparr>files := f\<rparr>) = winv X L M C G s" "winv X L M C G (s\<lparr>pci_drvdata := d\<rparr>) = winv X L M C G s"
  by (simp_all add: winv_def)

fun res_ok :: "resource \<Rightarrow> world \<Rightarrow> bool" where
  "res_ok (Page a) s = (a < next_addr s)"
| "res_ok (CudaPin a) s = (a < next_addr s)"
| "res_ok (CudaTable a) s = (a < next_addr s)"
| "res_ok (CudaDmaMap a) s = (a < next_addr s)"
| "res_ok (CudaMapping a) s = (a < next_addr s)"
| "res_ok PciDriver s = False"
| "res_ok _ s = True"

lemma winv_res:
  assumes "winv X L M C G s" and "res_ok r s"
  shows "winv X L M C G (s\<lparr>res := (res s)(r := n)\<rparr>)"
  using assms by (cases r) (auto simp: winv_def alloc_inv_def)

lemma winv_acquire [wp]: "winv X L M C G s \<Longrightarrow> res_ok r s \<Longrightarrow> winv X L M C G (acquire r s)"
  and winv_set_flag [wp]: "winv X L M C G s \<Longrightarrow> res_ok r s \<Longrightarrow> winv X L M C G (set_flag r s)"
  and winv_clear_flag [wp]: "winv X L M C G s \<Longrightarrow> res_ok r s \<Longrightarrow> winv X L M C G (clear_flag r s)"
  by (simp_all add: acquire_def set_flag_def clear_flag_def winv_res)

lemma next_addr_simps [simp]:
  "next_addr (acquire r s) = next_addr s" "next_addr (set_flag r s) = next_addr s" "next_addr (clear_flag r s) = next_addr s"
  by (simp_all add: acquire_def set_flag_def clear_flag_def)

text \<open>What is owned can be given back, whatever it is.\<close>

lemma release_wp [wp]:
  assumes "winv X L M C G s" and "r \<noteq> PciDriver"
    and "\<And>s'. winv X L M C G s' \<Longrightarrow> next_addr s \<le> next_addr s' \<Longrightarrow> Q s'"
  shows "post (release r s) Q"
proof (cases "res s r = 0")
  case False
  then have "winv X L M C G (s\<lparr>res := (res s)(r := res s r - 1)\<rparr>)"
    using assms(1,2) by (cases r) (auto simp: winv_def alloc_inv_def)
  with False assms(3) show ?thesis by (simp add: release_def)
qed (simp add: release_def)

lemma spin_lock_wp [wp]:
  assumes "winv X L M C G s" and "\<And>s'. winv X (insert l L) M C G s' \<Longrightarrow> next_addr s \<le> next_addr s' \<Longrightarrow> l \<notin> L \<Longrightarrow> Q s'"
  shows "post (spin_lock l s) Q"
  using assms by (auto simp: spin_lock_def winv_def)

lemma spin_unlock_wp [wp]:
  assumes "winv X L M C G s" and "\<And>s'. winv X (L - {l}) M C G s' \<Longrightarrow> next_addr s \<le> next_addr s' \<Longrightarrow> Q s'"
  shows "post (spin_unlock l s) Q"
  using assms by (auto simp: spin_unlock_def winv_def)

text \<open>Only whether a reference count is zero matters.\<close>

lemma winv_krefs:
  assumes "\<And>r. (k r = 0) = (krefs s r = 0)"
  shows "winv X L M C G (s\<lparr>krefs := k\<rparr>) = winv X L M C G s"
  using assms by (simp add: winv_def alloc_inv_def ctx_inv_def dev_inv_def kid_ok_def neq0_conv [symmetric] del: neq0_conv)

lemma kref_get_wp [wp]:
  assumes "winv X L M C G s" and "\<And>s'. winv X L M C G s' \<Longrightarrow> next_addr s \<le> next_addr s' \<Longrightarrow> Q s'"
  shows "post (kref_get r s) Q"
proof (cases "krefs s r = 0")
  case False
  then have "winv X L M C G (s\<lparr>krefs := (krefs s)(r := Suc (krefs s r))\<rparr>)"
    using assms(1) by (subst winv_krefs) auto
  with False assms(2) show ?thesis by (simp add: kref_get_def)
qed (simp add: kref_get_def)

lemma kref_put_wp:
  assumes "winv X L M C G s"
    and "\<And>s' n. krefs s r = Suc (Suc n) \<Longrightarrow> winv X L M C G s' \<Longrightarrow> next_addr s \<le> next_addr s' \<Longrightarrow> Q s'"
    and "krefs s r = 1 \<Longrightarrow> post (rel (s\<lparr>krefs := (krefs s)(r := 0)\<rparr>)) Q"
  shows "post (kref_put r rel s) Q"
proof (cases "krefs s r")
  case (Suc n)
  have "winv X L M C G (s\<lparr>krefs := (krefs s)(r := n)\<rparr>)" if "n \<noteq> 0"
    using assms(1) Suc that by (subst winv_krefs) auto
  with Suc assms(2,3) show ?thesis by (cases n) (auto simp: kref_put_def Let_def)
qed (simp add: kref_put_def)

lemma object_wp:
  assumes "winv X L M C G s"
  shows "(\<And>x. mems s m = Some x \<Longrightarrow> m < next_addr s \<Longrightarrow> Q1 x) \<Longrightarrow> post (mems s m) Q1"
    and "(\<And>x. dmas s d = Some x \<Longrightarrow> d < next_addr s \<Longrightarrow> Q2 x) \<Longrightarrow> post (dmas s d) Q2"
    and "(\<And>x. ctxs s c = Some x \<Longrightarrow> c < next_addr s \<Longrightarrow> Q3 x) \<Longrightarrow> post (ctxs s c) Q3"
  using assms by (auto simp: winv_def post_def dest: alloc_bound)

declare object_wp [wp]

lemma plain_wp [wp]:
  "(\<And>x. ctrls s c = Some x \<Longrightarrow> Q1 x) \<Longrightarrow> post (ctrls s c) Q1"
  "(\<And>x. groups s g = Some x \<Longrightarrow> Q2 x) \<Longrightarrow> post (groups s g) Q2"
  "(\<And>x. vmas s v = Some x \<Longrightarrow> Q3 x) \<Longrightarrow> post (vmas s v) Q3"
  "(\<And>x. nth_opt xs i = Some x \<Longrightarrow> Q4 x) \<Longrightarrow> post (nth_opt xs i) Q4"
  "(\<And>x. list_unlink m ms = Some x \<Longrightarrow> Q5 x) \<Longrightarrow> post (list_unlink m ms) Q5"
  by (simp_all add: post_def)

lemma upd_wp:
  assumes "winv X L M C G s" and "\<And>s'. winv X L M C G s' \<Longrightarrow> next_addr s \<le> next_addr s' \<Longrightarrow> Q s'"
  shows upd_mem_wp: "post (upd_mem m f s) Q" and upd_dma_wp: "post (upd_dma d f' s) Q" and upd_vma_wp: "post (upd_vma v f'' s) Q"
    and upd_ctx_wp: "(\<And>x. ctx_tgid (f3 x) = ctx_tgid x) \<Longrightarrow> post (upd_ctx c f3 s) Q"
    and kfree_mem_wp: "post (kfree_mem m s) Q" and kfree_dma_wp: "post (kfree_dma d s) Q"
proof -
  have a: "alloc_inv s" and i: "winv X L M C G s" using assms(1) by (simp_all add: winv_def)
  note upd = alloc_update [OF a] and dom = alloc_bound [OF a]
  show "post (upd_mem m f s) Q" "post (upd_dma d f' s) Q" "post (upd_vma v f'' s) Q"
    using i unfolding post_def by (auto simp: upd_mem_def upd_dma_def upd_vma_def winv_def bind_eq_Some_conv intro!: assms(2) upd dest: dom)
  show "post (kfree_dma d s) Q"
    using i unfolding post_def by (auto simp: kfree_dma_def winv_def split: if_splits intro!: assms(2) upd)
  have "alloc_inv (s\<lparr>mems := (mems s)(m := None), krefs := (krefs s)(KMem m := 0)\<rparr>)"
    using alloc_update(7) [OF upd(1) [of m None], of "KMem m" m 0] by simp
  then show "post (kfree_mem m s) Q"
    using i unfolding post_def by (auto simp: kfree_mem_def winv_def split: if_splits intro!: assms(2))
  assume "\<And>x. ctx_tgid (f3 x) = ctx_tgid x"
  then have "ctx_inv (s\<lparr>ctxs := (ctxs s)(c \<mapsto> f3 x)\<rparr>)" if "ctxs s c = Some x" for x
    using i that by (fastforce simp: winv_def ctx_inv_def)
  then show "post (upd_ctx c f3 s) Q"
    using i unfolding post_def by (auto simp: upd_ctx_def winv_def bind_eq_Some_conv intro!: assms(2) upd dest: dom)
qed

declare upd_mem_wp [wp] upd_dma_wp [wp] upd_vma_wp [wp] upd_ctx_wp [wp] kfree_mem_wp [wp] kfree_dma_wp [wp]

section \<open>Contexts\<close>

lemma ctx_inv_erase:
  assumes "ctx_inv s" and "ctxs s c = Some x"
  shows "ctx_inv (s\<lparr>global_ctx_xa := (global_ctx_xa s)(ctx_tgid x := None), res := rs, ctxs := (ctxs s)(c := None),
    krefs := (krefs s)(KCtx c := 0)\<rparr>)"
  using assms unfolding ctx_inv_def by simp (metis option.inject)

lemma bafs_put_ctx_wp [wp]:
  assumes "winv X L M C G s" and "\<And>s'. winv X L M C G s' \<Longrightarrow> next_addr s \<le> next_addr s' \<Longrightarrow> Q s'"
  shows "post (bafs_put_ctx c s) Q"
  unfolding bafs_put_ctx_def
proof (rule kref_put_wp [OF assms(1)])
  have "winv X L M C G s'" "next_addr s \<le> next_addr s'"
    if "bafs_core_ctx_release_kref c (s\<lparr>krefs := (krefs s)(KCtx c := 0)\<rparr>) = Some s'" for s'
    using that assms(1)
    by (auto simp: bafs_core_ctx_release_kref_def Let_def release_def kfree_ctx_def winv_def alloc_inv_def
        bind_eq_Some_conv ctx_inv_erase split: if_splits)
  then show "post (bafs_core_ctx_release_kref c (s\<lparr>krefs := (krefs s)(KCtx c := 0)\<rparr>)) Q"
    using assms(2) by (simp add: post_def)
qed (rule assms(2))

lemma ctx_inv_dead: "alloc_inv s \<Longrightarrow> ctx_inv s \<Longrightarrow> global_ctx_xa s t = Some c \<Longrightarrow> c \<noteq> next_addr s"
  by (fastforce simp: alloc_inv_def ctx_inv_def)

text \<open>A context that was made at the next address, and then dropped or entered in the table.\<close>

lemma ctx_inv_new:
  assumes "alloc_inv s" and "ctx_inv s"
    and "\<And>c. c \<noteq> next_addr s \<Longrightarrow> ctxs s' c = ctxs s c \<and> (0 < krefs s (KCtx c) \<longrightarrow> 0 < krefs s' (KCtx c))"
    and "global_ctx_xa s' = global_ctx_xa s \<or> (\<exists>x. ctxs s' (next_addr s) = Some x \<and> 0 < krefs s' (KCtx (next_addr s)) \<and>
      global_ctx_xa s' = (global_ctx_xa s)(ctx_tgid x \<mapsto> next_addr s))"
  shows "ctx_inv s'"
  using assms ctx_inv_dead [OF assms(1,2)] unfolding ctx_inv_def by (auto split: if_splits)

lemma ctx_open_inv:
  assumes "winv X L M C G s"
  shows "bafs_core_open K t s = Some (ret, pd, s') \<Longrightarrow> winv X L M C G s' \<and> next_addr s \<le> next_addr s'"
    and "bafs_get_ctx K t s = Some (c, s'') \<Longrightarrow> winv X L M C G s'' \<and> next_addr s \<le> next_addr s''"
proof -
  have a: "alloc_inv s" "ctx_inv s" using assms by (simp_all add: winv_def)
  note new = ctx_inv_new [OF a]
  show "winv X L M C G s' \<and> next_addr s \<le> next_addr s'" if "bafs_core_open K t s = Some (ret, pd, s')"
    using that assms
    by (auto simp: bafs_core_open_def Let_def kzalloc_ctx_def find_get_pid_def prim_defs xa_insert_def winv_def bind_eq_Some_conv
        split: if_splits intro!: new) (auto simp: alloc_inv_def)
  show "winv X L M C G s'' \<and> next_addr s \<le> next_addr s''" if "bafs_get_ctx K t s = Some (c, s'')"
    using that assms
    by (auto simp: bafs_get_ctx_def Let_def kzalloc_ctx_def find_get_pid_def prim_defs xa_cmpxchg_null_def winv_def bind_eq_Some_conv
        split: if_splits option.splits intro!: new) (auto simp: alloc_inv_def)
qed

lemma bafs_core_open_wp [wp]:
  assumes "winv X L M C G s" and "\<And>ret pd s'. winv X L M C G s' \<Longrightarrow> next_addr s \<le> next_addr s' \<Longrightarrow> Q (ret, pd, s')"
  shows "post (bafs_core_open K t s) Q"
  using ctx_open_inv(1) [OF assms(1)] assms(2) by (auto simp: post_def)

lemma bafs_get_ctx_wp [wp]:
  assumes "winv X L M C G s" and "\<And>c s'. winv X L M C G s' \<Longrightarrow> next_addr s \<le> next_addr s' \<Longrightarrow> Q (c, s')"
  shows "post (bafs_get_ctx K t s) Q"
  using ctx_open_inv(2) [OF assms(1)] assms(2) by (auto simp: post_def)

end
