(* ===== verification/Bafs_Inv_Dev.thy ===== *)
theory Bafs_Inv_Dev
  imports Bafs_Inv
begin

text \<open>
  Preservation of the invariant by the operations on controllers and groups: drawing and giving
  back their numbers, construction, and the release of the last reference.
\<close>

section \<open>Numbers and names\<close>

lemma kid_simps [simp]:
  "ch_minor (ctrl_kid c x) = ctrl_minor x" "ch_name (ctrl_kid c x) = BAFS_CTRL_DEVICE_NAME (ctrl_id x)"
  "ch_class (ctrl_kid c x) = BAFS_CTRL_CLASS_NAME" "ch_data (ctrl_kid c x) = Some (DrvCtrl c)"
  "ch_minor (group_kid g y) = group_minor y" "ch_name (group_kid g y) = BAFS_GROUP_DEVICE_NAME (group_id y)"
  "ch_class (group_kid g y) = BAFS_GROUP_CLASS_NAME" "ch_data (group_kid g y) = Some (DrvGroup g)"
  by (simp_all add: ctrl_kid_def group_kid_def)

lemma kid_okE:
  assumes "kid_ok C G s ch"
  obtains c x where "ch = ctrl_kid c x" "ctrls s c = Some x" "0 < krefs s (KCtrl c)" "0 \<le> ctrl_id x" "nat (ctrl_id x) \<in> ctrl_ida s" "nat (ctrl_id x) \<notin> C"
  | g y where "ch = group_kid g y" "groups s g = Some y" "0 < krefs s (KGroup g)" "0 \<le> group_id y" "nat (group_id y) \<in> group_ida s" "nat (group_id y) \<notin> G"
  using assms unfolding kid_ok_def by auto

lemma kid_okI:
  "ctrls s c = Some x \<Longrightarrow> 0 < krefs s (KCtrl c) \<Longrightarrow> 0 \<le> ctrl_id x \<Longrightarrow> nat (ctrl_id x) \<in> ctrl_ida s \<Longrightarrow> nat (ctrl_id x) \<notin> C \<Longrightarrow>
    kid_ok C G s (ctrl_kid c x)"
  "groups s g = Some y \<Longrightarrow> 0 < krefs s (KGroup g) \<Longrightarrow> 0 \<le> group_id y \<Longrightarrow> nat (group_id y) \<in> group_ida s \<Longrightarrow> nat (group_id y) \<notin> G \<Longrightarrow>
    kid_ok C G s (group_kid g y)"
  unfolding kid_ok_def by blast+

lemma dev_invD:
  assumes "dev_inv M C G s"
  shows "M \<subseteq> minor_ida s" "C \<subseteq> ctrl_ida s" "G \<subseteq> group_ida s"
    "distinct (map ch_minor (children s))" "distinct (map ch_name (children s))"
    "\<And>ch. ch \<in> set (children s) \<Longrightarrow> 0 \<le> ch_minor ch \<and> nat (ch_minor ch) \<in> minor_ida s \<and> nat (ch_minor ch) \<notin> M"
    "\<And>ch. ch \<in> set (children s) \<Longrightarrow> kid_ok C G s ch"
    "\<And>c. 0 < krefs s (KCtrl c) \<Longrightarrow> \<exists>x. ctrls s c = Some x \<and> ctrl_kid c x \<in> set (children s)"
    "\<And>g. 0 < krefs s (KGroup g) \<Longrightarrow> \<exists>x. groups s g = Some x \<and> group_kid g x \<in> set (children s)"
  using assms unfolding dev_inv_def by blast+

text \<open>A new number is not in use.\<close>

lemma new_ctrl_name:
  assumes "dev_inv M C G s" and "0 \<le> i" and "nat i \<notin> ctrl_ida s"
  shows "BAFS_CTRL_DEVICE_NAME i \<notin> ch_name ` set (children s)"
proof
  assume "BAFS_CTRL_DEVICE_NAME i \<in> ch_name ` set (children s)"
  then obtain ch where ch: "ch \<in> set (children s)" "ch_name ch = BAFS_CTRL_DEVICE_NAME i" by auto
  from dev_invD(7) [OF assms(1) ch(1)] show False
    by (cases rule: kid_okE) (use ch(2) assms(2,3) in \<open>auto simp: device_name_inj device_name_inj(3) [symmetric]\<close>)
qed

lemma new_group_name:
  assumes "dev_inv M C G s" and "0 \<le> i" and "nat i \<notin> group_ida s"
  shows "BAFS_GROUP_DEVICE_NAME i \<notin> ch_name ` set (children s)"
proof
  assume "BAFS_GROUP_DEVICE_NAME i \<in> ch_name ` set (children s)"
  then obtain ch where ch: "ch \<in> set (children s)" "ch_name ch = BAFS_GROUP_DEVICE_NAME i" by auto
  from dev_invD(7) [OF assms(1) ch(1)] show False
    by (cases rule: kid_okE) (use ch(2) assms(2,3) in \<open>auto simp: device_name_inj device_name_inj(3) [symmetric]\<close>)
qed

lemma new_minor:
  assumes "dev_inv M C G s" and "nat i \<notin> minor_ida s"
  shows "i \<notin> ch_minor ` set (children s)"
  using dev_invD(6) [OF assms(1)] assms(2) by auto

section \<open>Construction\<close>

lemma kid_ok_mono:
  assumes "kid_ok C G s ch" and "\<And>c x. ctrls s c = Some x \<Longrightarrow> 0 < krefs s (KCtrl c) \<Longrightarrow> ctrls s' c = Some x \<and> 0 < krefs s' (KCtrl c)"
    and "\<And>g x. groups s g = Some x \<Longrightarrow> 0 < krefs s (KGroup g) \<Longrightarrow> groups s' g = Some x \<and> 0 < krefs s' (KGroup g)"
    and "ctrl_ida s \<subseteq> ctrl_ida s'" "group_ida s \<subseteq> group_ida s'"
  shows "kid_ok C G s' ch"
  using assms(1) by (cases rule: kid_okE) (use assms(4,5) in \<open>auto intro!: kid_okI dest: assms(2,3)\<close>)

lemma dev_inv_add_ctrl:
  assumes inv: "dev_inv M C G s" and new: "krefs s (KCtrl c) = 0"
    and num: "0 \<le> ctrl_minor x" "nat (ctrl_minor x) \<notin> minor_ida s" "0 \<le> ctrl_id x" "nat (ctrl_id x) \<notin> ctrl_ida s"
    and s': "children s' = children s @ [ctrl_kid c x]" "ctrls s' = (ctrls s)(c \<mapsto> x)" "groups s' = groups s"
      "minor_ida s' = insert (nat (ctrl_minor x)) (minor_ida s)" "ctrl_ida s' = insert (nat (ctrl_id x)) (ctrl_ida s)" "group_ida s' = group_ida s"
      "\<And>k. (0 < krefs s' k) = (k = KCtrl c \<or> 0 < krefs s k)"
  shows "dev_inv M C G s'"
proof -
  note d = dev_invD [OF inv]
  have kids: "kid_ok C G s' ch" if "ch \<in> set (children s)" for ch
    by (rule kid_ok_mono [OF d(7) [OF that]]) (use s' new in auto)
  have "nat (ctrl_id x) \<notin> C" "nat (ctrl_minor x) \<notin> M" using d(1,2) num by auto
  then have "kid_ok C G s' (ctrl_kid c x)" using num s' by (auto simp: kid_ok_def)
  moreover have "ctrl_minor x \<notin> ch_minor ` set (children s)" "BAFS_CTRL_DEVICE_NAME (ctrl_id x) \<notin> ch_name ` set (children s)"
    using new_minor [OF inv] new_ctrl_name [OF inv] num by auto
  ultimately show ?thesis
    unfolding dev_inv_def s' using d(1-6) num kids \<open>nat (ctrl_minor x) \<notin> M\<close> new by (auto simp: s' dest: d(8,9))
qed

lemma dev_inv_add_group:
  assumes inv: "dev_inv M C G s" and new: "krefs s (KGroup g) = 0"
    and num: "0 \<le> group_minor x" "nat (group_minor x) \<notin> minor_ida s" "0 \<le> group_id x" "nat (group_id x) \<notin> group_ida s"
    and s': "children s' = children s @ [group_kid g x]" "groups s' = (groups s)(g \<mapsto> x)" "ctrls s' = ctrls s"
      "minor_ida s' = insert (nat (group_minor x)) (minor_ida s)" "group_ida s' = insert (nat (group_id x)) (group_ida s)" "ctrl_ida s' = ctrl_ida s"
      "\<And>k. (0 < krefs s' k) = (k = KGroup g \<or> 0 < krefs s k)"
  shows "dev_inv M C G s'"
proof -
  note d = dev_invD [OF inv]
  have kids: "kid_ok C G s' ch" if "ch \<in> set (children s)" for ch
    by (rule kid_ok_mono [OF d(7) [OF that]]) (use s' new in auto)
  have "nat (group_id x) \<notin> G" "nat (group_minor x) \<notin> M" using d(1,3) num by auto
  then have "kid_ok C G s' (group_kid g x)" using num s' by (auto simp: kid_ok_def)
  moreover have "group_minor x \<notin> ch_minor ` set (children s)" "BAFS_GROUP_DEVICE_NAME (group_id x) \<notin> ch_name ` set (children s)"
    using new_minor [OF inv] new_group_name [OF inv] num by auto
  ultimately show ?thesis
    unfolding dev_inv_def s' using d(1-6) num kids \<open>nat (group_minor x) \<notin> M\<close> new by (auto simp: s' dest: d(8,9))
qed

section \<open>Release\<close>

text \<open>
  Taking the device node of an object away leaves its numbers taken but unused; they can then be
  given back and the object freed.
\<close>

definition no_node :: "child \<Rightarrow> kobj \<Rightarrow> world \<Rightarrow> world \<Rightarrow> bool" where
  "no_node ch k s s' \<longleftrightarrow> children s' = filter (\<lambda>ch'. ch_minor ch' \<noteq> ch_minor ch) (children s) \<and> ctrls s' = ctrls s \<and> groups s' = groups s \<and>
     minor_ida s' = minor_ida s \<and> ctrl_ida s' = ctrl_ida s \<and> group_ida s' = group_ida s \<and>
     (\<forall>k'. (0 < krefs s' k') = (k' \<noteq> k \<and> 0 < krefs s k'))"

lemma dev_inv_others:
  assumes inv: "dev_inv M C G s" and kid: "ch \<in> set (children s)" and s': "no_node ch k s s'"
    and C': "C' \<subseteq> ctrl_ida s" "G' \<subseteq> group_ida s"
    and ok: "\<And>ch'. ch' \<in> set (children s) \<Longrightarrow> ch_minor ch' \<noteq> ch_minor ch \<Longrightarrow> ch_name ch' \<noteq> ch_name ch \<Longrightarrow> kid_ok C' G' s' ch'"
    and live: "\<And>c x. 0 < krefs s' (KCtrl c) \<Longrightarrow> ctrls s c = Some x \<Longrightarrow> ctrl_kid c x \<noteq> ch"
      "\<And>g x. 0 < krefs s' (KGroup g) \<Longrightarrow> groups s g = Some x \<Longrightarrow> group_kid g x \<noteq> ch"
  shows "dev_inv (insert (nat (ch_minor ch)) M) C' G' s'"
proof -
  note d = dev_invD [OF inv]
  have inj: "ch' = ch" if "ch' \<in> set (children s)" "ch_minor ch' = ch_minor ch \<or> ch_name ch' = ch_name ch" for ch'
    using that kid d(4,5) by (auto simp: distinct_map inj_on_def)
  have "dev_inv (insert (nat (ch_minor ch)) M) C' G' s' \<longleftrightarrow>
     (\<forall>ch' \<in> set (children s). ch_minor ch' \<noteq> ch_minor ch \<longrightarrow> kid_ok C' G' s' ch') \<and>
     (\<forall>c. 0 < krefs s' (KCtrl c) \<longrightarrow> (\<exists>x. ctrls s c = Some x \<and> ctrl_kid c x \<in> set (children s) \<and> ctrl_minor x \<noteq> ch_minor ch)) \<and>
     (\<forall>g. 0 < krefs s' (KGroup g) \<longrightarrow> (\<exists>x. groups s g = Some x \<and> group_kid g x \<in> set (children s) \<and> group_minor x \<noteq> ch_minor ch))"
    unfolding dev_inv_def using s' d(1-6) kid C'
    by (auto simp: no_node_def distinct_map_filter eq_nat_nat_iff)
  moreover have "kid_ok C' G' s' ch'" if "ch' \<in> set (children s)" "ch_minor ch' \<noteq> ch_minor ch" for ch'
    using ok [OF that] inj [OF that(1)] that(2) by auto
  moreover have "\<exists>x. ctrls s c = Some x \<and> ctrl_kid c x \<in> set (children s) \<and> ctrl_minor x \<noteq> ch_minor ch" if "0 < krefs s' (KCtrl c)" for c
    using that s' d(8) [of c] live(1) [OF that] inj by (auto simp: no_node_def)
  moreover have "\<exists>x. groups s g = Some x \<and> group_kid g x \<in> set (children s) \<and> group_minor x \<noteq> ch_minor ch" if "0 < krefs s' (KGroup g)" for g
    using that s' d(9) [of g] live(2) [OF that] inj by (auto simp: no_node_def)
  ultimately show ?thesis by blast
qed

lemma dev_inv_hide_ctrl:
  assumes inv: "dev_inv M C G s" and x: "ctrls s c = Some x" "0 < krefs s (KCtrl c)" and s': "no_node (ctrl_kid c x) (KCtrl c) s s'"
  shows "dev_inv (insert (nat (ctrl_minor x)) M) (insert (nat (ctrl_id x)) C) G s'"
    and "nat (ctrl_minor x) \<notin> M" "nat (ctrl_id x) \<notin> C" "0 \<le> ctrl_id x"
proof -
  note d = dev_invD [OF inv]
  have kid: "ctrl_kid c x \<in> set (children s)" using d(8) [OF x(2)] x(1) by auto
  have id: "0 \<le> ctrl_id x" "nat (ctrl_id x) \<in> ctrl_ida s" "nat (ctrl_id x) \<notin> C"
    using d(7) [OF kid] by (cases rule: kid_okE; auto simp: ctrl_kid_def group_kid_def x)+
  then show "nat (ctrl_minor x) \<notin> M" "nat (ctrl_id x) \<notin> C" "0 \<le> ctrl_id x" using d(6) [OF kid] by auto
  have "kid_ok (insert (nat (ctrl_id x)) C) G s' ch" if ch: "ch \<in> set (children s)" "ch_name ch \<noteq> BAFS_CTRL_DEVICE_NAME (ctrl_id x)" for ch
    using d(7) [OF ch(1)]
  proof (cases rule: kid_okE)
    case (1 c' x')
    with ch(2) have "ctrl_id x' \<noteq> ctrl_id x" by auto
    moreover from this 1 x have "c' \<noteq> c" by auto
    ultimately show ?thesis using 1 s' id(1) by (auto simp: no_node_def intro!: kid_okI)
  next
    case (2 g y)
    then show ?thesis using s' by (auto simp: no_node_def intro!: kid_okI)
  qed
  then show "dev_inv (insert (nat (ctrl_minor x)) M) (insert (nat (ctrl_id x)) C) G s'"
    using dev_inv_others [OF inv kid s', of "insert (nat (ctrl_id x)) C" G] d(2,3) id s'
    by (auto simp: no_node_def ctrl_kid_def group_kid_def)
qed

lemma dev_inv_hide_group:
  assumes inv: "dev_inv M C G s" and x: "groups s g = Some x" "0 < krefs s (KGroup g)" and s': "no_node (group_kid g x) (KGroup g) s s'"
  shows "dev_inv (insert (nat (group_minor x)) M) C (insert (nat (group_id x)) G) s'"
    and "nat (group_minor x) \<notin> M" "nat (group_id x) \<notin> G" "0 \<le> group_id x"
proof -
  note d = dev_invD [OF inv]
  have kid: "group_kid g x \<in> set (children s)" using d(9) [OF x(2)] x(1) by auto
  have id: "0 \<le> group_id x" "nat (group_id x) \<in> group_ida s" "nat (group_id x) \<notin> G"
    using d(7) [OF kid] by (cases rule: kid_okE; auto simp: ctrl_kid_def group_kid_def x)+
  then show "nat (group_minor x) \<notin> M" "nat (group_id x) \<notin> G" "0 \<le> group_id x" using d(6) [OF kid] by auto
  have "kid_ok C (insert (nat (group_id x)) G) s' ch" if ch: "ch \<in> set (children s)" "ch_name ch \<noteq> BAFS_GROUP_DEVICE_NAME (group_id x)" for ch
    using d(7) [OF ch(1)]
  proof (cases rule: kid_okE)
    case (1 c y)
    then show ?thesis using s' by (auto simp: no_node_def intro!: kid_okI)
  next
    case (2 g' x')
    with ch(2) have "group_id x' \<noteq> group_id x" by auto
    moreover from this 2 x have "g' \<noteq> g" by auto
    ultimately show ?thesis using 2 s' id(1) by (auto simp: no_node_def intro!: kid_okI)
  qed
  then show "dev_inv (insert (nat (group_minor x)) M) C (insert (nat (group_id x)) G) s'"
    using dev_inv_others [OF inv kid s', of C "insert (nat (group_id x)) G"] d(2,3) id s'
    by (auto simp: no_node_def ctrl_kid_def group_kid_def)
qed

lemma dev_inv_give:
  assumes inv: "dev_inv M C G s" and M': "M' \<subseteq> M" "C' \<subseteq> C" "G' \<subseteq> G"
    and ids: "minor_ida s' = minor_ida s - (M - M')" "ctrl_ida s' = ctrl_ida s - (C - C')" "group_ida s' = group_ida s - (G - G')"
    and same: "children s' = children s" "\<And>k. (0 < krefs s' k) = (0 < krefs s k)"
      "\<And>c. 0 < krefs s (KCtrl c) \<Longrightarrow> ctrls s' c = ctrls s c" "\<And>g. 0 < krefs s (KGroup g) \<Longrightarrow> groups s' g = groups s g"
  shows "dev_inv M' C' G' s'"
proof -
  note d = dev_invD [OF inv]
  have "kid_ok C' G' s' ch" if "ch \<in> set (children s)" for ch
    using d(7) [OF that] by (cases rule: kid_okE) (use M' ids same in \<open>auto intro!: kid_okI\<close>)
  then show ?thesis
    unfolding dev_inv_def using d(1-6) M' ids by (auto simp: same dest: d(8,9))
qed

section \<open>Operations\<close>

lemma bafs_get_ctrl_wp [wp]:
  assumes "winv X L M C G s" and "\<And>s'. winv X L M C G s' \<Longrightarrow> next_addr s \<le> next_addr s' \<Longrightarrow> Q s'"
  shows "post (bafs_get_ctrl c s) Q"
  by (simp add: bafs_get_ctrl_def) (rule plain_wp, rule kref_get_wp, rule assms(1), rule assms(2))

lemma bafs_get_group_wp [wp]:
  assumes "winv X L M C G s" and "\<And>s'. winv X L M C G s' \<Longrightarrow> next_addr s \<le> next_addr s' \<Longrightarrow> Q s'"
  shows "post (bafs_get_group g s) Q"
  by (simp add: bafs_get_group_def) (rule plain_wp, rule kref_get_wp, rule assms(1), rule assms(2))

lemma winv_live:
  assumes "winv X L M C G s"
  shows "0 < krefs s (KCtrl c) \<Longrightarrow> \<exists>x. ctrls s c = Some x" "0 < krefs s (KGroup g) \<Longrightarrow> \<exists>x. groups s g = Some x"
  using assms unfolding winv_def by (auto dest: dev_invD(8,9))

lemma ctrl_release_last:
  assumes inv: "winv X L M C G s" and k: "krefs s (KCtrl c) = 1" and x: "ctrls s c = Some x"
    and run: "bafs_ctrl_release_kref c (s\<lparr>krefs := (krefs s)(KCtrl c := 0)\<rparr>) = Some s'"
  shows "winv X L M C G s' \<and> next_addr s \<le> next_addr s' \<and> krefs s' = (krefs s)(KCtrl c := 0)"
proof -
  define s1 where "s1 = s\<lparr>krefs := (krefs s)(KCtrl c := 0), children := filter (\<lambda>ch. ch_minor ch \<noteq> ctrl_minor x) (children s)\<rparr>"
  have d: "dev_inv M C G s" using inv by (simp add: winv_def)
  have "no_node (ctrl_kid c x) (KCtrl c) s s1" by (simp add: no_node_def s1_def)
  note hide = dev_inv_hide_ctrl [OF d x _ this]
  have s': "krefs s' = (krefs s)(KCtrl c := 0)" "ctrls s' = (ctrls s)(c := None)" "groups s' = groups s"
    "children s' = filter (\<lambda>ch. ch_minor ch \<noteq> ctrl_minor x) (children s)" "ctrl_ida s' = ctrl_ida s - {nat (ctrl_id x)}"
    "minor_ida s' = minor_ida s - {nat (ctrl_minor x)}" "group_ida s' = group_ida s"
    and same: "next_addr s' = next_addr s" "held s' = held s" "mems s' = mems s" "dmas s' = dmas s" "ctxs s' = ctxs s"
    "global_ctx_xa s' = global_ctx_xa s" "core_minor s' = core_minor s" "res s' PciDriver = res s PciDriver"
    and rs: "\<forall>r. res s r = 0 \<longrightarrow> res s' r = 0"
    using run x by (auto simp: bafs_ctrl_release_kref_def device_destroy_def prim_defs Let_def ctrl_ida_remove_def
        bafs_put_minor_number_def bind_eq_Some_conv split: if_splits)
  have "dev_inv M C G s'"
    by (rule dev_inv_give [OF hide(1)]) (use k hide(2-4) in \<open>auto simp: s' s1_def\<close>)
  moreover have "alloc_inv s'" using inv rs by (auto simp: s' same winv_def alloc_inv_def)
  ultimately show ?thesis using inv by (auto simp: s' same winv_def ctx_inv_def)
qed

lemma bafs_ctrl_release_wp [wp]:
  assumes "winv X L M C G s" and "\<And>s'. winv X L M C G s' \<Longrightarrow> next_addr s \<le> next_addr s' \<Longrightarrow> Q s'"
  shows "post (bafs_ctrl_release c s) Q"
proof (cases "ctrls s c")
  case (Some x)
  have "post (kref_put (KCtrl c) (bafs_ctrl_release_kref c) s) Q"
    by (rule kref_put_wp [OF assms(1)]) (use ctrl_release_last [OF assms(1) _ Some] assms(2) in \<open>auto simp: post_def\<close>)
  with Some show ?thesis by (simp add: bafs_ctrl_release_def)
qed (simp add: bafs_ctrl_release_def)

lemma release_ctrls_wp [wp]:
  assumes "winv X L M C G s" and "\<And>s'. winv X L M C G s' \<Longrightarrow> next_addr s \<le> next_addr s' \<Longrightarrow> Q s'"
  shows "post (release_ctrls cs s) Q"
  using assms
proof (induction cs arbitrary: s)
  case (Cons c cs)
  show ?case
    by (simp, rule bafs_ctrl_release_wp [OF Cons.prems(1)], rule Cons.IH) (auto intro: Cons.prems(2) order_trans)
qed simp

text \<open>Releasing controllers does not touch the groups.\<close>

lemma ctrl_release_groups: "bafs_ctrl_release c s = Some s' \<Longrightarrow> krefs s' (KGroup g) = krefs s (KGroup g)"
  by (auto simp: bafs_ctrl_release_def bafs_ctrl_release_kref_def device_destroy_def prim_defs Let_def ctrl_ida_remove_def
      bafs_put_minor_number_def bind_eq_Some_conv split: if_splits nat.splits)

lemma release_ctrls_groups: "release_ctrls cs s = Some s' \<Longrightarrow> krefs s' (KGroup g) = krefs s (KGroup g)"
  by (induction cs arbitrary: s) (auto elim!: bind_SomeE dest: ctrl_release_groups)

lemma group_release_last:
  assumes inv: "winv X L M C G s" and k: "krefs s (KGroup g) = 1" and x: "groups s g = Some x"
    and run: "bafs_group_release_kref g (s\<lparr>krefs := (krefs s)(KGroup g := 0)\<rparr>) = Some s'"
  shows "winv X L M C G s' \<and> next_addr s \<le> next_addr s'"
proof -
  obtain s1 s2 where pre: "spin_lock (GroupLock g) (s\<lparr>krefs := (krefs s)(KGroup g := 0)\<rparr>) \<bind> device_destroy (group_minor x) = Some s1"
    and mid: "release_ctrls (group_ctrls x) s1 = Some s2"
    and fin: "do { s \<leftarrow> release (Buf GroupCtrls) s2; s \<leftarrow> release (DevRef CoreDev) s; s \<leftarrow> release (Cdev (group_minor x)) s;
      s \<leftarrow> group_ida_remove (group_id x) s; s \<leftarrow> bafs_put_minor_number (group_minor x) s; s \<leftarrow> spin_unlock (GroupLock g) s; kfree_group g s } = Some s'"
    using run x by (fastforce simp: bafs_group_release_kref_def bind_eq_Some_conv)
  have b: "no_node (group_kid g x) (KGroup g) s s1" "krefs s1 (KGroup g) = 0"
    and b': "next_addr s1 = next_addr s" "held s1 = insert (GroupLock g) (held s)" "GroupLock g \<notin> held s"
      "alloc_inv s \<Longrightarrow> alloc_inv s1" "ctx_inv s \<Longrightarrow> ctx_inv s1" "core_minor s1 = core_minor s" "res s1 PciDriver = res s PciDriver"
    using pre by (auto simp: prim_defs device_destroy_def no_node_def bind_eq_Some_conv alloc_inv_def split: if_splits)
  have d: "dev_inv M C G s" using inv by (simp add: winv_def)
  from k have "0 < krefs s (KGroup g)" by simp
  note hide = dev_inv_hide_group [OF d x this b(1)]
  have "winv X (insert (GroupLock g) L) (insert (nat (group_minor x)) M) C (insert (nat (group_id x)) G) s1"
    using inv hide(1) b' by (simp add: winv_def)
  then have "post (release_ctrls (group_ctrls x) s1) (\<lambda>s'. winv X (insert (GroupLock g) L) (insert (nat (group_minor x)) M) C
      (insert (nat (group_id x)) G) s' \<and> next_addr s1 \<le> next_addr s')" by (rule release_ctrls_wp) simp
  from postD [OF this mid] have m: "winv X (insert (GroupLock g) L) (insert (nat (group_minor x)) M) C (insert (nat (group_id x)) G) s2"
    "next_addr s1 \<le> next_addr s2" by simp_all
  have km: "krefs s2 (KGroup g) = 0" using release_ctrls_groups [OF mid] b(2) by simp
  have e: "krefs s' = (krefs s2)(KGroup g := 0)" "groups s' = (groups s2)(g := None)" "ctrls s' = ctrls s2" "children s' = children s2"
    "minor_ida s' = minor_ida s2 - {nat (group_minor x)}" "group_ida s' = group_ida s2 - {nat (group_id x)}" "ctrl_ida s' = ctrl_ida s2"
    and e': "next_addr s' = next_addr s2" "held s' = held s2 - {GroupLock g}" "alloc_inv s2 \<Longrightarrow> alloc_inv s'" "ctx_inv s2 \<Longrightarrow> ctx_inv s'"
      "core_minor s' = core_minor s2" "res s' PciDriver = res s2 PciDriver"
    using fin by (auto simp: prim_defs group_ida_remove_def bafs_put_minor_number_def bind_eq_Some_conv alloc_inv_def split: if_splits)
  have "dev_inv M C G s'"
    by (rule dev_inv_give [where M = "insert (nat (group_minor x)) M" and C = C and G = "insert (nat (group_id x)) G" and s = s2])
      (use m(1) km hide(2,3) in \<open>auto simp: e winv_def\<close>)
  then show ?thesis using m inv b' by (auto simp: winv_def e')
qed

lemma bafs_put_group_wp [wp]:
  assumes "winv X L M C G s" and "\<And>s'. winv X L M C G s' \<Longrightarrow> next_addr s \<le> next_addr s' \<Longrightarrow> Q s'"
  shows "post (bafs_put_group g s) Q"
proof (cases "groups s g")
  case (Some x)
  have "post (kref_put (KGroup g) (bafs_group_release_kref g) s) Q"
    by (rule kref_put_wp [OF assms(1)]) (use group_release_last [OF assms(1) _ Some] assms(2) in \<open>auto simp: post_def\<close>)
  with Some show ?thesis by (simp add: bafs_put_group_def)
qed (simp add: bafs_put_group_def)

section \<open>What the invariant gives the operations\<close>

lemma winv_fresh: "winv X {} M C G s \<Longrightarrow> fresh s"
  by (simp add: winv_def alloc_inv_def fresh_def)

lemma winv_children:
  assumes "winv X L M C G s"
  shows "children_ok s" "ctrl_children s" "child_names_ok s"
proof -
  have d: "dev_inv M C G s" using assms by (simp add: winv_def)
  note kid = dev_invD(7) [OF d]
  show "children_ok s" using dev_invD(6) [OF d] by (auto simp: children_ok_def)
  have "ch_data ch = Some (DrvCtrl (ctrl_of ch)) \<and> ctrls s (ctrl_of ch) \<noteq> None \<and> 0 < krefs s (KCtrl (ctrl_of ch))"
    if "ch \<in> set (children s)" "ctrl_class ch" for ch
    using kid [OF that(1)] by (cases rule: kid_okE)
      (use that(2) in \<open>auto simp: ctrl_of_def ctrl_class_def BAFS_CTRL_CLASS_NAME_def BAFS_GROUP_CLASS_NAME_def\<close>)
  then show "ctrl_children s" by (simp add: ctrl_children_def)
  have "(\<exists>i \<ge> 0. ch_name ch = BAFS_CTRL_DEVICE_NAME i) \<or> (\<exists>i \<ge> 0. nat i \<in> group_ida s \<and> ch_name ch = BAFS_GROUP_DEVICE_NAME i)"
    if "ch \<in> set (children s)" for ch
    using kid [OF that] by (cases rule: kid_okE) auto
  then show "child_names_ok s" by (simp add: child_names_ok_def)
qed

lemma winv_restored: "winv X L M C G s \<Longrightarrow> restored s s' \<Longrightarrow> next_addr s \<le> next_addr s' \<Longrightarrow> winv X L M C G s'"
proof -
  assume i: "winv X L M C G s" "restored s s'" "next_addr s \<le> next_addr s'"
  have "winv X L M C G (s\<lparr>now := now s', next_addr := next_addr s'\<rparr>)"
    using i(1,3) alloc_update(6) [of "s\<lparr>now := now s'\<rparr>" "next_addr s'"] by (simp add: winv_def)
  then show ?thesis using i(2) by (simp add: restored_def)
qed

lemma winv_with_refs: "winv X L M C G s \<Longrightarrow> winv X L M C G (with_refs chs s)"
  by (simp add: winv_def with_refs_def alloc_inv_def dev_refs_def)

lemma winv_group_created:
  assumes inv: "winv X {} M C G s" and num: "0 \<le> gid" "nat gid \<notin> group_ida s" "0 \<le> mn" "nat mn \<notin> minor_ida s" and live: "ctrls_live s cs"
  shows "winv X {} M C G (group_created gid mn cs s)"
proof -
  let ?s = "group_created gid mn cs s" and ?x = "\<lparr>group_id = gid, group_minor = mn, group_ctrls = cs\<rparr>"
  have d: "dev_inv M C G s" and a: "alloc_inv s" using inv by (simp_all add: winv_def)
  have refs: "0 < ctrl_refs cs k \<Longrightarrow> \<exists>c \<in> set cs. k = KCtrl c" for k by (auto simp: ctrl_refs_def filter_empty_conv)
  have new: "krefs s (KGroup (next_addr s)) = 0" using a by (simp add: alloc_inv_def)
  have pos: "(0 < krefs ?s k) = (k = KGroup (next_addr s) \<or> 0 < krefs s k)" for k
    using live refs [of k] by (auto simp: group_created_def Let_def ctrls_live_def)
  have "dev_inv M C G ?s"
    by (rule dev_inv_add_group [OF d new, where x = ?x]) (use num pos in \<open>auto simp: group_created_def Let_def group_kid_def\<close>)
  moreover have "ctx_inv ?s" using inv by (auto simp: winv_def ctx_inv_def pos) (auto simp: group_created_def Let_def)
  moreover have zero: "krefs ?s (KCtx b) = 0" "krefs ?s (KMem b) = 0" "krefs ?s (KCtrl b) = 0" "krefs ?s (KGroup b) = 0"
    if "Suc (next_addr s) \<le> b" for b
    using pos [of "KCtx b"] pos [of "KMem b"] pos [of "KCtrl b"] pos [of "KGroup b"] a that by (auto simp: alloc_inv_def)
  have same: "next_addr ?s = Suc (next_addr s)" "ctxs ?s = ctxs s" "mems ?s = mems s" "dmas ?s = dmas s" "ctrls ?s = ctrls s"
    "groups ?s = (groups s)(next_addr s \<mapsto> ?x)" "\<And>b. res ?s (Page b) = res s (Page b)" "\<And>b. res ?s (CudaPin b) = res s (CudaPin b)"
    "\<And>b. res ?s (CudaTable b) = res s (CudaTable b)" "\<And>b. res ?s (CudaDmaMap b) = res s (CudaDmaMap b)"
    "\<And>b. res ?s (CudaMapping b) = res s (CudaMapping b)" by (simp_all add: group_created_def Let_def)
  have "alloc_inv ?s" using a zero unfolding alloc_inv_def same by auto
  ultimately show ?thesis using inv by (simp add: winv_def group_created_def Let_def)
qed

text \<open>Construction never moves the allocator back.\<close>

lemma ctrl_release_next: "bafs_ctrl_release c s = Some s' \<Longrightarrow> next_addr s' = next_addr s"
  by (auto simp: bafs_ctrl_release_def bafs_ctrl_release_kref_def device_destroy_def prim_defs Let_def ctrl_ida_remove_def
      bafs_put_minor_number_def bind_eq_Some_conv split: if_splits nat.splits)

lemma release_ctrls_next: "release_ctrls cs s = Some s' \<Longrightarrow> next_addr s' = next_addr s"
  by (induction cs arbitrary: s) (auto elim!: bind_SomeE dest: ctrl_release_next)

lemma put_devices_next: "put_devices chs s = Some s' \<Longrightarrow> next_addr s' = next_addr s"
  by (induction chs arbitrary: s) (auto simp: release_def elim!: bind_SomeE split: if_splits)

lemma get_ctrls_next: "get_ctrls chs cs s = Some (ret, cs', s') \<Longrightarrow> next_addr s' = next_addr s"
  by (induction chs arbitrary: cs s)
    (fastforce simp: bafs_get_ctrl_def kref_get_def bind_eq_Some_conv split: option.splits drvdata.splits if_splits)+

lemma find_ctrl_devices_next: "find_ctrl_devices names devs s = (ret, devs', s') \<Longrightarrow> next_addr s' = next_addr s"
  by (induction names arbitrary: devs s) (fastforce simp: Let_def split: option.splits if_splits)+

lemma group_out_next:
  "group_out_put_devices g devs s = Some s' \<Longrightarrow> next_addr s' = next_addr s"
  "group_out_free_ctrls g devs cs s = Some s' \<Longrightarrow> next_addr s' = next_addr s"
  by (auto simp: group_out_put_devices_def group_out_free_ctrls_def release_def kfree_group_def bind_eq_Some_conv
      dest!: put_devices_next release_ctrls_next split: if_splits)

lemma group_alloc_device_next: "group_alloc_device K g devs cs s = Some (ret, og, s') \<Longrightarrow> next_addr s' = next_addr s"
  by (auto simp: group_alloc_device_def fails_def group_out_id_put_def group_out_minor_put_def group_out_delete_cdev_def
      device_create_def Let_def prim_defs group_ida_get_def group_ida_remove_def bafs_get_minor_number_def bafs_put_minor_number_def
      bind_eq_Some_conv dest!: group_out_next put_devices_next split: if_splits)

lemma group_alloc_next: "bafs_group_alloc K names s = Some (ret, g, s') \<Longrightarrow> next_addr s \<le> next_addr s'"
  by (auto simp: bafs_group_alloc_def fails_def Let_def ask_def acquire_def kfree_group_def bind_eq_Some_conv
      dest!: find_ctrl_devices_next group_out_next get_ctrls_next group_alloc_device_next split: if_splits prod.splits)

lemma bafs_group_alloc_wp [wp]:
  assumes inv: "winv X {} M C G s" and ida: "ida_ok K"
    and Q: "\<And>ret g s'. winv X {} M C G s' \<Longrightarrow> next_addr s \<le> next_addr s' \<Longrightarrow> Q (ret, g, s')"
  shows "post (bafs_group_alloc K names s) Q"
  unfolding post_def
proof (intro allI impI)
  fix y
  assume "bafs_group_alloc K names s = Some y"
  moreover obtain ret g s' where y: "y = (ret, g, s')" by (cases y)
  ultimately have run: "bafs_group_alloc K names s = Some (ret, g, s')" by simp
  with bafs_group_alloc_cases [OF winv_fresh [OF inv] ida winv_children(2) [OF inv], of names]
  consider gid mn where "names_ctrls s names" "0 \<le> gid" "0 \<le> mn" "nat gid \<notin> group_ida s" "nat mn \<notin> minor_ida s"
      "s' = (group_created gid mn (members s names) s)\<lparr>now := now s'\<rparr>"
    | "restored s s'" | "restored (with_refs (odd_one names s) s) s'"
    by (auto split: if_splits)
  then have "winv X {} M C G s'"
  proof cases
    case 1
    have "ctrls_live s (members s names)"
      using names_ctrls_live [OF winv_children(2) [OF inv] 1(1)] by (auto simp: ctrls_live_def members_def)
    from winv_group_created [OF inv 1(2,4,3,5) this] show ?thesis by (subst 1(6)) simp
  next
    case 2
    then show ?thesis using winv_restored [OF inv] group_alloc_next [OF run] by blast
  next
    case 3
    then show ?thesis using winv_restored [OF winv_with_refs [OF inv]] group_alloc_next [OF run] by simp
  qed
  then show "Q y" unfolding y using group_alloc_next [OF run] by (rule Q)
qed

lemma ctrl_alloc_next: "bafs_ctrl_alloc K p s = Some (ret, c, s') \<Longrightarrow> next_addr s \<le> next_addr s'"
  by (auto simp: bafs_ctrl_alloc_def ctrl_alloc_numbers_def ctrl_alloc_device_def ctrl_out_defs device_create_def Let_def prim_defs
      bafs_get_minor_number_def bafs_put_minor_number_def ctrl_ida_get_def ctrl_ida_remove_def bind_eq_Some_conv split: if_splits)

text \<open>A probe does not depend on what an earlier one left in the device.\<close>

lemma ctrl_alloc_again:
  assumes "k_alloc K (now s)"
  shows "bafs_ctrl_alloc K p s = bafs_ctrl_alloc K p (s\<lparr>pci_drvdata := (pci_drvdata s)(p := None), res := (res s)(PciMaster p := 0)\<rparr>)"
proof -
  have "(res s)(PciMaster p := 0, DevRef (PciDev p) := n, PciMaster p := 1) = (res s)(DevRef (PciDev p) := n, PciMaster p := 1)" for n
    by (simp add: fun_eq_iff)
  then show ?thesis
    using assms by (simp add: bafs_ctrl_alloc_def ask_def acquire_def set_flag_def)
qed

lemma winv_ctrl_created:
  assumes inv: "winv X {} M C G s" and num: "0 \<le> mn" "nat mn \<notin> minor_ida s" "0 \<le> i" "nat i \<notin> ctrl_ida s"
  shows "winv X {} M C G (ctrl_created p mn i s)"
proof -
  let ?s = "ctrl_created p mn i s" and ?x = "\<lparr>pdev = p, ctrl_minor = mn, ctrl_id = i\<rparr>"
  have d: "dev_inv M C G s" and a: "alloc_inv s" using inv by (simp_all add: winv_def)
  have new: "krefs s (KCtrl (next_addr s)) = 0" using a by (simp add: alloc_inv_def)
  have "dev_inv M C G ?s"
    by (rule dev_inv_add_ctrl [OF d new, where x = ?x]) (use num in \<open>auto simp: ctrl_created_def Let_def ctrl_kid_def\<close>)
  moreover have "alloc_inv ?s" using a by (auto simp: alloc_inv_def ctrl_created_def Let_def)
  ultimately show ?thesis using inv by (simp add: winv_def ctrl_created_def Let_def ctx_inv_def)
qed

lemma bafs_ctrl_alloc_wp [wp]:
  assumes inv: "winv X {} M C G s" and ida: "ida_ok K"
    and Q: "\<And>ret c s'. winv X {} M C G s' \<Longrightarrow> next_addr s \<le> next_addr s' \<Longrightarrow> Q (ret, c, s')"
  shows "post (bafs_ctrl_alloc K p s) Q"
proof (cases "k_alloc K (now s)")
  case False
  with inv show ?thesis by (auto simp: bafs_ctrl_alloc_def ask_def intro!: Q)
next
  case True
  let ?s = "s\<lparr>pci_drvdata := (pci_drvdata s)(p := None), res := (res s)(PciMaster p := 0)\<rparr>"
  have i: "winv X {} M C G ?s" using winv_res [of X "{}" M C G "s\<lparr>pci_drvdata := (pci_drvdata s)(p := None)\<rparr>" "PciMaster p" 0] inv by simp
  have "winv X {} M C G s'" if run: "bafs_ctrl_alloc K p s = Some (ret, c, s')" for ret c s'
  proof (cases "restored ?s s'")
    case True
    then show ?thesis using winv_restored [OF i] ctrl_alloc_next [OF run] by simp
  next
    case no: False
    from run have "bafs_ctrl_alloc K p ?s = Some (ret, c, s')" unfolding ctrl_alloc_again [OF True] .
    with no bafs_ctrl_alloc_cases [OF winv_fresh [OF i] ida, of p]
    obtain x :: bafs_ctrl where num: "0 \<le> ctrl_minor x" "0 \<le> ctrl_id x" "nat (ctrl_minor x) \<notin> minor_ida ?s" "nat (ctrl_id x) \<notin> ctrl_ida ?s"
      and s': "s' = (ctrl_created p (ctrl_minor x) (ctrl_id x) ?s)\<lparr>now := now s'\<rparr>" by (auto split: if_splits)
    show ?thesis by (subst s') (simp add: winv_ctrl_created [OF i num(1,3,2,4)] del: world.simps)
  qed
  then show ?thesis using ctrl_alloc_next Q by (fastforce simp: post_def)
qed

end
