(* ===== verification/Bafs_Inv_Mem.thy ===== *)
theory Bafs_Inv_Mem
  imports Bafs_Inv_Dev
begin

text \<open>
  Preservation of the invariant by registration, pinning, mapping and release of memory, and by the
  file operations of the three devices. Each proof runs the rules \<open>wp\<close> along the operation.
\<close>

section \<open>Pinning and releasing pages\<close>

lemma post_elem [simp]: "post (nth_opt xs i) (\<lambda>e. post e (R e)) = (\<forall>p. nth_opt xs i = Some (Some p) \<longrightarrow> R (Some p) p)"
  by (auto simp: post_def)

lemma field_wp [wp]:
  "(\<And>x. cpu_page_table m = Some x \<Longrightarrow> Q1 x) \<Longrightarrow> post (cpu_page_table m) Q1"
  "(\<And>x. cuda_page_table m = Some x \<Longrightarrow> Q2 x) \<Longrightarrow> post (cuda_page_table m) Q2"
  "(\<And>x. cuda_mapping d = Some x \<Longrightarrow> Q3 x) \<Longrightarrow> post (cuda_mapping d) Q3"
  "(\<And>x. dma_addrs d = Some x \<Longrightarrow> Q4 x) \<Longrightarrow> post (dma_addrs d) Q4"
  by (simp_all add: post_def)

lemma winv_next [wp]: "winv X L M C G s \<Longrightarrow> next_addr s \<le> a \<Longrightarrow> winv X L M C G (s\<lparr>next_addr := a\<rparr>)"
  by (simp add: winv_def alloc_update)

lemma cpu_alloc_loop_wp [wp]:
  assumes "winv X L M C G s" and "\<And>i s'. winv X L M C G s' \<Longrightarrow> next_addr s \<le> next_addr s' \<Longrightarrow> Q (i, s')"
  shows "post (cpu_alloc_loop K m i k s) Q"
  using assms
proof (induction k arbitrary: i s)
  case (Suc k)
  show ?case
    using Suc.prems(1)
    by (auto simp: Let_def ask_def intro!: wp Suc.prems(2) Suc.IH)
qed simp

lemma cpu_free_down_wp [wp]:
  assumes "winv X L M C G s" and "\<And>s'. winv X L M C G s' \<Longrightarrow> next_addr s \<le> next_addr s' \<Longrightarrow> Q s'"
  shows "post (cpu_free_down m i s) Q"
  using assms
proof (induction i arbitrary: s)
  case (Suc i)
  show ?case
    using Suc.prems(1) by (auto simp: Let_def ask_def intro!: wp Suc.prems(2) Suc.IH)
qed simp

lemma cpu_out_wp [wp]:
  assumes "winv X L M C G s" and "\<And>s'. winv X L M C G s' \<Longrightarrow> next_addr s \<le> next_addr s' \<Longrightarrow> Q s'"
  shows "post (cpu_out_clean_page_table m i s) Q"
  unfolding cpu_out_clean_page_table_def using assms(1) by (auto intro!: wp assms(2))

lemma pin_bafs_cpu_mem_wp [wp]:
  assumes "winv X L M C G s" and "\<And>ret s'. winv X L M C G s' \<Longrightarrow> next_addr s \<le> next_addr s' \<Longrightarrow> Q (ret, s')"
  shows "post (pin_bafs_cpu_mem K m s) Q"
  unfolding pin_bafs_cpu_mem_def using assms(1) by (auto simp: Let_def ask_def split: option.split intro!: wp assms(2))

lemma cuda_dma_free_loop_wp [wp]:
  assumes "winv X L M C G s" and "\<And>s'. winv X L M C G s' \<Longrightarrow> next_addr s \<le> next_addr s' \<Longrightarrow> Q s'"
  shows "post (cuda_dma_free_loop ds s) Q"
  using assms
proof (induction ds arbitrary: s)
  case (Cons d ds)
  show ?case using Cons.prems(1) by (auto intro!: wp Cons.prems(2) Cons.IH)
qed simp

lemma release_bafs_cuda_mem_wp [wp]:
  assumes "winv X L M C G s" and "\<And>s'. winv X L M C G s' \<Longrightarrow> next_addr s \<le> next_addr s' \<Longrightarrow> Q s'"
  shows "post (release_bafs_cuda_mem data s) Q"
  unfolding release_bafs_cuda_mem_def using assms(1) by (auto split: option.split intro!: wp assms(2))

lemma winv_p2p_teardown: "winv X L M C G s \<Longrightarrow> winv X L M C G (p2p_teardown m s)"
  by (auto simp: winv_def alloc_inv_def p2p_teardown_def dev_inv_def kid_ok_def ctx_inv_def split: option.split)

lemma p2p_revoke_wp [wp]:
  assumes "winv X L M C G s" and "\<And>s'. winv X L M C G s' \<Longrightarrow> next_addr s \<le> next_addr s' \<Longrightarrow> Q s'"
  shows "post (p2p_revoke m s) Q"
  unfolding p2p_revoke_def
  by (rule release_bafs_cuda_mem_wp [OF winv_p2p_teardown [OF assms(1)]]) (use assms(2) in \<open>simp add: p2p_teardown_def\<close>)

lemma cuda_remap_loop_wp [wp]:
  assumes "winv X L M C G s" and "\<And>ret s'. winv X L M C G s' \<Longrightarrow> next_addr s \<le> next_addr s' \<Longrightarrow> Q (ret, s')"
  shows "post (cuda_remap_loop K m i k s) Q"
  using assms
proof (induction k arbitrary: i s)
  case (Suc k)
  show ?case using Suc.prems(1) by (auto simp: io_remap_pfn_range_def ask_def Let_def intro!: wp Suc.prems(2) Suc.IH)
qed simp

lemma p2p_put_pages_wp [wp]:
  assumes "winv X L M C G s" and "\<And>s'. winv X L M C G s' \<Longrightarrow> next_addr s \<le> next_addr s' \<Longrightarrow> Q s'"
  shows "post (p2p_put_pages K m s) Q"
  unfolding p2p_put_pages_def using assms(1) by (auto intro!: wp assms(2))

lemma p2p_dma_unmap_pages_wp [wp]:
  assumes "winv X L M C G s" and "\<And>s'. winv X L M C G s' \<Longrightarrow> next_addr s \<le> next_addr s' \<Longrightarrow> Q s'"
  shows "post (p2p_dma_unmap_pages K d s) Q"
  unfolding p2p_dma_unmap_pages_def using assms(1) by (auto intro!: wp assms(2))

lemma cuda_out_wp [wp]:
  assumes "winv X L M C G s" and "\<And>ret s'. winv X L M C G s' \<Longrightarrow> next_addr s \<le> next_addr s' \<Longrightarrow> Q (ret, s')"
  shows "post (cuda_out_delete_page_table K m ret s) Q"
  unfolding cuda_out_delete_page_table_def using assms(1) by (auto intro!: wp assms(2))

lemma pin_bafs_cuda_mem_wp [wp]:
  assumes "winv X L M C G s" and "m < next_addr s" and "\<And>ret s'. winv X L M C G s' \<Longrightarrow> next_addr s \<le> next_addr s' \<Longrightarrow> Q (ret, s')"
  shows "post (pin_bafs_cuda_mem K m v s) Q"
  unfolding pin_bafs_cuda_mem_def using assms(1,2) by (auto simp: Let_def ask_def split: option.split intro!: wp assms(3))

lemma cpu_free_up_wp [wp]:
  assumes "winv X L M C G s" and "\<And>s'. winv X L M C G s' \<Longrightarrow> next_addr s \<le> next_addr s' \<Longrightarrow> Q s'"
  shows "post (cpu_free_up m i k s) Q"
  using assms
proof (induction k arbitrary: i s)
  case (Suc k)
  show ?case using Suc.prems(1) by (auto intro!: wp Suc.prems(2) Suc.IH)
qed simp

lemma mem_release_pages_wp [wp]:
  assumes "winv X L M C G s" and "\<And>s'. winv X L M C G s' \<Longrightarrow> next_addr s \<le> next_addr s' \<Longrightarrow> Q s'"
  shows "post (mem_release_pages K m s) Q"
  unfolding mem_release_pages_def using assms(1) by (auto intro!: wp assms(2))

section \<open>References, registration and unmapping\<close>

lemma winv_mem_refs:
  assumes "winv X L M C G s"
  shows "m < next_addr s \<or> n = 0 \<Longrightarrow> winv X L M C G (s\<lparr>krefs := (krefs s)(KMem m := n)\<rparr>)"
    and "a = next_addr s \<Longrightarrow> f = mems s \<Longrightarrow> winv X L M C G (s\<lparr>next_addr := Suc a, mems := f(a \<mapsto> x)\<rparr>)"
  using assms by (auto simp: winv_def alloc_inv_def)

lemma winv_kref_init_mem [wp]: "winv X L M C G s \<Longrightarrow> m < next_addr s \<Longrightarrow> winv X L M C G (kref_init (KMem m) s)"
  by (simp add: kref_init_def winv_mem_refs)

lemma kref_init_next [simp]: "next_addr (kref_init k s) = next_addr s"
  by (simp add: kref_init_def)

declare winv_mem_refs(2) [wp]

lemma ctx_forget_mem_wp [wp]:
  assumes "winv X L M C G s" and "\<And>s'. winv X L M C G s' \<Longrightarrow> next_addr s \<le> next_addr s' \<Longrightarrow> Q s'"
  shows "post (ctx_forget_mem c m i s) Q"
  unfolding ctx_forget_mem_def using assms(1) by (auto intro!: wp assms(2))

lemma bafs_mem_release_kref_wp [wp]:
  assumes "winv X L M C G s" and "\<And>s'. winv X L M C G s' \<Longrightarrow> next_addr s \<le> next_addr s' \<Longrightarrow> Q s'"
  shows "post (bafs_mem_release_kref K m s) Q"
  unfolding bafs_mem_release_kref_def using assms(1) by (auto simp: Let_def intro!: wp assms(2))

lemma bafs_mem_put_wp [wp]:
  assumes "winv X L M C G s" and "\<And>s'. winv X L M C G s' \<Longrightarrow> next_addr s \<le> next_addr s' \<Longrightarrow> Q s'"
  shows "post (bafs_mem_put K m s) Q"
  unfolding bafs_mem_put_def
  by (rule kref_put_wp [OF assms(1)], rule assms(2), assumption+)
    (use assms winv_mem_refs(1) [OF assms(1), of m 0] in \<open>auto intro!: bafs_mem_release_kref_wp\<close>)

lemma bafs_core_reg_mem_wp [wp]:
  assumes "winv X L M C G s" and "\<And>ret s'. winv X L M C G s' \<Longrightarrow> next_addr s \<le> next_addr s' \<Longrightarrow> Q (ret, s')"
  shows "post (bafs_core_reg_mem K argp c s) Q"
  unfolding bafs_core_reg_mem_def using assms(1) by (auto simp: Let_def ask_def split: option.split intro!: wp assms(2))

lemma dma_unmap_up_wp [wp]:
  assumes "winv X L M C G s" and "\<And>s'. winv X L M C G s' \<Longrightarrow> next_addr s \<le> next_addr s' \<Longrightarrow> Q s'"
  shows "post (dma_unmap_up p g sz as i k s) Q"
  using assms
proof (induction k arbitrary: i s)
  case (Suc k)
  show ?case using Suc.prems(1) by (auto simp: Let_def ask_def split: option.split intro!: wp Suc.prems(2) Suc.IH)
qed simp


lemma unmap_dma_wp [wp]:
  assumes "winv X L M C G s" and "\<And>s'. winv X L M C G s' \<Longrightarrow> next_addr s \<le> next_addr s' \<Longrightarrow> Q s'"
  shows "post (unmap_dma K d s) Q"
  unfolding unmap_dma_def using assms(1) by (auto simp: Let_def ask_def split: option.split intro!: wp assms(2))


lemma mem_release_loop_wp [wp]:
  assumes "winv X L M C G s" and "\<And>s'. winv X L M C G s' \<Longrightarrow> next_addr s \<le> next_addr s' \<Longrightarrow> Q s'"
  shows "post (mem_release_loop K m ds s) Q"
  using assms
proof (induction ds arbitrary: s)
  case (Cons d ds)
  show ?case using Cons.prems(1) by (auto simp: Let_def ask_def split: option.split intro!: wp Cons.prems(2) Cons.IH)
qed simp


lemma bafs_mem_release_wp [wp]:
  assumes "winv X L M C G s" and "\<And>s'. winv X L M C G s' \<Longrightarrow> next_addr s \<le> next_addr s' \<Longrightarrow> Q s'"
  shows "post (bafs_mem_release K v s) Q"
  unfolding bafs_mem_release_def using assms(1) by (auto simp: Let_def ask_def split: option.split intro!: wp assms(2))


lemma pin_bafs_mem_wp [wp]:
  assumes "winv X L M C G s" and "\<And>ret s'. winv X L M C G s' \<Longrightarrow> next_addr s \<le> next_addr s' \<Longrightarrow> Q (ret, s')"
  shows "post (pin_bafs_mem K v c s) Q"
  unfolding pin_bafs_mem_def using assms(1) by (auto simp: Let_def ask_def split: option.split intro!: wp assms(2))


section \<open>Lookup and DMA mapping\<close>

lemma find_mem_loop_wp [wp]:
  assumes "winv X L M C G s" and "\<And>m s'. winv X L M C G s' \<Longrightarrow> next_addr s \<le> next_addr s' \<Longrightarrow> Q (m, s')"
  shows "post (find_mem_loop K va ms s) Q"
  using assms
proof (induction ms arbitrary: s)
  case (Cons m ms)
  show ?case using Cons.prems(1) by (auto simp: Let_def ask_def split: option.split intro!: wp Cons.prems(2) Cons.IH)
qed simp


lemma bafs_get_mem_with_ctx_wp [wp]:
  assumes "winv X L M C G s" and "\<And>m s'. winv X L M C G s' \<Longrightarrow> next_addr s \<le> next_addr s' \<Longrightarrow> Q (m, s')"
  shows "post (bafs_get_mem_with_ctx K va c s) Q"
  unfolding bafs_get_mem_with_ctx_def using assms(1) by (auto simp: Let_def ask_def split: option.split intro!: wp assms(2))


lemma dma_map_loop_wp [wp]:
  assumes "winv X L M C G s" and "\<And>i as s'. winv X L M C G s' \<Longrightarrow> next_addr s \<le> next_addr s' \<Longrightarrow> Q (i, as, s')"
  shows "post (dma_map_loop K p g sz pt i k as s) Q"
  using assms
proof (induction k arbitrary: i as s pt)
  case (Suc k)
  show ?case using Suc.prems(1) by (auto simp: Let_def ask_def post_def [of pt] split: option.split intro!: wp Suc.prems(2) Suc.IH)
qed simp


lemma dma_unmap_down_wp [wp]:
  assumes "winv X L M C G s" and "\<And>s'. winv X L M C G s' \<Longrightarrow> next_addr s \<le> next_addr s' \<Longrightarrow> Q s'"
  shows "post (dma_unmap_down p g as i s) Q"
  using assms
proof (induction i arbitrary: s)
  case (Suc i)
  show ?case using Suc.prems(1) by (auto simp: Let_def ask_def split: option.split intro!: wp Suc.prems(2) Suc.IH)
qed simp


lemma dma_out_delete_wp [wp]:
  assumes "winv X L M C G s" and "\<And>ret d n s'. winv X L M C G s' \<Longrightarrow> next_addr s \<le> next_addr s' \<Longrightarrow> Q (ret, d, n, s')"
  shows "post (dma_out_delete K c m d ret n s) Q"
  unfolding dma_out_delete_def using assms(1) by (auto simp: Let_def ask_def split: option.split intro!: wp assms(2))


lemma dma_link_wp [wp]:
  assumes "winv X L M C G s" and "\<And>ret d n s'. winv X L M C G s' \<Longrightarrow> next_addr s \<le> next_addr s' \<Longrightarrow> Q (ret, d, n, s')"
  shows "post (dma_link m d n s) Q"
  unfolding dma_link_def using assms(1) by (auto simp: Let_def ask_def split: option.split intro!: wp assms(2))


lemma dma_map_cpu_wp [wp]:
  assumes "winv X L M C G s" and "\<And>ret d n s'. winv X L M C G s' \<Longrightarrow> next_addr s \<le> next_addr s' \<Longrightarrow> Q (ret, d, n, s')"
  shows "post (dma_map_cpu K c m d n dst idx s) Q"
  unfolding dma_map_cpu_def using assms(1) by (auto simp: Let_def ask_def copy_longs_to_user_def split: option.split intro!: wp assms(2))


lemma dma_map_cuda_wp [wp]:
  assumes "winv X L M C G s" and "d < next_addr s" and "\<And>ret e n s'. winv X L M C G s' \<Longrightarrow> next_addr s \<le> next_addr s' \<Longrightarrow> Q (ret, e, n, s')"
  shows "post (dma_map_cuda K c m d n dst idx s) Q"
  unfolding dma_map_cuda_def using assms(1,2) by (auto simp: Let_def ask_def copy_longs_to_user_def split: option.split intro!: wp assms(3))


lemma winv_new_dma [wp]:
  "winv X L M C G s \<Longrightarrow> a = next_addr s \<Longrightarrow> f = dmas s \<Longrightarrow> winv X L M C G (s\<lparr>next_addr := Suc a, dmas := f(a \<mapsto> x)\<rparr>)"
  by (auto simp: winv_def alloc_inv_def)

lemma bafs_ctrl_dma_map_mem_wp [wp]:
  assumes "winv X L M C G s" and "\<And>ret d n s'. winv X L M C G s' \<Longrightarrow> next_addr s \<le> next_addr s' \<Longrightarrow> Q (ret, d, n, s')"
  shows "post (bafs_ctrl_dma_map_mem K c ctx va n dst idx s) Q"
  unfolding bafs_ctrl_dma_map_mem_def using assms(1) by (auto simp: Let_def ask_def split: option.split intro!: wp assms(2))


lemma bafs_ctrl_dma_unmap_mem_wp [wp]:
  assumes "winv X L M C G s" and "\<And>s'. winv X L M C G s' \<Longrightarrow> next_addr s \<le> next_addr s' \<Longrightarrow> Q s'"
  shows "post (bafs_ctrl_dma_unmap_mem K d s) Q"
  unfolding bafs_ctrl_dma_unmap_mem_def using assms(1) by (auto simp: Let_def ask_def split: option.split intro!: wp assms(2))


section \<open>Files of a controller\<close>

lemma release_stale_loop_wp [wp]:
  assumes "winv X L M C G s" and "\<And>s'. winv X L M C G s' \<Longrightarrow> next_addr s \<le> next_addr s' \<Longrightarrow> Q s'"
  shows "post (release_stale_loop c ms s) Q"
  using assms
proof (induction ms arbitrary: s)
  case (Cons m ms)
  show ?case using Cons.prems(1) by (auto simp: Let_def ask_def split: option.split intro!: wp Cons.prems(2) Cons.IH)
qed simp


lemma release_stale_wp [wp]:
  assumes "winv X L M C G s" and "\<And>s'. winv X L M C G s' \<Longrightarrow> next_addr s \<le> next_addr s' \<Longrightarrow> Q s'"
  shows "post (release_stale c s) Q"
  unfolding release_stale_def using assms(1) by (auto simp: Let_def ask_def split: option.split intro!: wp assms(2))


lemma bafs_ctrl_dma_map_ioctl_wp [wp]:
  assumes "winv X L M C G s" and "\<And>ret s'. winv X L M C G s' \<Longrightarrow> next_addr s \<le> next_addr s' \<Longrightarrow> Q (ret, s')"
  shows "post (bafs_ctrl_dma_map_ioctl K c ctx argp s) Q"
  unfolding bafs_ctrl_dma_map_ioctl_def using assms(1) by (auto simp: Let_def ask_def post_def [of "_ :: addr option"] split: option.split intro!: wp assms(2))


lemma bafs_ctrl_ioctl_wp [wp]:
  assumes "winv X L M C G s" and "\<And>ret s'. winv X L M C G s' \<Longrightarrow> next_addr s \<le> next_addr s' \<Longrightarrow> Q (ret, s')"
  shows "post (bafs_ctrl_ioctl K pd cmd argp s) Q"
  unfolding bafs_ctrl_ioctl_def using assms(1) by (auto simp: Let_def ask_def split: option.split private_data.split intro!: wp assms(2))


lemma bafs_ctrl_open_wp [wp]:
  assumes "winv X L M C G s" and "\<And>ret pd s'. winv X L M C G s' \<Longrightarrow> next_addr s \<le> next_addr s' \<Longrightarrow> Q (ret, pd, s')"
  shows "post (bafs_ctrl_open K t c s) Q"
  unfolding bafs_ctrl_open_def using assms(1) by (auto simp: Let_def ask_def split: option.split intro!: wp assms(2))


lemma bafs_ctrl_file_release_wp [wp]:
  assumes "winv X L M C G s" and "\<And>ret pd' s'. winv X L M C G s' \<Longrightarrow> next_addr s \<le> next_addr s' \<Longrightarrow> Q (ret, pd', s')"
  shows "post (bafs_ctrl_file_release pd s) Q"
  unfolding bafs_ctrl_file_release_def using assms(1) by (auto simp: Let_def ask_def split: option.split private_data.split intro!: wp assms(2))


lemma bafs_ctrl_mmap_wp [wp]:
  assumes "winv X L M C G s" and "\<And>ret n s'. winv X L M C G s' \<Longrightarrow> next_addr s \<le> next_addr s' \<Longrightarrow> Q (ret, n, s')"
  shows "post (bafs_ctrl_mmap K c v va sz s) Q"
  unfolding bafs_ctrl_mmap_def using assms(1) by (auto simp: Let_def ask_def io_remap_pfn_range_def split: option.split intro!: wp assms(2))


lemma bafs_ctrl_file_mmap_wp [wp]:
  assumes "winv X L M C G s" and "\<And>ret s'. winv X L M C G s' \<Longrightarrow> next_addr s \<le> next_addr s' \<Longrightarrow> Q (ret, s')"
  shows "post (bafs_ctrl_file_mmap K pd v s) Q"
  unfolding bafs_ctrl_file_mmap_def using assms(1) by (auto simp: Let_def ask_def split: option.split private_data.split intro!: wp assms(2))


end
