(* ===== verification/Bafs_System.thy ===== *)
theory Bafs_System
  imports Bafs_Inv_Mem
begin

text \<open>
  The invariant of the running system: the file operations of groups and of the core device,
  loading and unloading keep it, so it holds in every reachable state; and what the theorems on
  single operations say in every reachable state.
\<close>

section \<open>Files of a group\<close>

lemma group_map_loop_wp [wp]:
  assumes "winv X L M C G s" and "\<And>ret es k s'. winv X L M C G s' \<Longrightarrow> next_addr s \<le> next_addr s' \<Longrightarrow> Q (ret, es, k, s')"
  shows "post (group_map_loop K ctx va dst cs i per n ds s) Q"
  using assms
proof (induction cs arbitrary: i per n ds s)
  case (Cons c cs)
  show ?case using Cons.prems(1) by (auto simp: Let_def ask_def post_def [of "_ :: addr option"] split: option.split intro!: wp Cons.prems(2) Cons.IH)
qed simp


lemma unmap_mems_wp [wp]:
  assumes "winv X L M C G s" and "\<And>s'. winv X L M C G s' \<Longrightarrow> next_addr s \<le> next_addr s' \<Longrightarrow> Q s'"
  shows "post (unmap_mems K ds s) Q"
  using assms
proof (induction ds arbitrary: s)
  case (Cons d ds)
  show ?case using Cons.prems(1) by (auto simp: Let_def ask_def split: option.split intro!: wp Cons.prems(2) Cons.IH)
qed simp


lemma group_out_unmap_mems_wp [wp]:
  assumes "winv X L M C G s" and "\<And>ret s'. winv X (L - {GroupLock g}) M C G s' \<Longrightarrow> next_addr s \<le> next_addr s' \<Longrightarrow> Q (ret, s')"
  shows "post (group_out_unmap_mems K g ds ret s) Q"
  unfolding group_out_unmap_mems_def using assms(1) by (auto simp: Let_def ask_def split: option.split intro!: wp assms(2))


lemma bafs_group_dma_map_mem_wp [wp]:
  assumes "winv X L M C G s" and "\<And>ret s'. winv X L M C G s' \<Longrightarrow> next_addr s \<le> next_addr s' \<Longrightarrow> Q (ret, s')"
  shows "post (bafs_group_dma_map_mem K g ctx argp s) Q"
  unfolding bafs_group_dma_map_mem_def using assms(1) by (auto simp: Let_def ask_def split: option.split intro!: wp assms(2))


lemma bafs_group_ioctl_wp [wp]:
  assumes "winv X L M C G s" and "\<And>ret s'. winv X L M C G s' \<Longrightarrow> next_addr s \<le> next_addr s' \<Longrightarrow> Q (ret, s')"
  shows "post (bafs_group_ioctl K pd cmd argp s) Q"
  unfolding bafs_group_ioctl_def using assms(1) by (auto simp: Let_def ask_def split: option.split private_data.split intro!: wp assms(2))


lemma bafs_group_open_wp [wp]:
  assumes "winv X L M C G s" and "\<And>ret pd s'. winv X L M C G s' \<Longrightarrow> next_addr s \<le> next_addr s' \<Longrightarrow> Q (ret, pd, s')"
  shows "post (bafs_group_open K t g s) Q"
  unfolding bafs_group_open_def using assms(1) by (auto simp: Let_def ask_def split: option.split intro!: wp assms(2))


lemma bafs_group_release_wp [wp]:
  assumes "winv X L M C G s" and "\<And>ret pd' s'. winv X L M C G s' \<Longrightarrow> next_addr s \<le> next_addr s' \<Longrightarrow> Q (ret, pd', s')"
  shows "post (bafs_group_release pd s) Q"
  unfolding bafs_group_release_def using assms(1) by (auto simp: Let_def ask_def split: option.split private_data.split intro!: wp assms(2))


lemma group_mmap_loop_wp [wp]:
  assumes "winv X L M C G s" and "\<And>ret s'. winv X L M C G s' \<Longrightarrow> next_addr s \<le> next_addr s' \<Longrightarrow> Q (ret, s')"
  shows "post (group_mmap_loop K cs v start n cur s) Q"
  using assms
proof (induction cs arbitrary: n cur s)
  case (Cons c cs)
  show ?case using Cons.prems(1) by (auto simp: Let_def ask_def split: option.split intro!: wp Cons.prems(2) Cons.IH)
qed simp


lemma bafs_group_mmap_wp [wp]:
  assumes "winv X L M C G s" and "\<And>ret s'. winv X L M C G s' \<Longrightarrow> next_addr s \<le> next_addr s' \<Longrightarrow> Q (ret, s')"
  shows "post (bafs_group_mmap K pd v s) Q"
  unfolding bafs_group_mmap_def using assms(1) by (auto simp: Let_def ask_def split: option.split private_data.split intro!: wp assms(2))


section \<open>The core device\<close>

lemma copy_ctrl_names_now: "copy_ctrl_names K src i k names s = (ret, names', s') \<Longrightarrow> s'\<lparr>now := 0\<rparr> = s\<lparr>now := 0\<rparr>"
  by (induction k arbitrary: i names s) (fastforce simp: strncpy_from_user_def ask_def Let_def split: if_splits)+

lemma copy_ctrl_names_inv:
  assumes "copy_ctrl_names K src i k names s = (ret, names', s')"
  shows "next_addr s' = next_addr s \<and> winv X L M C G s' = winv X L M C G s"
proof -
  have "next_addr (s'\<lparr>now := 0\<rparr>) = next_addr (s\<lparr>now := 0\<rparr>)" "winv X L M C G (s'\<lparr>now := 0\<rparr>) = winv X L M C G (s\<lparr>now := 0\<rparr>)"
    by (simp_all only: copy_ctrl_names_now [OF assms])
  then show ?thesis by simp
qed

lemma create_named_group_wp [wp]:
  assumes "winv X {} M C G s" and "ida_ok K" and "\<And>ret s'. winv X {} M C G s' \<Longrightarrow> next_addr s \<le> next_addr s' \<Longrightarrow> Q (ret, s')"
  shows "post (create_named_group K dst names s) Q"
  unfolding create_named_group_def using assms(1,2) by (auto simp: Let_def ask_def post_def [of "_ :: addr option"] split: option.split intro!: wp assms(3))


lemma bafs_core_create_group_wp [wp]:
  assumes "winv X {} M C G s" and "ida_ok K" and "\<And>ret s'. winv X {} M C G s' \<Longrightarrow> next_addr s \<le> next_addr s' \<Longrightarrow> Q (ret, s')"
  shows "post (bafs_core_create_group K argp s) Q"
  unfolding bafs_core_create_group_def using assms(1,2) by (auto simp: Let_def ask_def split: option.split prod.split intro!: wp assms(3))
    (drule copy_ctrl_names_inv [where X = X and L = "{}" and M = M and C = C and G = G], simp add: winv_acquire)+


lemma bafs_core_delete_group_wp [wp]:
  assumes "winv X L M C G s" and "\<And>ret s'. winv X L M C G s' \<Longrightarrow> next_addr s \<le> next_addr s' \<Longrightarrow> Q (ret, s')"
  shows "post (bafs_core_delete_group K argp s) Q"
  unfolding bafs_core_delete_group_def using assms(1) by (auto simp: Let_def ask_def strncpy_from_user_def split: option.split intro!: wp assms(2))


lemma bafs_core_mmap_wp [wp]:
  assumes "winv X L M C G s" and "\<And>ret s'. winv X L M C G s' \<Longrightarrow> next_addr s \<le> next_addr s' \<Longrightarrow> Q (ret, s')"
  shows "post (bafs_core_mmap K pd v s) Q"
  unfolding bafs_core_mmap_def using assms(1) by (auto simp: Let_def ask_def split: option.split private_data.split intro!: wp assms(2))


lemma bafs_core_ioctl_wp [wp]:
  assumes "winv X {} M C G s" and "ida_ok K" and "\<And>ret s'. winv X {} M C G s' \<Longrightarrow> next_addr s \<le> next_addr s' \<Longrightarrow> Q (ret, s')"
  shows "post (bafs_core_ioctl K pd cmd argp s) Q"
  unfolding bafs_core_ioctl_def using assms(1,2) by (auto simp: Let_def ask_def split: option.split private_data.split intro!: wp assms(3))


lemma bafs_core_release_wp [wp]:
  assumes "winv X L M C G s" and "\<And>ret pd' s'. winv X L M C G s' \<Longrightarrow> next_addr s \<le> next_addr s' \<Longrightarrow> Q (ret, pd', s')"
  shows "post (bafs_core_release pd s) Q"
  unfolding bafs_core_release_def using assms(1) by (auto simp: Let_def ask_def split: option.split private_data.split intro!: wp assms(2))


section \<open>Loading, unloading and the PCI core\<close>

lemma bafs_ctrl_pci_probe_wp [wp]:
  assumes "winv X {} M C G s" and "ida_ok K" and "\<And>ret s'. winv X {} M C G s' \<Longrightarrow> next_addr s \<le> next_addr s' \<Longrightarrow> Q (ret, s')"
  shows "post (bafs_ctrl_pci_probe K p s) Q"
  unfolding bafs_ctrl_pci_probe_def using assms(1,2) by (auto simp: Let_def ask_def split: option.split intro!: wp assms(3))


lemma bafs_ctrl_pci_remove_wp [wp]:
  assumes "winv X L M C G s" and "\<And>s'. winv X L M C G s' \<Longrightarrow> next_addr s \<le> next_addr s' \<Longrightarrow> Q s'"
  shows "post (bafs_ctrl_pci_remove p s) Q"
  unfolding bafs_ctrl_pci_remove_def using assms(1) by (auto simp: post_def [of "pci_drvdata s p"] intro!: wp assms(2))

lemma probe_all_wp [wp]:
  assumes "winv X {} M C G s" and "ida_ok K" and "\<And>s'. winv X {} M C G s' \<Longrightarrow> next_addr s \<le> next_addr s' \<Longrightarrow> Q s'"
  shows "post (probe_all K ps s) Q"
  using assms
proof (induction ps arbitrary: s)
  case (Cons p ps)
  show ?case using Cons.prems(1,2) by (auto intro!: wp Cons.prems(3) Cons.IH)
qed simp

lemma remove_all_wp [wp]:
  assumes "winv X L M C G s" and "\<And>s'. winv X L M C G s' \<Longrightarrow> next_addr s \<le> next_addr s' \<Longrightarrow> Q s'"
  shows "post (remove_all ps s) Q"
  using assms
proof (induction ps arbitrary: s)
  case (Cons p ps)
  show ?case using Cons.prems(1) by (auto intro!: wp Cons.prems(2) Cons.IH)
qed simp

text \<open>The steps that change what \<open>X\<close> and \<open>M\<close> record.\<close>

lemma winv_module:
  assumes "winv (D, cm) L M C G s"
  shows "winv (D, r) L M C G (s\<lparr>core_minor := r\<rparr>)" "winv (Suc D, cm) L M C G (acquire PciDriver s)"
    "winv (D, cm) L M C G (s\<lparr>global_ctx_xa := Map.empty\<rparr>)"
    "0 < D \<Longrightarrow> release PciDriver s = Some s' \<Longrightarrow> winv (D - 1, cm) L M C G s'"
  using assms by (auto simp: winv_def acquire_def release_def alloc_inv_def ctx_inv_def split: if_splits)

lemma winv_minor:
  assumes "winv X L M C G s"
  shows "nat r \<notin> minor_ida s \<Longrightarrow> winv X L (insert (nat r) M) C G (s\<lparr>minor_ida := insert (nat r) (minor_ida s)\<rparr>)"
    and "nat i \<in> M \<Longrightarrow> bafs_put_minor_number i s = Some s' \<Longrightarrow> winv X L (M - {nat i}) C G s'"
proof -
  have d: "dev_inv M C G s" using assms by (simp add: winv_def)
  show "winv X L (insert (nat r) M) C G (s\<lparr>minor_ida := insert (nat r) (minor_ida s)\<rparr>)" if "nat r \<notin> minor_ida s"
    using assms that dev_invD(6) [OF d] by (auto simp: winv_def dev_inv_def kid_ok_def)
  show "winv X L (M - {nat i}) C G s'" if "nat i \<in> M" "bafs_put_minor_number i s = Some s'"
  proof -
    have s': "s' = s\<lparr>minor_ida := minor_ida s - {nat i}\<rparr>" using that(2) by (simp add: bafs_put_minor_number_def split: if_splits)
    have "M - (M - {nat i}) = {nat i}" using that(1) by auto
    then have "dev_inv (M - {nat i}) C G s'" unfolding s' by (intro dev_inv_give [OF d]) auto
    then show ?thesis using assms by (simp add: winv_def s')
  qed
qed

text \<open>The invariant of the running system.\<close>

definition sys_inv :: "world \<Rightarrow> bool" where
  "sys_inv s \<longleftrightarrow> (\<exists>D cm M. winv (D, cm) {} M {} {} s \<and> D \<le> 1 \<and> (D = 1 \<longrightarrow> 0 \<le> cm \<and> nat cm \<in> M))"

lemma winv_sys_inv: "winv (0, cm) {} M {} {} s \<Longrightarrow> sys_inv s" "winv (Suc 0, cm) {} M {} {} s \<Longrightarrow> 0 \<le> cm \<Longrightarrow> nat cm \<in> M \<Longrightarrow> sys_inv s"
  unfolding sys_inv_def by (metis zero_neq_one zero_le_one, metis One_nat_def order_refl)

lemmas init_defs = init_fails_def init_out_destroy_core_class_def init_out_ctrl_fini_def init_out_group_fini_def
  init_out_delete_core_cdev_def init_out_destroy_device_def cdev_del_core_def bafs_ctrl_fini_def bafs_group_fini_def

lemma pci_register_driver_wp:
  assumes "winv (D, cm) {} M C G s" and "ida_ok K"
    and "\<And>ret s'. ret < 0 \<Longrightarrow> winv (D, cm) {} M C G s' \<Longrightarrow> Q (ret, s')" "\<And>ret s'. \<not> ret < 0 \<Longrightarrow> winv (Suc D, cm) {} M C G s' \<Longrightarrow> Q (ret, s')"
  shows "post (pci_register_driver K ps s) Q"
proof (cases "k_ret K PciRegisterDriver (now s) < 0")
  case True
  then show ?thesis using assms(1) by (auto simp: pci_register_driver_def Let_def ask_def intro!: assms(3))
next
  case False
  have "winv (Suc D, cm) {} M C G (acquire PciDriver (s\<lparr>now := Suc (now s)\<rparr>))" by (rule winv_module(2)) (simp add: assms(1))
  with False assms(2) show ?thesis
    by (auto simp: pci_register_driver_def Let_def ask_def intro!: probe_all_wp [where X = "(Suc D, cm)"] assms(4))
qed

text \<open>Loading ends with the driver registered, or fails.\<close>

definition init_post :: "int \<times> world \<Rightarrow> bool" where
  "init_post = (\<lambda>(ret, s). sys_inv s \<and> (ret < 0 \<or> res s PciDriver \<noteq> 0))"

lemma init_postI: "sys_inv s \<Longrightarrow> ret < 0 \<or> res s PciDriver \<noteq> 0 \<Longrightarrow> init_post (ret, s)"
  by (simp add: init_post_def)

lemma init_post_loaded:
  assumes "winv (Suc 0, cm) {} M {} {} s" and "0 \<le> cm" and "nat cm \<in> M"
  shows "init_post (ret, s\<lparr>global_ctx_xa := Map.empty\<rparr>)"
  using winv_sys_inv(2) [OF winv_module(3) [OF assms(1)] assms(2,3)] assms(1) by (auto simp: init_post_def winv_def)

lemma init_out_wp:
  assumes "winv (0, cm) {} M {} {} s" and "ret < 0"
  shows "post (init_fails ret (init_out_group_fini s)) init_post"
    and "post (init_fails ret (init_out_ctrl_fini s)) init_post"
    and "post (init_fails ret (init_out_destroy_core_class s)) init_post"
    and "post (init_fails ret (release ChrdevRegion s)) init_post"
    and "post (init_fails ret (init_out_delete_core_cdev s)) init_post"
    and "post (init_fails ret (init_out_destroy_device s)) init_post"
  using assms by (auto simp: init_defs intro!: wp init_postI intro: winv_sys_inv)

lemma init_core_device_wp:
  assumes inv: "winv (0, cm) {} M {} {} s" and ida: "ida_ok K"
  shows "post (init_core_device K ps s) init_post"
proof (cases "k_ida K (now s) (minor_ida s) < 0")
  case True
  then show ?thesis using inv by (auto simp: init_core_device_def bafs_get_minor_number_def ask_def Let_def intro!: init_out_wp)
next
  case False
  define r where "r = k_ida K (now s) (minor_ida s)"
  define s1 where "s1 = s\<lparr>now := Suc (now s), minor_ida := insert (nat r) (minor_ida s)\<rparr>\<lparr>core_minor := r\<rparr>"
  have "winv (0, cm) {} (insert (nat r) M) {} {} (s\<lparr>now := Suc (now s), minor_ida := insert (nat r) (minor_ida s)\<rparr>)"
    using winv_minor(1) [of "(0, cm)" "{}" M "{}" "{}" "s\<lparr>now := Suc (now s)\<rparr>" r] inv ida False by (simp add: r_def ida_notin)
  then have s1: "winv (0, r) {} (insert (nat r) M) {} {} s1" unfolding s1_def by (rule winv_module(1))
  have get: "bafs_get_minor_number K s = (r, s\<lparr>now := Suc (now s), minor_ida := insert (nat r) (minor_ida s)\<rparr>)"
    using False by (simp add: bafs_get_minor_number_def ask_def r_def)
  have r: "0 \<le> r" using False by (simp add: r_def)
  have "init_core_device K ps s = do {
      let (ret, s) = ask (k_ret K CdevAdd) s1;
      if ret < 0 then init_fails ret (init_out_delete_core_cdev s)
      else do {
        let s = set_flag (Cdev (core_minor s)) s;
        let (ret, s) = ask (k_ret K DeviceCreate) s;
        if ret < 0 then init_fails ret (init_out_delete_core_cdev s)
        else do {
          let s = acquire (DevNode (core_minor s)) s;
          (ret, s) \<leftarrow> pci_register_driver K ps s;
          if ret < 0 then init_fails ret (init_out_destroy_device s)
          else Some (ret, s\<lparr>global_ctx_xa := Map.empty\<rparr>) } } }"
    using r by (simp add: init_core_device_def get Let_def s1_def)
  then show ?thesis
    using s1 r ida by (auto simp: Let_def ask_def intro!: init_out_wp pci_register_driver_wp wp init_post_loaded)
qed

lemma bafs_init_wp:
  assumes "winv (0, cm) {} M {} {} s" and "ida_ok K"
  shows "post (bafs_init K ps s) init_post"
  unfolding bafs_init_def class_create_def bafs_ctrl_init_def bafs_group_init_def
  using assms by (auto simp: Let_def ask_def intro!: init_out_wp init_core_device_wp wp init_postI intro: winv_sys_inv)

lemma bafs_exit_wp:
  assumes "winv (1, cm) {} M {} {} s" and "0 \<le> cm" and "nat cm \<in> M"
  shows "post (bafs_exit ps s) sys_inv"
proof -
  have rel: "post (release PciDriver s') Q" if "winv (1, cm) {} M {} {} s'" "\<And>s''. winv (0, cm) {} M {} {} s'' \<Longrightarrow> Q s''" for s' Q
    using winv_module(4) [OF that(1)] that(2) by (simp add: post_def)
  have put: "post (bafs_put_minor_number (core_minor s') (s'\<lparr>global_ctx_xa := Map.empty\<rparr>)) sys_inv" if "winv (0, cm) {} M {} {} s'" for s'
    using winv_minor(2) [OF winv_module(3) [OF that] assms(3)] that by (auto simp: post_def winv_def [of "(0, cm)" "{}" M] intro: winv_sys_inv(1))
  show ?thesis
    unfolding bafs_exit_def pci_unregister_driver_def using assms
    by (auto simp: Let_def init_defs intro!: wp rel put)
qed

section \<open>Every event keeps the invariant\<close>

lemma fops_open_wp [wp]:
  assumes "winv X L M C G s" and "\<And>ret pd s'. winv X L M C G s' \<Longrightarrow> next_addr s \<le> next_addr s' \<Longrightarrow> Q (ret, pd, s')"
  shows "post (fops_open K t nd s) Q"
  using assms(1) by (cases nd) (auto intro!: wp assms(2))


lemma fops_ioctl_wp [wp]:
  assumes "winv X {} M C G s" and "ida_ok K" and "\<And>ret s'. winv X {} M C G s' \<Longrightarrow> next_addr s \<le> next_addr s' \<Longrightarrow> Q (ret, s')"
  shows "post (fops_ioctl K pd cmd argp s) Q"
  using assms(1,2) by (cases pd) (auto simp: fops_ioctl_def intro!: wp assms(3))


lemma fops_mmap_wp [wp]:
  assumes "winv X L M C G s" and "\<And>ret s'. winv X L M C G s' \<Longrightarrow> next_addr s \<le> next_addr s' \<Longrightarrow> Q (ret, s')"
  shows "post (fops_mmap K pd v s) Q"
  using assms(1) by (cases pd) (auto simp: fops_mmap_def intro!: wp assms(2))


lemma fops_release_wp [wp]:
  assumes "winv X L M C G s" and "\<And>ret pd' s'. winv X L M C G s' \<Longrightarrow> next_addr s \<le> next_addr s' \<Longrightarrow> Q (ret, pd', s')"
  shows "post (fops_release pd s) Q"
  using assms(1) by (cases pd) (auto simp: fops_release_def intro!: wp assms(2))


lemma step_winv:
  assumes inv: "winv X {} M C G s" and ida: "ida_ok K" and e: "\<And>ps. e \<noteq> Load ps" "\<And>ps. e \<noteq> Unload ps"
  shows "post (step K e s) (\<lambda>(ret, s'). winv X {} M C G s')"
proof (cases e)
  case (Mmap f v va off)
  show ?thesis unfolding Mmap using inv by (auto simp: vfs_mmap_def Let_def split: option.split intro!: wp)
qed (use assms in \<open>auto simp: vfs_open_def vfs_ioctl_def vfs_munmap_def vfs_close_def pci_unbind_def split: option.split intro!: wp\<close>)

text \<open>
  While the module is not loaded there is no device node, open file or mapping of it: a load that
  fails leaves them as they are, an unload starts without files and mappings, and one
  that leaves device nodes ends the run.
\<close>

definition idle_ok :: "world \<Rightarrow> bool" where
  "idle_ok s \<longleftrightarrow> (res s PciDriver = 0 \<longrightarrow> children s = [] \<and> files s = Map.empty \<and> vmas s = Map.empty)"

definition same_nodes :: "world \<Rightarrow> world \<Rightarrow> bool" where
  "same_nodes s s' \<longleftrightarrow> children s' = children s \<and> files s' = files s \<and> vmas s' = vmas s"

lemma same_nodes_frame [simp]:
  "same_nodes s (s'\<lparr>now := n\<rparr>) = same_nodes s s'" "same_nodes s (acquire r s') = same_nodes s s'"
  "same_nodes s (set_flag r s') = same_nodes s s'" "same_nodes s (clear_flag r s') = same_nodes s s'"
  "same_nodes s (s'\<lparr>minor_ida := i\<rparr>) = same_nodes s s'" "same_nodes s (s'\<lparr>core_minor := c\<rparr>) = same_nodes s s'"
  "same_nodes s (s'\<lparr>global_ctx_xa := x\<rparr>) = same_nodes s s'" "same_nodes s (load_image s') = same_nodes s s'"
  by (simp_all add: same_nodes_def acquire_def set_flag_def clear_flag_def load_image_def)

lemma release_same:
  assumes "same_nodes s0 s" and "\<And>s'. same_nodes s0 s' \<Longrightarrow> Q s'"
  shows "post (release r s) Q"
  using assms by (auto simp: release_def same_nodes_def)

lemma init_fail_same:
  assumes "same_nodes s0 s"
  shows "post (bafs_init K ps s) (\<lambda>(ret, s'). ret < 0 \<longrightarrow> same_nodes s0 s')"
  using assms by (auto simp: bafs_init_def class_create_def bafs_ctrl_init_def bafs_group_init_def init_core_device_def
      bafs_get_minor_number_def pci_register_driver_def init_defs ask_def Let_def post_def [of "probe_all _ _ _"] intro!: release_same)

lemma winv_load_image:
  assumes "winv (D, cm) {} M {} {} s" and "children s = []"
  shows "winv (D, 0) {} {} {} {} (load_image s)"
  using assms by (auto simp: winv_def load_image_def alloc_inv_def ctx_inv_def dev_inv_def)

lemma load_inv:
  assumes "winv (0, cm) {} M {} {} s" and "idle_ok s" and "ida_ok K"
  shows "post (step K (Load ps) s) (\<lambda>(ret, s'). sys_inv s' \<and> idle_ok s')"
proof -
  have idle: "children s = []" "files s = Map.empty" "vmas s = Map.empty" using assms(1,2) by (simp_all add: winv_def idle_ok_def)
  have "post (bafs_init K ps (load_image s)) init_post"
    by (rule bafs_init_wp [OF winv_load_image [OF assms(1) idle(1)] assms(3)])
  moreover have "post (bafs_init K ps (load_image s)) (\<lambda>(ret, s'). ret < 0 \<longrightarrow> same_nodes s s')"
    by (rule init_fail_same) (simp add: same_nodes_def load_image_def)
  ultimately show ?thesis using idle by (auto simp: post_def init_post_def idle_ok_def same_nodes_def)
qed

text \<open>Unloading closes no file, and gives up no group.\<close>

definition exit_keeps :: "world \<Rightarrow> world \<Rightarrow> bool" where
  "exit_keeps s s' \<longleftrightarrow> files s' = files s \<and> vmas s' = vmas s \<and> groups s' = groups s \<and>
     (\<forall>g. krefs s' (KGroup g) = krefs s (KGroup g))"

lemma exit_keeps_frame [simp]:
  "exit_keeps s (s'\<lparr>res := rs\<rparr>) = exit_keeps s s'" "exit_keeps s (s'\<lparr>children := cs\<rparr>) = exit_keeps s s'"
  "exit_keeps s (s'\<lparr>minor_ida := i\<rparr>) = exit_keeps s s'" "exit_keeps s (s'\<lparr>ctrl_ida := i\<rparr>) = exit_keeps s s'"
  "exit_keeps s (s'\<lparr>ctrls := ct\<rparr>) = exit_keeps s s'" "exit_keeps s (s'\<lparr>pci_drvdata := d\<rparr>) = exit_keeps s s'"
  "exit_keeps s (s'\<lparr>global_ctx_xa := x\<rparr>) = exit_keeps s s'" "exit_keeps s (clear_flag r s') = exit_keeps s s'"
  "exit_keeps s (s'\<lparr>krefs := (krefs s')(KCtrl c := n)\<rparr>) = exit_keeps s s'"
  "exit_keeps s (s'\<lparr>ctrls := ct, krefs := (krefs s')(KCtrl c := n)\<rparr>) = exit_keeps s s'"
  by (simp_all add: exit_keeps_def clear_flag_def)

lemma release_keeps:
  assumes "exit_keeps s0 s" and "\<And>s'. exit_keeps s0 s' \<Longrightarrow> Q s'"
  shows "post (release r s) Q"
  using assms by (simp add: release_def)

lemma put_numbers_keeps:
  assumes "exit_keeps s0 s" and "\<And>s'. exit_keeps s0 s' \<Longrightarrow> Q s'"
  shows "post (bafs_put_minor_number i s) Q" and "post (ctrl_ida_remove i s) Q"
  using assms by (simp_all add: bafs_put_minor_number_def ctrl_ida_remove_def)

lemma release_kref_keeps: "exit_keeps s0 s \<Longrightarrow> post (bafs_ctrl_release_kref c s) (exit_keeps s0)"
  by (auto simp: bafs_ctrl_release_kref_def device_destroy_def kfree_ctrl_def post_def [of "ctrls _ _"] Let_def
      intro!: release_keeps put_numbers_keeps)

lemma bafs_ctrl_release_keeps: "exit_keeps s0 s \<Longrightarrow> post (bafs_ctrl_release c s) (exit_keeps s0)"
  by (cases "krefs s (KCtrl c)") (simp_all add: bafs_ctrl_release_def kref_put_def Let_def post_def [of "ctrls _ _"] release_kref_keeps)

lemma remove_all_keeps: "exit_keeps s0 s \<Longrightarrow> post (remove_all ps s) (exit_keeps s0)"
proof (induction ps arbitrary: s)
  case (Cons p ps)
  then show ?case
    by (auto simp: bafs_ctrl_pci_remove_def post_def [of "pci_drvdata _ _"] intro: post_mono [OF bafs_ctrl_release_keeps])
qed simp

lemma bafs_exit_keeps: "post (bafs_exit ps s) (exit_keeps s)"
proof -
  have "exit_keeps s s" by (simp add: exit_keeps_def)
  then show ?thesis
    by (auto simp: bafs_exit_def pci_unregister_driver_def cdev_del_core_def bafs_group_fini_def bafs_ctrl_fini_def Let_def
      intro!: release_keeps put_numbers_keeps intro: post_mono [OF remove_all_keeps])
qed

lemma unload_inv:
  assumes "winv (D, cm) {} M {} {} s" and "D \<le> 1" and "D = 1 \<longrightarrow> 0 \<le> cm \<and> nat cm \<in> M" and "enabled (Unload ps) s"
  shows "post (bafs_exit ps s) (\<lambda>s'. sys_inv s' \<and> files s' = Map.empty \<and> vmas s' = Map.empty \<and> exit_keeps s s')"
proof -
  have "D = res s PciDriver" using assms(1) by (simp add: winv_def)
  with assms(2,4) have D: "D = 1" by simp
  from assms(1,3) have "post (bafs_exit ps s) sys_inv" unfolding D using bafs_exit_wp by auto
  with bafs_exit_keeps [of ps s] assms(4) show ?thesis by (auto simp: post_def exit_keeps_def)
qed

lemma other_idle:
  assumes "winv (D, cm) {} M {} {} s" and "idle_ok s" and "ida_ok K" and "enabled e s"
    and e: "\<And>ps. e \<noteq> Load ps" "\<And>ps. e \<noteq> Unload ps"
  shows "post (step K e s) (\<lambda>(ret, s'). idle_ok s')"
proof (cases "D = 0")
  case True
  then have "res s PciDriver = 0" and "children s = []" "files s = Map.empty" "vmas s = Map.empty"
    using assms(1,2) by (simp_all add: winv_def idle_ok_def)
  then show ?thesis
    using assms(4) e by (cases e) (auto simp: idle_ok_def vfs_open_def vfs_ioctl_def vfs_mmap_def vfs_munmap_def vfs_close_def node_of_def)
next
  case False
  from step_winv [OF assms(1,3) e] show ?thesis by (rule post_mono) (use False in \<open>auto simp: winv_def idle_ok_def\<close>)
qed

lemma step_inv:
  assumes "sys_inv s" and idle: "idle_ok s" and ida: "ida_ok K" and en: "enabled e s"
  shows "post (step K e s) (\<lambda>(ret, s'). sys_inv s' \<and> idle_ok s')"
proof -
  from assms(1) obtain D cm M where inv: "winv (D, cm) {} M {} {} s" and D: "D \<le> 1" "D = 1 \<longrightarrow> 0 \<le> cm \<and> nat cm \<in> M"
    unfolding sys_inv_def by blast
  consider ps where "e = Load ps" | ps where "e = Unload ps" | "\<And>ps. e \<noteq> Load ps" "\<And>ps. e \<noteq> Unload ps" by (cases e) auto
  then show ?thesis
  proof cases
    case (1 ps)
    with inv en have "winv (0, cm) {} M {} {} s" by (simp add: winv_def)
    from load_inv [OF this idle ida] show ?thesis unfolding 1 .
  next
    case (2 ps)
    with en have "enabled (Unload ps) s" by simp
    from unload_inv [OF inv D this] show ?thesis unfolding 2 by (auto elim!: post_mono simp: idle_ok_def text_in_use_def)
  next
    case 3
    from step_winv [OF inv ida 3] have "post (step K e s) (\<lambda>(ret, s'). sys_inv s')"
      by (rule post_mono) (use D in \<open>auto simp: sys_inv_def\<close>)
    with other_idle [OF inv idle ida en 3] show ?thesis by (auto simp: post_def)
  qed
qed

lemma reachable_inv: "reachable K s \<Longrightarrow> ida_ok K \<Longrightarrow> sys_inv s \<and> idle_ok s"
proof (induction rule: reachable.induct)
  case (start u)
  have "winv (0, 0) {} {} {} {} (empty_world u)"
    by (simp add: winv_def alloc_inv_def ctx_inv_def dev_inv_def empty_world_def)
  then show ?case by (auto simp: idle_ok_def empty_world_def intro: winv_sys_inv)
next
  case (event s e ret s')
  with step_inv [of s K e] show ?case by (auto simp: post_def)
qed

lemma reachable_sys_inv: "reachable K s \<Longrightarrow> ida_ok K \<Longrightarrow> sys_inv s"
  using reachable_inv by blast

section \<open>What holds in every reachable state\<close>

lemma sys_inv_fresh: "sys_inv s \<Longrightarrow> fresh s \<and> children_ok s \<and> ctrl_children s \<and> child_names_ok s \<and> ctx_inv s"
  unfolding sys_inv_def using winv_fresh winv_children by (auto simp: winv_def)

lemma dev_inv_nodes:
  assumes "dev_inv M C G s"
  shows "0 < krefs s (KCtrl c) \<longleftrightarrow> (\<exists>x. ctrls s c = Some x \<and> ctrl_kid c x \<in> set (children s))"
    and "0 < krefs s (KGroup g) \<longleftrightarrow> (\<exists>x. groups s g = Some x \<and> group_kid g x \<in> set (children s))"
proof -
  have "0 < krefs s (KCtrl c)" if "ctrl_kid c x \<in> set (children s)" for x
    using dev_invD(7) [OF assms that] by (cases rule: kid_okE) (simp_all add: ctrl_kid_def group_kid_def)
  moreover have "0 < krefs s (KGroup g)" if "group_kid g x \<in> set (children s)" for x
    using dev_invD(7) [OF assms that] by (cases rule: kid_okE) (simp_all add: ctrl_kid_def group_kid_def)
  ultimately show "0 < krefs s (KCtrl c) \<longleftrightarrow> (\<exists>x. ctrls s c = Some x \<and> ctrl_kid c x \<in> set (children s))"
    "0 < krefs s (KGroup g) \<longleftrightarrow> (\<exists>x. groups s g = Some x \<and> group_kid g x \<in> set (children s))"
    using dev_invD(8,9) [OF assms] by blast+
qed

text \<open>
  C1. In every state that some sequence of loads, unloads, probes, removals, opens, ioctls, mappings,
  unmappings, closes and revocations leads to, whatever the kernel refuses on the way: no
  spin lock is held, nothing lives at an address that was not handed out, every entry of the
  context table is a live context of its thread group, the device nodes have distinct minor
  numbers, all of them taken, and distinct names, and a controller or a group is alive exactly when
  its device node, with its own number, name and driver data, exists. A load starts from fresh
  static data; an unload that would leave a device node behind ends the run and has no next state.
\<close>

theorem reachable_invariant:
  assumes "reachable K s" and "ida_ok K"
  shows "held s = {} \<and> fresh s \<and>
    (\<forall>t c. global_ctx_xa s t = Some c \<longrightarrow> 0 < krefs s (KCtx c) \<and> (\<exists>x. ctxs s c = Some x \<and> ctx_tgid x = t)) \<and>
    distinct (map ch_minor (children s)) \<and> distinct (map ch_name (children s)) \<and> children_ok s \<and>
    (\<forall>c. 0 < krefs s (KCtrl c) \<longleftrightarrow> (\<exists>x. ctrls s c = Some x \<and> ctrl_kid c x \<in> set (children s))) \<and>
    (\<forall>g. 0 < krefs s (KGroup g) \<longleftrightarrow> (\<exists>x. groups s g = Some x \<and> group_kid g x \<in> set (children s)))"
proof -
  from reachable_sys_inv [OF assms] obtain D cm M where inv: "winv (D, cm) {} M {} {} s" unfolding sys_inv_def by blast
  then have d: "dev_inv M {} {} s" and "held s = {}" and "ctx_inv s" by (simp_all add: winv_def)
  with winv_fresh [OF inv] winv_children(1) [OF inv] dev_invD(4,5) [OF d] dev_inv_nodes [OF d] show ?thesis
    unfolding ctx_inv_def by blast
qed

lemma load_image_empty [simp]: "load_image (empty_world u) = empty_world u"
  by (simp add: load_image_def empty_world_def)

lemma demo_loaded: "\<exists>s. reachable demo_kernel s \<and> bafs_init demo_kernel [5] (empty_world demo_user) = Some (0, s)"
proof -
  obtain s where s: "bafs_init demo_kernel [5] (empty_world demo_user) = Some (0, s)" using demo_load by blast
  have "enabled (Load [5]) (empty_world demo_user)" by (simp add: empty_world_def)
  from reachable.event [OF reachable.start this, of demo_kernel 0 s] s show ?thesis by auto
qed

theorem reachable_invariant_witness:
  "\<exists>s. bafs_init demo_kernel [5] (empty_world demo_user) = Some (0, s) \<and> held s = {} \<and> fresh s \<and> distinct (map ch_name (children s))"
  using demo_loaded reachable_invariant [OF _ demo_kernel_ok(2)] by blast

text \<open>Getting the context of a process never stops, and touches no controller, group or file.\<close>

lemma get_ctx_total:
  assumes "fresh s" and "ctx_inv s"
  shows "yields (bafs_get_ctx K t s) (\<lambda>(c, s'). ctrls s' = ctrls s \<and> groups s' = groups s \<and>
    (\<forall>x. krefs s' (KCtrl x) = krefs s (KCtrl x) \<and> krefs s' (KGroup x) = krefs s (KGroup x)) \<and> res s' (Buf FileCtx) = res s (Buf FileCtx))"
proof (cases "global_ctx_xa s t")
  case None
  with assms(1) show ?thesis by (auto simp: ctx_defs prim_defs Let_def freshD)
next
  case (Some c)
  with assms(2) have "0 < krefs s (KCtx c)" by (simp add: ctx_inv_def)
  with Some assms(1) fresh_ctx_neq [OF assms(1) this] show ?thesis by (auto simp: ctx_defs prim_defs Let_def freshD)
qed

lemma core_open_total:
  assumes "fresh s"
  shows "yields (bafs_core_open K t s) (\<lambda>(ret, pd, s'). if ret = 0 then \<exists>cx. pd = PCore cx else ret < 0)"
  using assms by (auto simp: ctx_defs prim_defs Let_def freshD split: option.split)

text \<open>
  The contract of a device whose files hold a reference on their object: opening takes a reference,
  then the small file object and the context of the process, and gives everything back on failure.
\<close>

locale device_open = refcounted get put cnt for get put cnt +
  fixes opn :: "kernel \<Rightarrow> nat \<Rightarrow> world \<Rightarrow> (int \<times> private_data \<times> world) option"
    and mk :: "addr \<Rightarrow> private_data"
  assumes opn: "opn K t s = do {
      s \<leftarrow> get s;
      let (ok, s) = ask (k_alloc K) s;
      if \<not> ok then do { s \<leftarrow> put s; Some (- ENOMEM, PNull, s) }
      else do {
        let s = acquire (Buf FileCtx) s;
        (ctx, s) \<leftarrow> bafs_get_ctx K t s;
        case ctx of
          None \<Rightarrow> do { s \<leftarrow> release (Buf FileCtx) s; s \<leftarrow> put s; Some (- EINVAL, PNull, s) }
        | Some cx \<Rightarrow> Some (0, mk cx, s)
      }
    }"
    and get_keeps: "get s = Some s' \<Longrightarrow> fresh s \<Longrightarrow> ctx_inv s \<Longrightarrow> fresh s' \<and> ctx_inv s'"
    and cnt_frame: "cnt (s\<lparr>now := n\<rparr>) = cnt s" "cnt (s\<lparr>res := rs\<rparr>) = cnt s"
    and cnt_ctx: "fresh s \<Longrightarrow> ctx_inv s \<Longrightarrow> bafs_get_ctx K t s = Some (c, s') \<Longrightarrow> cnt s' = cnt s"
begin

lemma opn_total:
  assumes "0 < cnt s" and "fresh s" and "ctx_inv s"
  shows "yields (opn K t s) (\<lambda>(ret, pd, s'). if ret = 0 then \<exists>cx. pd = mk cx else ret < 0)"
proof -
  obtain s1 where s1: "get s = Some s1" "cnt s1 = Suc (cnt s)" using get_live [OF assms(1)] by blast
  let ?s = "acquire (Buf FileCtx) (s1\<lparr>now := Suc (now s1)\<rparr>)"
  have pre: "fresh ?s" "ctx_inv ?s"
    using get_keeps [OF s1(1) assms(2,3)] by (auto simp: fresh_def acquire_def)
  from get_ctx_total [OF this, of K t] obtain ctx s2 where s2: "bafs_get_ctx K t ?s = Some (ctx, s2)"
    "res s2 (Buf FileCtx) = Suc (res s1 (Buf FileCtx))" by (auto simp: yields_iff acquire_def)
  have c: "1 < cnt (s1\<lparr>now := n\<rparr>)" "1 < cnt (s2\<lparr>res := rs\<rparr>)" for n rs
    using cnt_ctx [OF pre s2(1)] s1(2) assms(1) by (auto simp: cnt_frame acquire_def)
  obtain p1 p2 where "put (s1\<lparr>now := Suc (now s1)\<rparr>) = Some p1" "put (s2\<lparr>res := (res s2)(Buf FileCtx := res s1 (Buf FileCtx))\<rparr>) = Some p2"
    using put_shared [OF c(1)] put_shared [OF c(2)] by blast
  with s1(1) s2 show ?thesis by (auto simp: opn ask_def Let_def release_def split: option.split)
qed

end

interpretation ctrl_dev: device_open "bafs_get_ctrl c" "bafs_ctrl_release c" "ctrl_count c" "\<lambda>K t. bafs_ctrl_open K t (Some c)" "PCtrl c" for c
proof (unfold_locales, goal_cases)
  case (1 K t s)
  show ?case by (simp add: bafs_ctrl_open_def)
next
  case (2 s s')
  then show ?case by (auto simp: bafs_get_ctrl_def kref_get_def fresh_def ctx_inv_def bind_eq_Some_conv split: if_splits)
next
  case (5 s K t e s')
  with get_ctx_total [OF 5(1,2), of K t] show ?case by (simp add: ctrl_count_def)
qed (simp_all add: ctrl_count_def)

interpretation group_dev: device_open "bafs_get_group g" "bafs_put_group g" "group_count g" "\<lambda>K t. bafs_group_open K t (Some g)" "PGroup g" for g
proof (unfold_locales, goal_cases)
  case (1 K t s)
  show ?case by (simp add: bafs_group_open_def)
next
  case (2 s s')
  then show ?case by (auto simp: bafs_get_group_def kref_get_def fresh_def ctx_inv_def bind_eq_Some_conv split: if_splits)
next
  case (5 s K t e s')
  with get_ctx_total [OF 5(1,2), of K t] show ?case by (simp add: group_count_def)
qed (simp_all add: group_count_def)

lemma node_live:
  assumes "sys_inv s" and "node_of path s = Some nd"
  shows "case nd of CoreNode \<Rightarrow> True | CtrlNode c \<Rightarrow> 0 < ctrl_count c s | GroupNode g \<Rightarrow> 0 < group_count g s"
proof (cases "nd = CoreNode")
  case False
  from assms(1) obtain M where d: "dev_inv M {} {} s" by (auto simp: sys_inv_def winv_def)
  from assms(2) False obtain ch where ch: "ch \<in> set (children s)"
    and nd: "case ch_data ch of None \<Rightarrow> False | Some (DrvCtrl c) \<Rightarrow> nd = CtrlNode c | Some (DrvGroup g) \<Rightarrow> nd = GroupNode g"
    by (fastforce simp: node_of_def find_Some_iff split: if_splits option.splits drvdata.splits)
  from dev_invD(7) [OF d ch] show ?thesis
    by (cases rule: kid_okE) (use nd in \<open>auto simp: ctrl_count_def group_count_def\<close>)
qed simp

lemma open_yields:
  assumes "reachable K s" and "ida_ok K"
  shows "yields (step K (Open t f path) s) (\<lambda>(ret, s'). reachable K s' \<and>
    (ret < 0 \<or> ret = int f \<and> (case node_of path s of None \<Rightarrow> False
       | Some CoreNode \<Rightarrow> \<exists>cx. files s' f = Some (PCore cx)
       | Some (CtrlNode c) \<Rightarrow> \<exists>cx. files s' f = Some (PCtrl c cx)
       | Some (GroupNode g) \<Rightarrow> \<exists>cx. files s' f = Some (PGroup g cx))))"
proof -
  have inv: "sys_inv s" using assms by (rule reachable_sys_inv)
  then have pre: "fresh s" "ctx_inv s" using sys_inv_fresh by blast+
  have fops: "yields (fops_open K t nd s) (\<lambda>(ret, pd, s'). if ret = 0 then (case nd of CoreNode \<Rightarrow> \<exists>cx. pd = PCore cx
      | CtrlNode c \<Rightarrow> \<exists>cx. pd = PCtrl c cx | GroupNode g \<Rightarrow> \<exists>cx. pd = PGroup g cx) else ret < 0)"
    if "node_of path s = Some nd" for nd
    using node_live [OF inv that]
    by (cases nd) (simp_all add: core_open_total [OF pre(1)] ctrl_dev.opn_total [OF _ pre] group_dev.opn_total [OF _ pre] cong: if_cong)
  have "yields (vfs_open K t f path s) (\<lambda>(ret, s'). ret < 0 \<or> ret = int f \<and> (case node_of path s of None \<Rightarrow> False
       | Some CoreNode \<Rightarrow> \<exists>cx. files s' f = Some (PCore cx)
       | Some (CtrlNode c) \<Rightarrow> \<exists>cx. files s' f = Some (PCtrl c cx)
       | Some (GroupNode g) \<Rightarrow> \<exists>cx. files s' f = Some (PGroup g cx)))"
  proof (cases "files s f \<noteq> None \<or> node_of path s = None")
    case False
    then obtain nd where nd: "files s f = None" "node_of path s = Some nd" by auto
    from fops [OF nd(2)] obtain ret pd s' where "fops_open K t nd s = Some (ret, pd, s')" and "if ret = 0 then (case nd of CoreNode \<Rightarrow> \<exists>cx. pd = PCore cx
      | CtrlNode c \<Rightarrow> \<exists>cx. pd = PCtrl c cx | GroupNode g \<Rightarrow> \<exists>cx. pd = PGroup g cx) else ret < 0" by (auto simp: yields_iff)
    with nd show ?thesis by (cases "ret = 0"; cases nd) (simp_all add: vfs_open_def)
  qed (auto simp: vfs_open_def)
  then show ?thesis using reachable.event [OF assms(1), of "Open t f path"] by (auto simp: yields_iff)
qed

text \<open>
  C2. In every reachable state an open returns, whatever the path: the device node it names is
  that of a live object, and no failure of the kernel makes the driver touch a freed one. The
  result is the descriptor, with the private data of the device that was named, or an error.
\<close>

theorem reachable_open_returns:
  assumes "reachable K s" and "ida_ok K"
  shows "yields (step K (Open t f path) s) (\<lambda>(ret, s'). reachable K s' \<and>
    (ret < 0 \<or> ret = int f \<and> (case node_of path s of None \<Rightarrow> False
       | Some CoreNode \<Rightarrow> \<exists>cx. files s' f = Some (PCore cx)
       | Some (CtrlNode c) \<Rightarrow> \<exists>cx. files s' f = Some (PCtrl c cx)
       | Some (GroupNode g) \<Rightarrow> \<exists>cx. files s' f = Some (PGroup g cx))))"
  using assms by (rule open_yields)

theorem reachable_open_returns_witness:
  "\<exists>s. bafs_init demo_kernel [5] (empty_world demo_user) = Some (0, s) \<and>
     yields (step demo_kernel (Open 77 3 ''/dev/bafsc0'') s) (\<lambda>(ret, s'). reachable demo_kernel s')"
proof -
  obtain s where "reachable demo_kernel s" "bafs_init demo_kernel [5] (empty_world demo_user) = Some (0, s)" using demo_loaded by blast
  with reachable_open_returns [OF this(1) demo_kernel_ok(2), of 77 3 "''/dev/bafsc0''"] show ?thesis by (auto simp: yields_iff)
qed

section \<open>Unloading with a group\<close>

lemma find_distinct: "distinct (map f xs) \<Longrightarrow> y \<in> set xs \<Longrightarrow> List.find (\<lambda>x. f x = f y) xs = Some y"
  by (induction xs) (auto simp: image_iff)

lemma find_child_kid: "sys_inv s \<Longrightarrow> ch \<in> set (children s) \<Longrightarrow> find_child (ch_name ch) s = Some ch"
  unfolding sys_inv_def find_child_def by (auto simp: winv_def dest: dev_invD(5) intro: find_distinct)

lemma node_of_group:
  assumes "sys_inv s" and "group_kid g y \<in> set (children s)"
  shows "node_of (''/dev/'' @ BAFS_GROUP_DEVICE_NAME (group_id y)) s = Some (GroupNode g)"
  using find_child_kid [OF assms] by (simp add: find_child_def node_of_def BAFS_GROUP_DEVICE_NAME_def BAFS_CORE_CLASS_NAME_def)

text \<open>
  C35. \<open>bafs_exit\<close> does not know the groups. Whatever invariant-keeping state the module is unloaded
  in, without open files and mappings and with all PCI devices removed: a group that is alive
  survives it, with its reference, and its device node can still be found by its path. The
  file operations of the node lie in the text that the kernel frees next, so the run stops there.
\<close>

theorem unload_leaves_groups:
  assumes "sys_inv s" and "enabled (Unload ps) s" and "groups s g = Some y" and "0 < krefs s (KGroup g)"
  shows "step K (Unload ps) s = None \<and>
    (\<forall>s'. bafs_exit ps s = Some s' \<longrightarrow> groups s' g = Some y \<and> krefs s' (KGroup g) = krefs s (KGroup g) \<and>
       node_of (''/dev/'' @ BAFS_GROUP_DEVICE_NAME (group_id y)) s' = Some (GroupNode g))"
proof -
  from assms(1) obtain D cm M where inv: "winv (D, cm) {} M {} {} s" and D: "D \<le> 1" "D = 1 \<longrightarrow> 0 \<le> cm \<and> nat cm \<in> M"
    unfolding sys_inv_def by blast
  have left: "sys_inv s' \<and> groups s' g = Some y \<and> krefs s' (KGroup g) = krefs s (KGroup g) \<and> group_kid g y \<in> set (children s')"
    if "bafs_exit ps s = Some s'" for s'
  proof -
    have s': "sys_inv s'" "groups s' g = Some y" "krefs s' (KGroup g) = krefs s (KGroup g)"
      using postD [OF unload_inv [OF inv D assms(2)] that] assms(3) by (simp_all add: exit_keeps_def)
    then obtain M' where "dev_inv M' {} {} s'" by (auto simp: sys_inv_def winv_def)
    from dev_invD(9) [OF this, of g] s' assms(4) show ?thesis by auto
  qed
  then have "step K (Unload ps) s = None" by (cases "bafs_exit ps s") (force simp: text_in_use_def)+
  with left node_of_group show ?thesis by blast
qed

text \<open>The module with the core device and one group without members, at address 1.\<close>

definition demo_left_group :: world where
  "demo_left_group = (empty_world demo_user)\<lparr>next_addr := 2, groups := [1 \<mapsto> \<lparr>group_id = 0, group_minor = 1, group_ctrls = []\<rparr>],
     krefs := (\<lambda>_. 0)(KGroup 1 := 1), minor_ida := {0, 1}, group_ida := {0},
     children := [group_kid 1 \<lparr>group_id = 0, group_minor = 1, group_ctrls = []\<rparr>],
     res := (\<lambda>r. count_list [PciDriver, DevNode 0, Cdev 0, ClassObj BAFS_GROUP_CLASS_NAME, ClassObj BAFS_CTRL_CLASS_NAME,
       ClassObj BAFS_CORE_CLASS_NAME, ChrdevRegion, Cdev 1, DevRef CoreDev, DevNode 1, Buf GroupCtrls] r)\<rparr>"

lemma demo_left_group_inv: "sys_inv demo_left_group"
proof -
  have "winv (Suc 0, 0) {} {0} {} {} demo_left_group"
    by (auto simp: winv_def alloc_inv_def ctx_inv_def dev_inv_def kid_ok_def demo_left_group_def empty_world_def)
  then show ?thesis by (rule winv_sys_inv(2)) simp_all
qed

theorem unload_leaves_groups_witness:
  "step demo_kernel (Unload []) demo_left_group = None \<and>
   (\<exists>s'. bafs_exit [] demo_left_group = Some s' \<and> node_of ''/dev/bafsg0'' s' = Some (GroupNode 1) \<and> res s' PciDriver = 0)"
proof -
  have en: "enabled (Unload []) demo_left_group" "groups demo_left_group 1 = Some \<lparr>group_id = 0, group_minor = 1, group_ctrls = []\<rparr>"
    "0 < krefs demo_left_group (KGroup 1)" by (simp_all add: demo_left_group_def empty_world_def)
  have "yields (bafs_exit [] demo_left_group) (\<lambda>s'. res s' PciDriver = 0)"
    by (simp add: bafs_exit_def pci_unregister_driver_def cdev_del_core_def bafs_group_fini_def bafs_ctrl_fini_def release_def
      clear_flag_def bafs_put_minor_number_def Let_def demo_left_group_def empty_world_def
      BAFS_GROUP_CLASS_NAME_def BAFS_CTRL_CLASS_NAME_def BAFS_CORE_CLASS_NAME_def)
  then obtain s' where s': "bafs_exit [] demo_left_group = Some s'" "res s' PciDriver = 0" by (auto simp: yields_iff)
  have nm: "''/dev/'' @ BAFS_GROUP_DEVICE_NAME 0 = ''/dev/bafsg0''" by (simp add: BAFS_GROUP_DEVICE_NAME_def print_zero)
  from unload_leaves_groups [OF demo_left_group_inv en, of demo_kernel] s' nm show ?thesis by simp
qed

section \<open>Deleting what is not a group\<close>

text \<open>
  C9. The group ioctl \<open>BAFS_CORE_IOC_DELETE_GROUP\<close> looks its argument up among all devices below the
  core device and does not check the class of what it finds. In any state that keeps the
  invariant, the name of any device node makes it put a group reference on the object
  behind the node, be it a group or a controller; for a controller, where no group lives,
  the run stops: the count that would be decremented lies inside another structure.
\<close>

theorem delete_puts_what_it_finds:
  assumes "sys_inv s" and "files s f = Some (PCore cx)" and "ch \<in> set (children s)" and "ch_data ch = Some d"
    and "u_str (user s) (dg_group_name (u_delete (user s) argp)) = ch_name ch" and "length (ch_name ch) < MAX_NAME_LEN"
    and "k_copy K (now s)" and "k_copy K (now s + 1)"
  shows "step K (Ioctl f BAFS_CORE_IOC_DELETE_GROUP argp) s =
      do { s' \<leftarrow> bafs_put_group (drv_addr d) (s\<lparr>now := now s + 2\<rparr>); Some (0, s') } \<and>
    (\<forall>c. d = DrvCtrl c \<and> groups s c = None \<longrightarrow> step K (Ioctl f BAFS_CORE_IOC_DELETE_GROUP argp) s = None)"
proof -
  have "find_child nm (s\<lparr>now := n\<rparr>) = find_child nm s" for nm n by (simp add: find_child_def)
  with assms(4-8) find_child_kid [OF assms(1,3)]
  have "bafs_core_delete_group K argp s = do { s' \<leftarrow> bafs_put_group (drv_addr d) (s\<lparr>now := now s + 2\<rparr>); Some (int (length (ch_name ch)), s') }"
    by (simp add: bafs_core_delete_group_def strncpy_from_user_def ask_def Let_def acquire_def release_def fun_upd_idem)
  then have "step K (Ioctl f BAFS_CORE_IOC_DELETE_GROUP argp) s = do { s' \<leftarrow> bafs_put_group (drv_addr d) (s\<lparr>now := now s + 2\<rparr>); Some (0, s') }"
    using assms(2) by (cases "bafs_put_group (drv_addr d) (s\<lparr>now := now s + 2\<rparr>)")
      (simp_all add: vfs_ioctl_def fops_ioctl_def bafs_core_ioctl_def)
  moreover have "bafs_put_group c (s\<lparr>now := now s + 2\<rparr>) = None" if "groups s c = None" for c
    using that by (simp add: bafs_put_group_def)
  ultimately show ?thesis by auto
qed

theorem delete_puts_what_it_finds_witness:
  "\<exists>w. w = demo_group_world\<lparr>files := [3 \<mapsto> PCore 9], user := demo_user\<lparr>u_str := \<lambda>_. ''bafsc0''\<rparr>\<rparr> \<and> 0 < krefs w (KCtrl 1) \<and>
     step demo_kernel (Ioctl 3 BAFS_CORE_IOC_DELETE_GROUP 0) w =
       do { s' \<leftarrow> bafs_put_group 1 (w\<lparr>now := now w + 2\<rparr>); Some (0, s') } \<and>
     step demo_kernel (Ioctl 3 BAFS_CORE_IOC_DELETE_GROUP 0) w = None"
proof -
  let ?w = "demo_group_world\<lparr>files := [3 \<mapsto> PCore 9], user := demo_user\<lparr>u_str := \<lambda>_. ''bafsc0''\<rparr>\<rparr>"
  have "winv (0, 0) {} {} {} {} (empty_world demo_user)"
    by (simp add: winv_def alloc_inv_def ctx_inv_def dev_inv_def empty_world_def)
  then have "winv (0, 0) {} {} {} {} demo_group_world"
    unfolding demo_group_world_def by (rule winv_ctrl_created) (simp_all add: empty_world_def)
  then have inv: "sys_inv ?w" by (intro winv_sys_inv(1)) simp
  have w: "ctrl_kid 1 \<lparr>pdev = 5, ctrl_minor = 0, ctrl_id = 0\<rparr> \<in> set (children ?w)" "groups ?w 1 = None" "0 < krefs ?w (KCtrl 1)"
    by (simp_all add: demo_group_world_def ctrl_created_def empty_world_def Let_def ctrl_kid_def)
  have "step demo_kernel (Ioctl 3 BAFS_CORE_IOC_DELETE_GROUP 0) ?w =
      do { s' \<leftarrow> bafs_put_group (drv_addr (DrvCtrl 1)) (?w\<lparr>now := now ?w + 2\<rparr>); Some (0, s') } \<and>
    (\<forall>c. DrvCtrl 1 = DrvCtrl c \<and> groups ?w c = None \<longrightarrow> step demo_kernel (Ioctl 3 BAFS_CORE_IOC_DELETE_GROUP 0) ?w = None)"
    by (rule delete_puts_what_it_finds [OF inv _ w(1), where cx = 9])
      (simp_all add: BAFS_CTRL_DEVICE_NAME_def print_zero MAX_NAME_LEN_def demo_kernel_def)
  with w(2,3) show ?thesis by (auto simp: drv_addr.simps)
qed

end
