(* ===== verification/Bafs_Lib.thy ===== *)
theory Bafs_Lib
  imports Bafs_System
begin

text \<open>
  The user library, \<^verbatim>\<open>lib/src/bafs.c\<close>. The system calls are parameters of its functions (record
  \<open>os\<close>), so that the library can be studied alone or on top of the driver (\<open>driver_os\<close>). A C
  string argument is a \<open>string\<close>; an object whose address the library passes to the kernel (a
  parameter block on the stack, the array of names, the group name) is an address in the user
  memory of the world, and a store past the end of a buffer stops the run.
\<close>

section \<open>System calls and the C library\<close>

record os =
  sys_open :: "string \<Rightarrow> world \<Rightarrow> (int \<times> world) option"
  sys_ioctl :: "int \<Rightarrow> u32 \<Rightarrow> u64 \<Rightarrow> world \<Rightarrow> (int \<times> world) option"
  sys_mmap :: "u64 \<Rightarrow> u32 \<Rightarrow> int \<Rightarrow> u64 \<Rightarrow> world \<Rightarrow> (int \<times> world) option"
  sys_calloc :: "u32 \<Rightarrow> u64 option"

record lib =
  bafs_core_fd :: int
  errno :: int
  heap :: "u64 set"
  sys :: world

text \<open>A failing call returns -1 (\<open>MAP_FAILED\<close>) and stores the error in \<open>errno\<close>.\<close>

definition libc_result :: "lib \<Rightarrow> int \<times> world \<Rightarrow> int \<times> lib" where
  "libc_result l = (\<lambda>(r, w). if r < 0 then (-1, l\<lparr>errno := - r, sys := w\<rparr>) else (r, l\<lparr>sys := w\<rparr>))"

definition libc_open :: "os \<Rightarrow> string \<Rightarrow> lib \<Rightarrow> (int \<times> lib) option" where
  "libc_open os path l = map_option (libc_result l) (sys_open os path (sys l))"

definition libc_ioctl :: "os \<Rightarrow> int \<Rightarrow> u32 \<Rightarrow> u64 \<Rightarrow> lib \<Rightarrow> (int \<times> lib) option" where
  "libc_ioctl os fd cmd argp l = map_option (libc_result l) (sys_ioctl os fd cmd argp (sys l))"

definition libc_mmap :: "os \<Rightarrow> u64 \<Rightarrow> u32 \<Rightarrow> int \<Rightarrow> u64 \<Rightarrow> lib \<Rightarrow> (int \<times> lib) option" where
  "libc_mmap os va len fd off l = map_option (libc_result l) (sys_mmap os va len fd off (sys l))"

definition libc_free :: "u64 \<Rightarrow> lib \<Rightarrow> lib option" where
  "libc_free a l = (if a \<in> heap l then Some (l\<lparr>heap := heap l - {a}\<rparr>) else None)"

definition poke :: "(user_mem \<Rightarrow> user_mem) \<Rightarrow> lib \<Rightarrow> lib" where
  "poke f l = l\<lparr>sys := (sys l)\<lparr>user := f (user (sys l))\<rparr>\<rparr>"

text \<open>
  \<open>sscanf(s, "/dev/%s", buf)\<close>: the literal, then white space, then the characters up to the next
  white space, at least one. \<open>sscanf(s, "/dev/bafs%c%d", ..)\<close>: any one character, then an integer.
\<close>

definition is_space :: "char \<Rightarrow> bool" where
  "is_space c \<longleftrightarrow> (of_char c :: nat) = 32 \<or> 9 \<le> (of_char c :: nat) \<and> (of_char c :: nat) \<le> 13"

definition scan_dev :: "string \<Rightarrow> string option" where
  "scan_dev s =
     (let w = takeWhile (\<lambda>c. \<not> is_space c) (dropWhile is_space (drop 5 s)) in
      if take 5 s = ''/dev/'' \<and> w \<noteq> [] then Some w else None)"

fun starts_int :: "string \<Rightarrow> bool" where
  "starts_int [] = False"
| "starts_int (c # cs) =
     (if is_space c then starts_int cs
      else if c = CHR ''+'' \<or> c = CHR ''-'' then cs \<noteq> [] \<and> is_digit (hd cs)
      else is_digit c)"

definition scan_ctrl :: "string \<Rightarrow> char option" where
  "scan_ctrl s =
     (case drop 9 s of
        [] \<Rightarrow> None
      | c # cs \<Rightarrow> if take 9 s = ''/dev/bafs'' \<and> starts_int cs then Some c else None)"

section \<open>Groups\<close>

definition lib_core_init :: "os \<Rightarrow> lib \<Rightarrow> (int \<times> lib) option" where
  "lib_core_init os l = do {
     (fd, l) \<leftarrow> libc_open os core_path l;
     Some (fd, l\<lparr>bafs_core_fd := fd\<rparr>)
   }"

definition lib_core_ready :: "os \<Rightarrow> lib \<Rightarrow> (int \<times> lib) option" where
  "lib_core_ready os l = (if bafs_core_fd l < 0 then lib_core_init os l else Some (0, l))"

text \<open>The loop over the names; \<open>False\<close> when \<open>sscanf\<close> does not match.\<close>

fun scan_names :: "string list \<Rightarrow> u64 \<Rightarrow> nat \<Rightarrow> nat \<Rightarrow> lib \<Rightarrow> (bool \<times> lib) option" where
  "scan_names ctrl_names a i 0 l = Some (True, l)"
| "scan_names ctrl_names a i (Suc k) l = do {
     nm \<leftarrow> nth_opt ctrl_names i;
     case scan_dev nm of
       None \<Rightarrow> Some (False, l)
     | Some w \<Rightarrow>
         if length w \<ge> MAX_NAME_LEN then None
         else scan_names ctrl_names a (Suc i) k
                (poke (\<lambda>u. u\<lparr>u_str := (u_str u)(a + of_nat (MAX_NAME_LEN * i) := w)\<rparr>) l)
   }"

definition lib_core_create_group :: "os \<Rightarrow> u32 \<Rightarrow> string list \<Rightarrow> u64 \<Rightarrow> u64 \<Rightarrow> lib \<Rightarrow> (int \<times> lib) option" where
  "lib_core_create_group os n ctrl_names ret_group_name sp l = do {
     (ret, l) \<leftarrow> lib_core_ready os l;
     if ret < 0 then Some (ret, l)
     else case sys_calloc os n of
       None \<Rightarrow> Some (ENOMEM, l)
     | Some names \<Rightarrow> do {
         let l = l\<lparr>heap := insert names (heap l)\<rparr>;
         (ok, l) \<leftarrow> scan_names ctrl_names names 0 (unat n) l;
         if \<not> ok then do { l \<leftarrow> libc_free names l; Some (EINVAL, l) }
         else do {
           let l = poke (\<lambda>u. u\<lparr>u_create := (u_create u)(sp :=
                 \<lparr>cg_n_ctrls = n, cg_ctrls = names, cg_group_name = ret_group_name\<rparr>)\<rparr>) l;
           (ret, l) \<leftarrow> libc_ioctl os (bafs_core_fd l) BAFS_CORE_IOC_CREATE_GROUP sp l;
           l \<leftarrow> libc_free names l;
           if ret \<noteq> 0 then Some (errno l, l) else Some (0, l)
         }
       }
   }"

definition lib_core_delete_group :: "os \<Rightarrow> string \<Rightarrow> u64 \<Rightarrow> u64 \<Rightarrow> lib \<Rightarrow> (int \<times> lib) option" where
  "lib_core_delete_group os group_name buf sp l = do {
     (ret, l) \<leftarrow> lib_core_ready os l;
     if ret < 0 then Some (ret, l)
     else case scan_dev group_name of
       None \<Rightarrow> Some (EINVAL, l)
     | Some w \<Rightarrow>
         if length w \<ge> MAX_NAME_LEN then None
         else do {
           let l = poke (\<lambda>u. u\<lparr>u_str := (u_str u)(buf := w), u_delete := (u_delete u)(sp := \<lparr>dg_group_name = buf\<rparr>)\<rparr>) l;
           (ret, l) \<leftarrow> libc_ioctl os (bafs_core_fd l) BAFS_CORE_IOC_DELETE_GROUP sp l;
           if ret \<noteq> 0 then Some (errno l, l) else Some (0, l)
         }
   }"

section \<open>Controllers and groups as handles\<close>

definition GROUP :: int where [simp]: "GROUP = 1"

definition NOT_GROUP :: int where [simp]: "NOT_GROUP = 0"

record bafs_ctrl_t =
  ct_fd :: int
  ct_ctrl_regs :: u64
  ct_dev_name :: string
  ct_type :: int

record bafs_dma_t =
  dt_vaddr :: u64
  dt_dma_addrs :: u64
  dt_n_dma_addrs :: u32

definition lib_ctrl_open :: "os \<Rightarrow> string \<Rightarrow> bafs_ctrl_t \<Rightarrow> lib \<Rightarrow> (int \<times> bafs_ctrl_t \<times> lib) option" where
  "lib_ctrl_open os dev_name h l =
     (case scan_ctrl dev_name of
        None \<Rightarrow> Some (EINVAL, h, l)
      | Some c \<Rightarrow>
          if c \<noteq> CHR ''g'' \<and> c \<noteq> CHR ''c'' then Some (EINVAL, h, l)
          else do {
            let h = h\<lparr>ct_type := (if c = CHR ''g'' then GROUP else NOT_GROUP)\<rparr>;
            (fd, l) \<leftarrow> libc_open os dev_name l;
            if fd < 0 then Some (errno l, h, l)
            else Some (0, h\<lparr>ct_dev_name := dev_name, ct_fd := fd\<rparr>, l)
          })"

definition lib_ctrl_reg_mem :: "os \<Rightarrow> u32 \<Rightarrow> u32 \<Rightarrow> bafs_ctrl_t \<Rightarrow> u32 \<Rightarrow> u64 \<Rightarrow> lib \<Rightarrow> (int \<times> u32 \<times> lib) option" where
  "lib_ctrl_reg_mem os sz loc h ret_handle sp l =
     (if ct_fd h < 0 then Some (EINVAL, ret_handle, l)
      else do {
        let l = poke (\<lambda>u. u\<lparr>u_reg := (u_reg u)(sp := \<lparr>rm_size = sz, rm_loc = loc, rm_handle = 0\<rparr>)\<rparr>) l;
        if ct_type h \<noteq> GROUP \<and> ct_type h \<noteq> NOT_GROUP then Some (EINVAL, ret_handle, l)
        else do {
          (ret, l) \<leftarrow> libc_ioctl os (ct_fd h) (if ct_type h = GROUP then BAFS_GROUP_IOC_REG_MEM else BAFS_CTRL_IOC_REG_MEM) sp l;
          if ret \<noteq> 0 then Some (errno l, ret_handle, l)
          else Some (0, rm_handle (u_reg (user (sys l)) sp), l)
        }
      })"

text \<open>The offset of the mapping is the handle itself; with \<open>MAP_FIXED\<close> the address does not change.\<close>

definition lib_ctrl_pin_mem :: "os \<Rightarrow> u64 \<Rightarrow> u32 \<Rightarrow> bafs_ctrl_t \<Rightarrow> u32 \<Rightarrow> lib \<Rightarrow> (int \<times> lib) option" where
  "lib_ctrl_pin_mem os va sz h handle l =
     (if ct_fd h < 0 then Some (EINVAL, l)
      else do {
        (ret, l) \<leftarrow> libc_mmap os va sz (ct_fd h) (ucast handle) l;
        if ret < 0 then Some (errno l, l) else Some (0, l)
      })"

definition lib_ctrl_map :: "os \<Rightarrow> u64 \<Rightarrow> u32 \<Rightarrow> u32 \<Rightarrow> bafs_ctrl_t \<Rightarrow> u64 \<Rightarrow> lib \<Rightarrow> (int \<times> lib) option" where
  "lib_ctrl_map os va sz loc h sp l =
     (if ct_fd h < 0 then Some (EINVAL, l)
      else do {
        (ret, handle, l) \<leftarrow> lib_ctrl_reg_mem os sz loc h 0 sp l;
        if ret \<noteq> 0 then Some (ret, l) else lib_ctrl_pin_mem os va sz h handle l
      })"

definition lib_ctrl_dma_map_mem :: "os \<Rightarrow> u64 \<Rightarrow> bafs_dma_t \<Rightarrow> bafs_ctrl_t \<Rightarrow> u64 \<Rightarrow> lib \<Rightarrow> (int \<times> bafs_dma_t \<times> lib) option" where
  "lib_ctrl_dma_map_mem os va d h sp l =
     (if ct_fd h < 0 then Some (EBADF, d, l)
      else do {
        let l = poke (\<lambda>u. u\<lparr>u_dma := (u_dma u)(sp :=
              \<lparr>dm_vaddr = va, dm_dma_addrs = dt_dma_addrs d, dm_n_dma_addrs = dt_n_dma_addrs d\<rparr>)\<rparr>) l;
        if ct_type h \<noteq> GROUP \<and> ct_type h \<noteq> NOT_GROUP then Some (EINVAL, d, l)
        else do {
          (ret, l) \<leftarrow> libc_ioctl os (ct_fd h) (if ct_type h = GROUP then BAFS_GROUP_IOC_DMA_MAP_MEM else BAFS_CTRL_IOC_DMA_MAP_MEM) sp l;
          if ret \<noteq> 0 then Some (errno l, d, l)
          else Some (0, d\<lparr>dt_vaddr := va, dt_n_dma_addrs := dm_n_dma_addrs (u_dma (user (sys l)) sp)\<rparr>, l)
        }
      })"

section \<open>The library on top of the driver\<close>

text \<open>
  The system calls of process \<open>t\<close>, answered by the file layer: \<open>pick\<close> chooses the next file
  descriptor and the next memory area.
\<close>

definition driver_os :: "kernel \<Rightarrow> nat \<Rightarrow> (world \<Rightarrow> nat) \<Rightarrow> (u32 \<Rightarrow> u64 option) \<Rightarrow> os" where
  "driver_os K t pick alloc =
     \<lparr>sys_open = (\<lambda>path w. step K (Open t (pick w) path) w),
      sys_ioctl = (\<lambda>fd cmd argp w. if fd < 0 then Some (- EBADF, w) else step K (Ioctl (nat fd) cmd argp) w),
      sys_mmap = (\<lambda>va len fd off w. if fd < 0 then Some (- EBADF, w) else step K (Mmap (nat fd) (pick w) va off) w),
      sys_calloc = alloc\<rparr>"

lemma driver_os_simps [simp]:
  "sys_open (driver_os K t pick alloc) path w = step K (Open t (pick w) path) w"
  "sys_ioctl (driver_os K t pick alloc) fd cmd argp w = (if fd < 0 then Some (- EBADF, w) else step K (Ioctl (nat fd) cmd argp) w)"
  "sys_mmap (driver_os K t pick alloc) va len fd off w = (if fd < 0 then Some (- EBADF, w) else step K (Mmap (nat fd) (pick w) va off) w)"
  "sys_calloc (driver_os K t pick alloc) = alloc"
  by (simp_all add: driver_os_def)

section \<open>The name array is freed on every path\<close>

lemma libc_heap:
  "libc_open os path l = Some (r, l') \<Longrightarrow> heap l' = heap l"
  "libc_ioctl os fd cmd argp l = Some (r, l') \<Longrightarrow> heap l' = heap l \<and> bafs_core_fd l' = bafs_core_fd l"
  by (auto simp: libc_open_def libc_ioctl_def libc_result_def split: if_splits)

lemma scan_names_frame:
  "scan_names nms a i k l = Some (ok, l') \<Longrightarrow>
     heap l' = heap l \<and> bafs_core_fd l' = bafs_core_fd l \<and> errno l' = errno l \<and> (sys l')\<lparr>user := u\<rparr> = (sys l)\<lparr>user := u\<rparr>"
proof (induction k arbitrary: i l)
  case (Suc k)
  from Suc.prems obtain nm where nm: "nth_opt nms i = Some nm" by (auto elim: bind_SomeE)
  show ?case
  proof (cases "scan_dev nm")
    case None
    with Suc.prems nm show ?thesis by simp
  next
    case (Some w)
    let ?l = "poke (\<lambda>u. u\<lparr>u_str := (u_str u)(a + of_nat (MAX_NAME_LEN * i) := w)\<rparr>) l"
    from Some Suc.prems nm have "scan_names nms a (Suc i) k ?l = Some (ok, l')" by (simp split: if_splits)
    from Suc.IH [OF this] show ?thesis by (simp add: poke_def)
  qed
qed simp

lemma core_ready_cases:
  assumes "lib_core_ready os l = Some (ret, l')"
  shows "heap l' = heap l" "ret < 0 \<longrightarrow> ret = -1" "\<not> ret < 0 \<longrightarrow> 0 \<le> bafs_core_fd l'"
  using assms
  by (cases "sys_open os core_path (sys l)";
      auto simp: lib_core_ready_def lib_core_init_def libc_open_def libc_result_def split: if_splits prod.splits)+

lemma create_group_run:
  assumes "lib_core_ready os l = Some (r, l1)" and "\<not> r < 0" and "sys_calloc os n = Some a"
    and "scan_names nms a 0 (unat n) (l1\<lparr>heap := insert a (heap l1)\<rparr>) = Some (ok, l2)"
  shows "lib_core_create_group os n nms dst sp l =
    (if \<not> ok then do { l \<leftarrow> libc_free a l2; Some (EINVAL, l) }
     else do {
       (ret, l) \<leftarrow> libc_ioctl os (bafs_core_fd l2) BAFS_CORE_IOC_CREATE_GROUP sp
         (poke (\<lambda>u. u\<lparr>u_create := (u_create u)(sp := \<lparr>cg_n_ctrls = n, cg_ctrls = a, cg_group_name = dst\<rparr>)\<rparr>) l2);
       l \<leftarrow> libc_free a l;
       if ret \<noteq> 0 then Some (errno l, l) else Some (0, l)
     })"
  using assms by (simp add: lib_core_create_group_def poke_def Let_def)

text \<open>
  Creating a group through the library, whatever the system calls answer: a call that returns has
  freed the array of names, on each of its error paths as well; its result is 0, or the
  positive error of the failed step, or -1 when the core device cannot be opened (then the
  error is only in \<open>errno\<close>).
\<close>

theorem lib_create_frees_names:
  assumes "\<And>a. sys_calloc os n = Some a \<Longrightarrow> a \<notin> heap l"
    and "lib_core_create_group os n nms dst sp l = Some (ret, l')"
  shows "heap l' = heap l \<and> (ret = 0 \<or> ret = -1 \<or> ret = ENOMEM \<or> ret = EINVAL \<or> ret = errno l')"
proof -
  obtain r l1 where ready: "lib_core_ready os l = Some (r, l1)"
    using assms(2) by (cases "lib_core_ready os l") (auto simp: lib_core_create_group_def)
  note r = core_ready_cases [OF ready]
  show ?thesis
  proof (cases "r < 0 \<or> sys_calloc os n = None")
    case True
    with assms(2) ready r show ?thesis by (auto simp: lib_core_create_group_def split: if_splits)
  next
    case False
    then obtain a where a: "sys_calloc os n = Some a" by auto
    let ?l = "l1\<lparr>heap := insert a (heap l1)\<rparr>"
    obtain ok l2 where scan: "scan_names nms a 0 (unat n) ?l = Some (ok, l2)"
      using assms(2) ready False a by (cases "scan_names nms a 0 (unat n) ?l") (auto simp: lib_core_create_group_def)
    have h2: "heap l2 = insert a (heap l)" using scan_names_frame [OF scan] r(1) by simp
    have put: "libc_free a l3 = Some (l3\<lparr>heap := heap l\<rparr>)" if "heap l3 = insert a (heap l)" for l3
      using that assms(1) [OF a] by (simp add: libc_free_def)
    have "\<not> r < 0" using False by simp
    note run = create_group_run [OF ready this a scan, of dst sp]
    let ?io = "libc_ioctl os (bafs_core_fd l2) BAFS_CORE_IOC_CREATE_GROUP sp
         (poke (\<lambda>u. u\<lparr>u_create := (u_create u)(sp := \<lparr>cg_n_ctrls = n, cg_ctrls = a, cg_group_name = dst\<rparr>)\<rparr>) l2)"
    show ?thesis
    proof (cases ok)
      case True
      show ?thesis
      proof (cases ?io)
        case None
        with assms(2) True show ?thesis unfolding run None by simp
      next
        case (Some y)
        obtain r3 l3 where y: "y = (r3, l3)" by (cases y)
        have "heap l3 = insert a (heap l)" using libc_heap(2) [OF Some [unfolded y]] h2 by (simp add: poke_def)
        from put [OF this] assms(2) show ?thesis unfolding run Some y using True by (auto split: if_splits)
      qed
    next
      case False
      with put [OF h2] assms(2) show ?thesis unfolding run by auto
    qed
  qed
qed

text \<open>A name that is not a path: the array is made, the scan fails, and the array is freed.\<close>

theorem lib_create_frees_names_witness:
  "\<exists>l'. lib_core_create_group (driver_os demo_kernel 77 (\<lambda>_. 3) (\<lambda>_. Some 0x1000)) 1 [''bafsc0''] 0x200 0x400
      \<lparr>bafs_core_fd = 3, errno = 0, heap = {0x2000}, sys = empty_world demo_user\<rparr> = Some (EINVAL, l') \<and> heap l' = {0x2000}"
proof -
  let ?os = "driver_os demo_kernel 77 (\<lambda>_. 3) (\<lambda>_. Some 0x1000)"
  let ?l = "\<lparr>bafs_core_fd = 3, errno = 0, heap = {0x2000}, sys = empty_world demo_user\<rparr>"
  have run: "lib_core_create_group ?os 1 [''bafsc0''] 0x200 0x400 ?l = Some (EINVAL, ?l)"
    by (simp add: lib_core_create_group_def lib_core_ready_def scan_dev_def libc_free_def nth_opt_def)
  have "heap ?l = heap ?l \<and> (EINVAL = 0 \<or> EINVAL = -1 \<or> EINVAL = ENOMEM \<or> EINVAL = EINVAL \<or> EINVAL = errno ?l)"
    by (rule lib_create_frees_names [OF _ run]) simp
  with run show ?thesis by auto
qed

end
