(* ===== verification/Bafs_Lib_Driver.thy ===== *)
theory Bafs_Lib_Driver
  imports Bafs_Lib
begin

text \<open>
  The user library on top of the running driver: what its calls achieve when the system calls
  are those of the file layer. Opening a device by its path, mapping a memory, and
  creating and deleting a group each go through the library, the file layer and the driver.
\<close>

section \<open>Opening a device by its path\<close>

text \<open>The paths of the device nodes of a consistent state.\<close>

lemma node_path:
  assumes "sys_inv s" and "node_of path s = Some nd"
  shows "case nd of CoreNode \<Rightarrow> path = core_path | CtrlNode c \<Rightarrow> \<exists>i. path = ''/dev/bafsc'' @ print_nat i
    | GroupNode g \<Rightarrow> \<exists>i. path = ''/dev/bafsg'' @ print_nat i"
proof (cases "path = core_path")
  case True
  with assms(2) show ?thesis by (auto simp: node_of_def split: if_splits)
next
  case False
  from assms(1) obtain M where d: "dev_inv M {} {} s" by (auto simp: sys_inv_def winv_def)
  from assms(2) False obtain ch where ch: "ch \<in> set (children s)" "path = ''/dev/'' @ ch_name ch"
    and nd: "case ch_data ch of None \<Rightarrow> False | Some (DrvCtrl c) \<Rightarrow> nd = CtrlNode c | Some (DrvGroup g) \<Rightarrow> nd = GroupNode g"
    by (fastforce simp: node_of_def find_Some_iff split: if_splits option.splits drvdata.splits)
  from dev_invD(7) [OF d ch(1)] show ?thesis
    by (cases rule: kid_okE) (use ch(2) nd in \<open>auto simp: ctrl_kid_def group_kid_def BAFS_CTRL_DEVICE_NAME_def BAFS_GROUP_DEVICE_NAME_def\<close>)
qed

lemma scan_ctrl_paths:
  "scan_ctrl core_path = None"
  "scan_ctrl (''/dev/bafsc'' @ x) = Some c \<Longrightarrow> c = CHR ''c''"
  "scan_ctrl (''/dev/bafsg'' @ x) = Some c \<Longrightarrow> c = CHR ''g''"
  by (auto simp: scan_ctrl_def BAFS_CORE_CLASS_NAME_def split: if_splits)

text \<open>
  C7. Opening a device through the library in any reachable state of the driver: the call returns;
  on success the handle holds the new descriptor and the path, and its type, which the library
  takes from the path alone and which selects the ioctl numbers of every later call, is the
  type of the device that the kernel opened. Every failure returns a positive error.
\<close>

theorem lib_open_matches_device:
  assumes "reachable K (sys l)" and "ida_ok K"
  shows "yields (lib_ctrl_open (driver_os K t pick alloc) name h l) (\<lambda>(ret, h', l').
    reachable K (sys l') \<and>
    (if ret = 0 then ct_fd h' = int (pick (sys l)) \<and> ct_dev_name h' = name \<and>
       (\<exists>x cx. files (sys l') (pick (sys l)) = Some (PGroup x cx) \<and> ct_type h' = GROUP \<or>
               files (sys l') (pick (sys l)) = Some (PCtrl x cx) \<and> ct_type h' = NOT_GROUP)
     else 0 < ret))"
proof (cases "scan_ctrl name")
  case None
  with assms(1) show ?thesis by (simp add: lib_ctrl_open_def)
next
  case (Some c)
  let ?s = "sys l" and ?f = "pick (sys l)"
  from open_yields [OF assms, of t ?f name] obtain r s' where
    run: "vfs_open K t ?f name ?s = Some (r, s')" and s': "reachable K s'" and
    r: "r < 0 \<or> r = int ?f \<and> (case node_of name ?s of None \<Rightarrow> False
       | Some CoreNode \<Rightarrow> \<exists>cx. files s' ?f = Some (PCore cx)
       | Some (CtrlNode c) \<Rightarrow> \<exists>cx. files s' ?f = Some (PCtrl c cx)
       | Some (GroupNode g) \<Rightarrow> \<exists>cx. files s' ?f = Some (PGroup g cx))"
    by (auto simp: yields_iff)
  have path: "\<exists>x cx. files s' ?f = Some (PGroup x cx) \<and> c = CHR ''g'' \<or> files s' ?f = Some (PCtrl x cx) \<and> c = CHR ''c''"
    if "\<not> r < 0"
  proof -
    from r that obtain nd where nd: "node_of name ?s = Some nd" by (auto split: option.splits)
    from node_path [OF reachable_sys_inv [OF assms] nd] r that nd Some show ?thesis
      by (cases nd) (use scan_ctrl_paths in \<open>auto\<close>)
  qed
  show ?thesis
    using Some run s' r path assms(1) by (auto simp: lib_ctrl_open_def libc_open_def libc_result_def)
qed

theorem lib_open_matches_device_witness:
  "\<exists>s. bafs_init demo_kernel [5] (empty_world demo_user) = Some (0, s) \<and>
     yields (lib_ctrl_open (driver_os demo_kernel 77 (\<lambda>_. 3) (\<lambda>_. None)) ''/dev/bafsc0''
        \<lparr>ct_fd = -1, ct_ctrl_regs = 0, ct_dev_name = '''', ct_type = 7\<rparr>
        \<lparr>bafs_core_fd = -1, errno = 0, heap = {}, sys = s\<rparr>) (\<lambda>(ret, h', l'). ret = 0 \<longrightarrow> ct_fd h' = 3 \<and> ct_type h' \<noteq> 7)"
proof -
  obtain s where s: "reachable demo_kernel s" "bafs_init demo_kernel [5] (empty_world demo_user) = Some (0, s)"
    using demo_loaded by blast
  let ?l = "\<lparr>bafs_core_fd = -1, errno = 0, heap = {}, sys = s\<rparr>"
  have "yields (lib_ctrl_open (driver_os demo_kernel 77 (\<lambda>_. 3) (\<lambda>_. None)) ''/dev/bafsc0''
        \<lparr>ct_fd = -1, ct_ctrl_regs = 0, ct_dev_name = '''', ct_type = 7\<rparr> ?l) (\<lambda>(ret, h', l'). ret = 0 \<longrightarrow> ct_fd h' = 3 \<and> ct_type h' \<noteq> 7)"
    by (rule yields_mono [OF lib_open_matches_device [OF _ demo_kernel_ok(2)]]) (use s(1) in \<open>auto split: if_splits\<close>)
  with s(2) show ?thesis by blast
qed

section \<open>Mapping a memory through the library\<close>

text \<open>A registration through a controller file: the memory it makes, or nothing.\<close>

lemma ctrl_reg_ioctl:
  assumes "fresh s" and "xa_index_ok K" and ctx: "ctxs s ctx = Some cx" "0 < krefs s (KCtx ctx)" "CtxLock ctx \<notin> held s"
    and f: "ctrls s c \<noteq> None" "0 < krefs s (KCtrl c)"
  shows "yields (bafs_ctrl_ioctl K (PCtrl c ctx) BAFS_CTRL_IOC_REG_MEM argp s) (\<lambda>(ret, s').
    if ret = 0 then \<exists>i. k_xa_index K (now s + 2) (\<lambda>i. bafs_mem_xa cx i \<noteq> None) = Some i \<and> files s' = files s \<and>
        rm_handle (u_reg (user s') argp) = i + 1 \<and>
        ctxs s' ctx = Some (cx\<lparr>bafs_mem_xa := (bafs_mem_xa cx)(i \<mapsto> next_addr s), mem_list := next_addr s # mem_list cx\<rparr>) \<and>
        mems s' (next_addr s) = Some (mem_new ctx i (u_reg (user s) argp))
    else ret \<in> {- EFAULT, - ENOMEM} \<and> ctxs s' = ctxs s)"
proof -
  let ?s = "s\<lparr>krefs := (krefs s)(KCtrl c := Suc (krefs s (KCtrl c)))\<rparr>"
  have pre: "fresh ?s" "ctxs ?s ctx = Some cx" "0 < krefs ?s (KCtx ctx)" "CtxLock ctx \<notin> held ?s"
    using assms by (simp_all add: fresh_get_ctrl)
  note reg = bafs_core_reg_mem_eq [OF pre(1) assms(2) pre(2-4) refl refl, of argp]
  have "next_addr s \<noteq> c" using assms(1) f(1) freshD(4) [of s c] by auto
  then show ?thesis
    unfolding bafs_ctrl_ioctl_eq [OF f refl] reg using f ctx(1) assms(1)
    by (auto simp: bafs_ctrl_release_shared registered_def Let_def)
qed

lemma vfs_mmap_unaligned:
  "files s f = Some pd \<Longrightarrow> off AND (PAGE_SIZE - 1) \<noteq> 0 \<Longrightarrow> vfs_mmap K f v va off s = Some (- EINVAL, s)"
  by (simp add: vfs_mmap_def)

lemma handle_unaligned:
  fixes i :: u32
  assumes "unat i < 4095"
  shows "(ucast (i + 1) :: u64) AND (PAGE_SIZE - 1) \<noteq> 0"
proof -
  have "unat (i + 1) = Suc (unat i)" using assms by (simp add: unat_word_ariths)
  moreover have "Suc (unat i) AND 4095 = take_bit 12 (Suc (unat i))"
    by (simp add: take_bit_eq_mask mask_eq_exp_minus_1)
  ultimately have "unat ((ucast (i + 1) :: u64) AND 4095) = Suc (unat i)"
    using assms by (simp add: unsigned_and_eq take_bit_nat_eq_self)
  then show ?thesis by auto
qed

text \<open>
  C8. \<open>bafs_ctrl_map\<close> of the library registers a memory and then maps the file at the offset
  \<open>handle\<close>, whereas the driver takes its handles from the offset in pages. Unless the new
  handle happens to be a multiple of the page size, the call returns an error whatever happens: the error
  of the registration, or \<open>EINVAL\<close> from the unaligned offset, and then the registration it made
  stays behind. (Shifted to pages, a multiple of the page size is the handle of another registration.)
\<close>

theorem lib_map_unaligned_fails:
  assumes os: "os = driver_os K t pick alloc" and h: "ct_fd h = int f" "ct_type h = NOT_GROUP"
    and f: "files (sys l) f = Some (PCtrl c ctx)" "ctrls (sys l) c \<noteq> None" "0 < krefs (sys l) (KCtrl c)"
    and "fresh (sys l)" and "xa_index_ok K"
    and ctx: "ctxs (sys l) ctx = Some cx" "0 < krefs (sys l) (KCtx ctx)" "CtxLock ctx \<notin> held (sys l)"
    and unaligned: "\<And>i. k_xa_index K (now (sys l) + 2) (\<lambda>i. bafs_mem_xa cx i \<noteq> None) = Some i \<Longrightarrow>
      (ucast (i + 1) :: u64) AND (PAGE_SIZE - 1) \<noteq> 0"
  shows "yields (lib_ctrl_map os va sz loc h sp l) (\<lambda>(ret, l').
    if ret = EINVAL then \<exists>i. bafs_mem_xa cx i = None \<and>
        ctxs (sys l') ctx = Some (cx\<lparr>bafs_mem_xa := (bafs_mem_xa cx)(i \<mapsto> next_addr (sys l)),
                                     mem_list := next_addr (sys l) # mem_list cx\<rparr>) \<and>
        mems (sys l') (next_addr (sys l)) = Some (mem_new ctx i \<lparr>rm_size = sz, rm_loc = loc, rm_handle = 0\<rparr>)
    else ret \<in> {EFAULT, ENOMEM} \<and> ctxs (sys l') = ctxs (sys l))"
proof -
  let ?l = "poke (\<lambda>u. u\<lparr>u_reg := (u_reg u)(sp := \<lparr>rm_size = sz, rm_loc = loc, rm_handle = 0\<rparr>)\<rparr>) l"
  let ?s = "sys ?l"
  have pre: "fresh ?s" "ctxs ?s ctx = Some cx" "0 < krefs ?s (KCtx ctx)" "CtxLock ctx \<notin> held ?s" "ctrls ?s c \<noteq> None" "0 < krefs ?s (KCtrl c)"
    using assms by (simp_all add: poke_def fresh_def)
  from ctrl_reg_ioctl [OF pre(1) assms(8) pre(2-6), of sp] obtain r s' where
    io: "bafs_ctrl_ioctl K (PCtrl c ctx) BAFS_CTRL_IOC_REG_MEM sp ?s = Some (r, s')" and
    r: "if r = 0 then \<exists>i. k_xa_index K (now ?s + 2) (\<lambda>i. bafs_mem_xa cx i \<noteq> None) = Some i \<and> files s' = files ?s \<and>
        rm_handle (u_reg (user s') sp) = i + 1 \<and>
        ctxs s' ctx = Some (cx\<lparr>bafs_mem_xa := (bafs_mem_xa cx)(i \<mapsto> next_addr ?s), mem_list := next_addr ?s # mem_list cx\<rparr>) \<and>
        mems s' (next_addr ?s) = Some (mem_new ctx i (u_reg (user ?s) sp))
      else r \<in> {- EFAULT, - ENOMEM} \<and> ctxs s' = ctxs ?s"
    unfolding yields_iff by auto
  have ioctl: "vfs_ioctl K f BAFS_CTRL_IOC_REG_MEM sp ?s = Some (r, s')"
    using io f(1) by (simp add: vfs_ioctl_def fops_ioctl_def poke_def)
  have "r \<le> 0" using r by (auto split: if_splits)
  then have step: "lib_ctrl_map os va sz loc h sp l =
    (if r \<noteq> 0 then Some (- r, ?l\<lparr>errno := - r, sys := s'\<rparr>)
     else lib_ctrl_pin_mem os va sz h (rm_handle (u_reg (user s') sp)) (?l\<lparr>sys := s'\<rparr>))"
    using ioctl h by (simp add: lib_ctrl_map_def lib_ctrl_reg_mem_def libc_ioctl_def libc_result_def os Let_def)
  show ?thesis
  proof (cases "r = 0")
    case False
    with r show ?thesis by (auto simp: step poke_def)
  next
    case True
    with r obtain i where i: "k_xa_index K (now ?s + 2) (\<lambda>i. bafs_mem_xa cx i \<noteq> None) = Some i" "files s' = files ?s"
      "rm_handle (u_reg (user s') sp) = i + 1" by auto
    then have off: "(ucast (i + 1) :: u64) AND (PAGE_SIZE - 1) \<noteq> 0" using unaligned [of i] by (simp add: poke_def)
    have "vfs_mmap K f (pick s') va (ucast (i + 1)) s' = Some (- EINVAL, s')"
      by (rule vfs_mmap_unaligned [OF _ off]) (use i(2) f(1) in \<open>simp add: poke_def\<close>)
    with True i(3) h have run: "lib_ctrl_map os va sz loc h sp l = Some (EINVAL, ?l\<lparr>errno := EINVAL, sys := s'\<rparr>)"
      unfolding step by (simp add: os lib_ctrl_pin_mem_def libc_mmap_def libc_result_def)
    show ?thesis
      unfolding run using True r i(1,3) xa_index_fresh [OF assms(8) i(1)] by (simp add: poke_def) blast
  qed
qed

theorem lib_map_unaligned_fails_witness:
  "yields (lib_ctrl_map (driver_os demo_kernel 77 (\<lambda>_. 4) (\<lambda>_. None)) 0x20000 8192 0
      \<lparr>ct_fd = 3, ct_ctrl_regs = 0, ct_dev_name = ''/dev/bafsc0'', ct_type = NOT_GROUP\<rparr> 0x400
      \<lparr>bafs_core_fd = -1, errno = 0, heap = {}, sys = demo_dma_world\<lparr>files := [3 \<mapsto> PCtrl 7 1]\<rparr>\<rparr>) (\<lambda>(ret, l'). ret > 0)"
proof -
  let ?s = "demo_dma_world\<lparr>files := [3 \<mapsto> PCtrl 7 1]\<rparr>"
  have "fresh ?s" using demo_dma_world_ok(1) by (simp add: fresh_def)
  moreover have "ctxs ?s 1 = Some \<lparr>bafs_mem_xa = [0 \<mapsto> 2], mem_list = [2], ctx_tgid = 77\<rparr>"
    "0 < krefs ?s (KCtx 1)" "CtxLock 1 \<notin> held ?s" "ctrls ?s 7 \<noteq> None" "0 < krefs ?s (KCtrl 7)" "files ?s 3 = Some (PCtrl 7 1)"
    by (simp_all add: demo_dma_world_def)
  moreover have "(ucast (i + 1) :: u64) AND (PAGE_SIZE - 1) \<noteq> 0" if "k_xa_index demo_kernel n used = Some i" for n used i
    by (rule handle_unaligned) (use that in \<open>auto simp: demo_kernel_def split: if_splits\<close>)
  ultimately show ?thesis
    by - (rule yields_mono [OF lib_map_unaligned_fails [OF refl]], (use demo_kernel_ok(1) in \<open>auto split: if_splits\<close>))
qed

section \<open>Creating and deleting a group through the library\<close>

lemma print_nat_not_space: "c \<in> set (print_nat n) \<Longrightarrow> \<not> is_space c"
  using print_nat_digits [of n] by (auto simp: list_all_iff is_digit_def is_space_def)

lemma scan_group_path: "scan_dev (''/dev/'' @ BAFS_GROUP_DEVICE_NAME gid) = Some (BAFS_GROUP_DEVICE_NAME gid)"
proof -
  let ?w = "BAFS_GROUP_DEVICE_NAME gid"
  have w: "\<not> is_space c" if "c \<in> set ?w" for c
    using that print_nat_not_space by (auto simp: BAFS_GROUP_DEVICE_NAME_def is_space_def)
  moreover have "dropWhile is_space ?w = ?w" "?w \<noteq> []" by (simp_all add: BAFS_GROUP_DEVICE_NAME_def is_space_def)
  ultimately show ?thesis by (simp add: scan_dev_def Let_def takeWhile_eq_Nil_iff)
qed

text \<open>The state after a successful creation, as far as the deletion needs it.\<close>

lemma create_ioctl_result:
  assumes "fresh s" and "ida_ok K" and "ctrl_children s" and "children_ok s"
    and "bafs_core_ioctl K pd BAFS_CORE_IOC_CREATE_GROUP argp s = Some (0, s')"
  shows "files s' = files s \<and> (\<exists>gid. 0 \<le> gid \<and> gid < 10 ^ 9 \<and>
    u_str (user s') (cg_group_name (u_create (user s) argp)) = ''/dev/'' @ BAFS_GROUP_DEVICE_NAME gid)"
proof -
  from assms(5) obtain ret where "bafs_core_create_group K argp s = Some (ret, s')" and "ret \<ge> 0"
    by (auto simp: bafs_core_ioctl_def elim!: bind_SomeE split: if_splits)
  with create_group_cases [OF assms(1-4) refl, of argp] show ?thesis
    by (auto simp: created_result_def group_created_def Let_def split: if_splits)
qed

text \<open>What a successful creation does with the driver: one ioctl, after stores to user memory only.\<close>

lemma lib_create_success:
  assumes os: "os = driver_os K t pick alloc" and fd: "bafs_core_fd l = int f" "files (sys l) f = Some (PCore cx)"
    and create: "lib_core_create_group os n nms dst sp l = Some (0, l1)"
  obtains w a where "w\<lparr>user := user (sys l)\<rparr> = sys l"
    and "u_create (user w) sp = \<lparr>cg_n_ctrls = n, cg_ctrls = a, cg_group_name = dst\<rparr>"
    and "bafs_core_ioctl K (PCore cx) BAFS_CORE_IOC_CREATE_GROUP sp w = Some (0, sys l1)" and "bafs_core_fd l1 = int f"
proof -
  have ready: "lib_core_ready os l = Some (0, l)" using fd by (simp add: lib_core_ready_def)
  from create ready obtain a where a: "sys_calloc os n = Some a"
    by (cases "sys_calloc os n") (simp_all add: lib_core_create_group_def)
  from create ready a obtain ok l2 where scan: "scan_names nms a 0 (unat n) (l\<lparr>heap := insert a (heap l)\<rparr>) = Some (ok, l2)"
    by (cases "scan_names nms a 0 (unat n) (l\<lparr>heap := insert a (heap l)\<rparr>)") (auto simp: lib_core_create_group_def)
  note run = create_group_run [OF ready _ a scan, of dst sp, simplified]
  from scan_names_frame [OF scan, of "user (sys l)"] have l2: "bafs_core_fd l2 = int f" "(sys l2)\<lparr>user := user (sys l)\<rparr> = sys l"
    using fd(1) by simp_all
  let ?l = "poke (\<lambda>u. u\<lparr>u_create := (u_create u)(sp := \<lparr>cg_n_ctrls = n, cg_ctrls = a, cg_group_name = dst\<rparr>)\<rparr>) l2"
  have "files (sys l2) f = Some (PCore cx)" using arg_cong [OF l2(2), of files] fd(2) by simp
  then have io: "libc_ioctl os (bafs_core_fd l2) BAFS_CORE_IOC_CREATE_GROUP sp ?l =
      map_option (libc_result ?l) (bafs_core_ioctl K (PCore cx) BAFS_CORE_IOC_CREATE_GROUP sp (sys ?l))"
    by (simp add: libc_ioctl_def os l2(1) vfs_ioctl_def fops_ioctl_def poke_def)
  from create have ok unfolding run by (cases ok) (auto elim: bind_SomeE)
  with create io obtain r s' where r: "bafs_core_ioctl K (PCore cx) BAFS_CORE_IOC_CREATE_GROUP sp (sys ?l) = Some (r, s')"
    unfolding run by (cases "bafs_core_ioctl K (PCore cx) BAFS_CORE_IOC_CREATE_GROUP sp (sys ?l)") auto
  have "r \<le> 0" using r by (auto simp: bafs_core_ioctl_def elim!: bind_SomeE split: if_splits)
  with create \<open>ok\<close> io r have "r = 0" and "sys l1 = s'" and "bafs_core_fd l1 = int f"
    unfolding run by (auto simp: libc_result_def libc_free_def l2(1) poke_def split: if_splits)
  with that [of "sys ?l" a] r l2(2) show thesis by (simp add: poke_def)
qed

lemma sys_inv_user: "sys_inv (s\<lparr>user := u\<rparr>) = sys_inv s"
  by (simp add: sys_inv_def)

lemma restored_user: "restored w (s\<lparr>user := user w\<rparr>) \<Longrightarrow> restored (w\<lparr>user := u\<rparr>) (s\<lparr>user := u\<rparr>)"
  by (cases w; cases s) (simp add: restored_def)

lemma restored_keeps: "restored (s\<lparr>user := u\<rparr>) s' \<Longrightarrow> restored s (s'\<lparr>user := user s\<rparr>)"
  by (cases s; cases s') (simp add: restored_def)

text \<open>
  C6. A group made through the library on a driver in a state that keeps its invariant, as every
  reachable one does: the user's
  buffer holds the path of its device, and deleting that path through the library leaves the
  driver as it was before the creation, but for user memory; a deletion that fails does so
  with \<open>EFAULT\<close> and changes nothing.
\<close>

theorem lib_create_delete_roundtrip:
  assumes os: "os = driver_os K t pick alloc" and inv: "sys_inv (sys l)" and ida: "ida_ok K"
    and fd: "bafs_core_fd l = int f" "files (sys l) f = Some (PCore cx)"
    and create: "lib_core_create_group os n nms dst sp l = Some (0, l1)"
  shows "yields (lib_core_delete_group os (u_str (user (sys l1)) dst) buf sp' l1) (\<lambda>(ret, l2).
    if ret = 0 then restored (sys l) ((sys l2)\<lparr>user := user (sys l)\<rparr>)
    else ret = EFAULT \<and> restored (sys l1) ((sys l2)\<lparr>user := user (sys l1)\<rparr>))"
proof -
  from lib_create_success [OF os fd create] obtain w a where w: "w\<lparr>user := user (sys l)\<rparr> = sys l"
    "u_create (user w) sp = \<lparr>cg_n_ctrls = n, cg_ctrls = a, cg_group_name = dst\<rparr>"
    and io: "bafs_core_ioctl K (PCore cx) BAFS_CORE_IOC_CREATE_GROUP sp w = Some (0, sys l1)" and fd1: "bafs_core_fd l1 = int f" .
  have "w = (sys l)\<lparr>user := user w\<rparr>" using arg_cong [OF w(1), of "\<lambda>s. s\<lparr>user := user w\<rparr>"] by simp
  then have "sys_inv w" using inv by (metis sys_inv_user)
  then have pre: "fresh w" "children_ok w" "ctrl_children w" "child_names_ok w"
    using sys_inv_fresh by blast+
  let ?s = "sys l1" and ?path = "u_str (user (sys l1)) dst"
  from create_ioctl_result [OF pre(1) ida pre(3,2) io] w(2) obtain gid where gid: "0 \<le> gid" "gid < 10 ^ 9"
    "?path = ''/dev/'' @ BAFS_GROUP_DEVICE_NAME gid" and files: "files ?s = files w" by auto
  let ?u = "(user ?s)\<lparr>u_str := (u_str (user ?s))(buf := BAFS_GROUP_DEVICE_NAME gid), u_delete := (u_delete (user ?s))(sp' := \<lparr>dg_group_name = buf\<rparr>)\<rparr>"
  from create_delete_roundtrip [OF pre(1) ida pre(3,2,4) io refl, of ?u sp'] w(2) gid(3)
  obtain r s2 where del: "bafs_core_ioctl K (PCore cx) BAFS_CORE_IOC_DELETE_GROUP sp' (?s\<lparr>user := ?u\<rparr>) = Some (r, s2)"
    and r: "if r = 0 then restored w (s2\<lparr>user := user w\<rparr>) else r = - EFAULT \<and> restored (?s\<lparr>user := ?u\<rparr>) s2"
    by (auto simp: yields_iff)
  have len: "\<not> MAX_NAME_LEN \<le> length (BAFS_GROUP_DEVICE_NAME gid)" using length_group_name [OF gid(1)] gid(2) by simp
  have "files ?s f = Some (PCore cx)" using fd(2) files arg_cong [OF w(1), of files] by simp
  then have io2: "vfs_ioctl K f BAFS_CORE_IOC_DELETE_GROUP sp' (?s\<lparr>user := ?u\<rparr>) = Some (r, s2)"
    using del by (simp add: vfs_ioctl_def fops_ioctl_def)
  have run: "lib_core_delete_group os ?path buf sp' l1 =
      Some (if r < 0 then (- r, l1\<lparr>errno := - r, sys := s2\<rparr>) else if r \<noteq> 0 then (errno l1, l1\<lparr>sys := s2\<rparr>) else (0, l1\<lparr>sys := s2\<rparr>))"
    using io2 fd1 len by (simp add: lib_core_delete_group_def lib_core_ready_def gid(3) scan_group_path [simplified] poke_def Let_def libc_ioctl_def os libc_result_def)
  have home: "restored w (s2\<lparr>user := user w\<rparr>) \<Longrightarrow> restored (sys l) (s2\<lparr>user := user (sys l)\<rparr>)"
    using restored_user [of w s2 "user (sys l)"] by (simp only: w(1))
  show ?thesis unfolding run using r home restored_keeps by (auto split: if_splits)
qed

text \<open>The creation succeeds on the example state, whatever else user memory holds.\<close>

lemma demo_create_ioctl:
  assumes "u_create U sp = \<lparr>cg_n_ctrls = 1, cg_ctrls = a, cg_group_name = dst\<rparr>" and "u_str U a = ''bafsc0''"
  shows "\<exists>s'. bafs_core_ioctl demo_kernel pd BAFS_CORE_IOC_CREATE_GROUP sp (demo_group_world\<lparr>files := F, user := U\<rparr>) = Some (0, s')"
  by (simp add: assms bafs_core_ioctl_def bafs_core_create_group_def create_named_group_def strncpy_from_user_def bafs_group_alloc_def
      group_alloc_device_def prim_defs Let_def device_create_def bafs_get_minor_number_def group_ida_get_def demo_kernel_def
      demo_group_world_def ctrl_created_def empty_world_def find_child_def bafs_get_ctrl_def BAFS_CTRL_DEVICE_NAME_def
      BAFS_GROUP_DEVICE_NAME_def print_zero MAX_NAME_LEN_def)

lemma demo_group_world_inv: "sys_inv (demo_group_world\<lparr>files := F\<rparr>)"
proof -
  have "winv (0, 0) {} {} {} {} (empty_world demo_user)"
    by (simp add: winv_def alloc_inv_def ctx_inv_def dev_inv_def empty_world_def)
  then have "winv (0, 0) {} {} {} {} demo_group_world"
    unfolding demo_group_world_def by (rule winv_ctrl_created) (simp_all add: empty_world_def)
  then show ?thesis by (intro winv_sys_inv(1)) simp
qed

abbreviation demo_os :: os where
  "demo_os \<equiv> driver_os demo_kernel 77 (\<lambda>_. 4) (\<lambda>_. Some 0x1000)"

abbreviation demo_lib :: lib where
  "demo_lib \<equiv> \<lparr>bafs_core_fd = 3, errno = 0, heap = {}, sys = demo_group_world\<lparr>files := [3 \<mapsto> PCore 9]\<rparr>\<rparr>"

lemma demo_lib_create: "\<exists>l1. lib_core_create_group demo_os 1 [''/dev/bafsc0''] 0x200 0x400 demo_lib = Some (0, l1)"
proof -
  let ?l = "demo_lib\<lparr>heap := {0x1000}\<rparr>" and ?U = "\<lambda>u. u\<lparr>u_str := (u_str u)(0x1000 := ''bafsc0'')\<rparr>"
  let ?P = "\<lambda>u. u\<lparr>u_create := (u_create u)(0x400 := \<lparr>cg_n_ctrls = 1, cg_ctrls = 0x1000, cg_group_name = 0x200\<rparr>)\<rparr>"
  have ready: "lib_core_ready demo_os demo_lib = Some (0, demo_lib)" by (simp add: lib_core_ready_def)
  have alloc: "sys_calloc demo_os 1 = Some 0x1000" by simp
  have "scan_dev ''/dev/bafsc0'' = Some ''bafsc0''" by (simp add: scan_dev_def is_space_def)
  then have scan: "scan_names [''/dev/bafsc0''] 0x1000 0 (unat (1 :: u32)) (demo_lib\<lparr>heap := insert 0x1000 (heap demo_lib)\<rparr>) = Some (True, poke ?U ?l)"
    by (simp add: MAX_NAME_LEN_def)
  from demo_create_ioctl [where U = "?P (?U (user demo_group_world))" and sp = "0x400" and a = "0x1000" and dst = "0x200"
    and pd = "PCore 9" and F = "[3 \<mapsto> PCore 9]"]
  obtain s' where "bafs_core_ioctl demo_kernel (PCore 9) BAFS_CORE_IOC_CREATE_GROUP 0x400
      (demo_group_world\<lparr>files := [3 \<mapsto> PCore 9], user := ?P (?U (user demo_group_world))\<rparr>) = Some (0, s')" by auto
  then have "vfs_ioctl demo_kernel 3 BAFS_CORE_IOC_CREATE_GROUP 0x400 (sys (poke ?P (poke ?U ?l))) = Some (0, s')"
    by (simp add: vfs_ioctl_def fops_ioctl_def poke_def)
  then show ?thesis
    unfolding create_group_run [OF ready _ alloc scan, of "0x200" "0x400", simplified]
    by (simp add: libc_ioctl_def libc_result_def libc_free_def poke_def)
qed

theorem lib_create_delete_roundtrip_witness:
  "\<exists>l1. lib_core_create_group demo_os 1 [''/dev/bafsc0''] 0x200 0x400 demo_lib = Some (0, l1) \<and>
     yields (lib_core_delete_group demo_os (u_str (user (sys l1)) 0x200) 0x800 0x400 l1) (\<lambda>(ret, l2). ret = 0 \<or> ret = EFAULT)"
proof -
  obtain l1 where l1: "lib_core_create_group demo_os 1 [''/dev/bafsc0''] 0x200 0x400 demo_lib = Some (0, l1)"
    using demo_lib_create by blast
  have "yields (lib_core_delete_group demo_os (u_str (user (sys l1)) 0x200) 0x800 0x400 l1) (\<lambda>(ret, l2). ret = 0 \<or> ret = EFAULT)"
    by (rule yields_mono [OF lib_create_delete_roundtrip [OF refl _ demo_kernel_ok(2) _ _ l1]])
      (auto simp: demo_group_world_inv split: if_splits)
  with l1 show ?thesis by blast
qed

end
