(* ===== verification/Bafs_Ctx_Refine.thy ===== *)
theory Bafs_Ctx_Refine
  imports Bafs_Inv_Dev
begin

text \<open>
  What the context functions of \<^verbatim>\<open>module/bafs/core.c\<close> promise, without addresses, pools and
  tables: a count for every thread group that has a context. \<open>spec_step\<close> is this
  specification, with the failures of the kernel as free choices; \<open>ctx_step\<close> is the code;
  \<open>procs\<close> reads the abstract table off the state of the driver.
\<close>

section \<open>The specification\<close>

type_synonym proc_table = "nat \<rightharpoonup> nat"

datatype ctx_op = GetCtx nat | OpenCtx nat | PutCtx nat

text \<open>
  \<open>spec_step op T ok T'\<close>: taking a context can fail only for a group that has none, opening
  succeeds only for a group that has none, and the last reference removes the entry.
\<close>

inductive spec_step :: "ctx_op \<Rightarrow> proc_table \<Rightarrow> bool \<Rightarrow> proc_table \<Rightarrow> bool" where
  get_new: "T t = None \<Longrightarrow> spec_step (GetCtx t) T True (T(t \<mapsto> 1))"
| get_old: "T t = Some n \<Longrightarrow> spec_step (GetCtx t) T True (T(t \<mapsto> Suc n))"
| get_fails: "spec_step (GetCtx t) T False T"
| open_new: "T t = None \<Longrightarrow> spec_step (OpenCtx t) T True (T(t \<mapsto> 1))"
| open_fails: "spec_step (OpenCtx t) T False T"
| put_shared: "T t = Some (Suc (Suc n)) \<Longrightarrow> spec_step (PutCtx t) T True (T(t \<mapsto> Suc n))"
| put_last: "T t = Some 1 \<Longrightarrow> spec_step (PutCtx t) T True (T(t := None))"

inductive_cases spec_putE: "spec_step (PutCtx t) T ok T'"

inductive spec_run :: "ctx_op list \<Rightarrow> proc_table \<Rightarrow> bool list \<Rightarrow> proc_table \<Rightarrow> bool" where
  nil: "spec_run [] T [] T"
| cons: "spec_step op T ok T' \<Longrightarrow> spec_run ops T' oks T'' \<Longrightarrow> spec_run (op # ops) T (ok # oks) T''"

section \<open>The code\<close>

fun ctx_step :: "kernel \<Rightarrow> ctx_op \<Rightarrow> world \<Rightarrow> (bool \<times> world) option" where
  "ctx_step K (GetCtx t) s = do { (c, s) \<leftarrow> bafs_get_ctx K t s; Some (c \<noteq> None, s) }"
| "ctx_step K (OpenCtx t) s = do { (ret, pd, s) \<leftarrow> bafs_core_open K t s; Some (ret = 0, s) }"
| "ctx_step K (PutCtx t) s = do { c \<leftarrow> global_ctx_xa s t; s \<leftarrow> bafs_put_ctx c s; Some (True, s) }"

fun ctx_run :: "kernel \<Rightarrow> ctx_op list \<Rightarrow> world \<Rightarrow> (bool list \<times> world) option" where
  "ctx_run K [] s = Some ([], s)"
| "ctx_run K (op # ops) s = do {
     (ok, s) \<leftarrow> ctx_step K op s;
     (oks, s) \<leftarrow> ctx_run K ops s;
     Some (ok # oks, s)
   }"

section \<open>The simulation\<close>

definition procs :: "world \<Rightarrow> proc_table" where
  "procs s t = map_option (\<lambda>c. krefs s (KCtx c)) (global_ctx_xa s t)"

definition ctx_table_ok :: "world \<Rightarrow> bool" where
  "ctx_table_ok s \<longleftrightarrow> (\<exists>X M. winv X {} M {} {} s) \<and> (\<forall>t c. global_ctx_xa s t = Some c \<longrightarrow> 0 < res s (PidRef t))"

lemma ctx_table_okD:
  assumes "ctx_table_ok s"
  shows "fresh s" "held s = {}"
    and "global_ctx_xa s t = Some c \<Longrightarrow> 0 < krefs s (KCtx c)" "global_ctx_xa s t = Some c \<Longrightarrow> \<exists>x. ctxs s c = Some x \<and> ctx_tgid x = t"
    and "global_ctx_xa s t = Some c \<Longrightarrow> 0 < res s (PidRef t)" "global_ctx_xa s t = Some c \<Longrightarrow> c \<noteq> next_addr s"
proof -
  from assms obtain X M where inv: "winv X {} M {} {} s" and pid: "\<forall>t c. global_ctx_xa s t = Some c \<longrightarrow> 0 < res s (PidRef t)"
    unfolding ctx_table_ok_def by blast
  show f: "fresh s" by (rule winv_fresh [OF inv])
  from inv have c: "ctx_inv s" by (simp add: winv_def)
  show "held s = {}" using inv by (simp add: winv_def)
  show "global_ctx_xa s t = Some c \<Longrightarrow> 0 < krefs s (KCtx c)" "global_ctx_xa s t = Some c \<Longrightarrow> \<exists>x. ctxs s c = Some x \<and> ctx_tgid x = t"
    using c unfolding ctx_inv_def by blast+
  then show "global_ctx_xa s t = Some c \<Longrightarrow> c \<noteq> next_addr s" using fresh_ctx_neq [OF f] by blast
  show "global_ctx_xa s t = Some c \<Longrightarrow> 0 < res s (PidRef t)" using pid by blast
qed

lemma other_ctx: "ctx_table_ok s \<Longrightarrow> global_ctx_xa s t = Some c \<Longrightarrow> global_ctx_xa s t' = Some c \<Longrightarrow> t' = t"
  by (metis ctx_table_okD(4) option.inject)

text \<open>A step of the driver keeps what its own operations keep.\<close>

lemma ctx_table_ok_post:
  assumes "ctx_table_ok s" and "\<And>X M. winv X {} M {} {} s \<Longrightarrow> post r (\<lambda>x. winv X {} M {} {} (f x))" and "r = Some x"
    and "\<And>t c. global_ctx_xa (f x) t = Some c \<Longrightarrow> 0 < res (f x) (PidRef t)"
  shows "ctx_table_ok (f x)"
proof -
  from assms(1) obtain X M where inv: "winv X {} M {} {} s" unfolding ctx_table_ok_def by blast
  from assms(2) [OF inv] assms(3) have "winv X {} M {} {} (f x)" by (simp add: post_def)
  with assms(4) show ?thesis unfolding ctx_table_ok_def by blast
qed

text \<open>The table after one more reference, after a new context, and after the last reference went.\<close>

lemma procs_more:
  assumes "ctx_table_ok s" and "global_ctx_xa s t = Some c"
    and "krefs s' = (krefs s)(KCtx c := n)" and "global_ctx_xa s' = global_ctx_xa s"
  shows "procs s' = (procs s)(t \<mapsto> n)"
proof
  fix u show "procs s' u = ((procs s)(t \<mapsto> n)) u"
    using other_ctx [OF assms(1,2), of u] assms(2-4) by (cases "global_ctx_xa s u") (auto simp: procs_def)
qed

lemma procs_new:
  assumes "ctx_table_ok s" and "krefs s' = (krefs s)(KCtx (next_addr s) := n)"
    and "global_ctx_xa s' = (global_ctx_xa s)(t \<mapsto> next_addr s)"
  shows "procs s' = (procs s)(t \<mapsto> n)"
proof
  fix u show "procs s' u = ((procs s)(t \<mapsto> n)) u"
    using ctx_table_okD(6) [OF assms(1), of u] assms(2,3) by (cases "global_ctx_xa s u") (auto simp: procs_def)
qed

lemma procs_gone:
  assumes "ctx_table_ok s" and "global_ctx_xa s t = Some c"
    and "krefs s' = (krefs s)(KCtx c := 0)" and "global_ctx_xa s' = (global_ctx_xa s)(t := None)"
  shows "procs s' = (procs s)(t := None)"
proof
  fix u show "procs s' u = ((procs s)(t := None)) u"
    using other_ctx [OF assms(1,2), of u] assms(3,4) by (cases "global_ctx_xa s u") (auto simp: procs_def)
qed

lemma get_ctx_refines:
  assumes ok: "ctx_table_ok s"
  shows "yields (bafs_get_ctx K t s) (\<lambda>(c, s'). ctx_table_ok s' \<and> spec_step (GetCtx t) (procs s) (c \<noteq> None) (procs s'))"
proof -
  note D = ctx_table_okD [OF ok]
  have "yields (bafs_get_ctx K t s) (\<lambda>(c, s'). (\<forall>u c'. global_ctx_xa s' u = Some c' \<longrightarrow> 0 < res s' (PidRef u)) \<and>
     (case c of None \<Rightarrow> krefs s' = krefs s \<and> global_ctx_xa s' = global_ctx_xa s
      | Some c \<Rightarrow> (case global_ctx_xa s t of
          None \<Rightarrow> krefs s' = (krefs s)(KCtx (next_addr s) := 1) \<and> global_ctx_xa s' = (global_ctx_xa s)(t \<mapsto> next_addr s)
        | Some c' \<Rightarrow> c = c' \<and> krefs s' = (krefs s)(KCtx c := Suc (krefs s (KCtx c))) \<and> global_ctx_xa s' = global_ctx_xa s)))"
  proof (cases "global_ctx_xa s t")
    case None
    with D(1,5) show ?thesis by (auto simp: ctx_defs prim_defs Let_def freshD fun_upd_idem)
  next
    case (Some c)
    with D(1,5) D(3,6) [OF Some] show ?thesis by (auto simp: ctx_defs prim_defs Let_def freshD fun_upd_idem)
  qed
  then obtain c s' where run: "bafs_get_ctx K t s = Some (c, s')" and pid: "\<And>u c'. global_ctx_xa s' u = Some c' \<Longrightarrow> 0 < res s' (PidRef u)"
    and change: "case c of None \<Rightarrow> krefs s' = krefs s \<and> global_ctx_xa s' = global_ctx_xa s
      | Some c \<Rightarrow> (case global_ctx_xa s t of
          None \<Rightarrow> krefs s' = (krefs s)(KCtx (next_addr s) := 1) \<and> global_ctx_xa s' = (global_ctx_xa s)(t \<mapsto> next_addr s)
        | Some c' \<Rightarrow> c = c' \<and> krefs s' = (krefs s)(KCtx c := Suc (krefs s (KCtx c))) \<and> global_ctx_xa s' = global_ctx_xa s)"
    by (auto simp: yields_iff)
  have "ctx_table_ok (snd (c, s'))"
    by (rule ctx_table_ok_post [OF ok _ run]) (auto intro!: wp pid)
  moreover have "spec_step (GetCtx t) (procs s) (c \<noteq> None) (procs s')"
  proof (cases c)
    case None
    with change have "procs s' = procs s" by (simp add: procs_def fun_eq_iff)
    with None get_fails show ?thesis by simp
  next
    case (Some d)
    show ?thesis
    proof (cases "global_ctx_xa s t")
      case None
      with change Some have "procs s' = (procs s)(t \<mapsto> 1)" by (intro procs_new [OF ok]) simp_all
      moreover have "procs s t = None" using None by (simp add: procs_def)
      ultimately show ?thesis using get_new [of "procs s" t] Some by simp
    next
      case old: (Some e)
      with change Some have "procs s' = (procs s)(t \<mapsto> Suc (krefs s (KCtx e)))" by (intro procs_more [OF ok old]) simp_all
      moreover have "procs s t = Some (krefs s (KCtx e))" using old by (simp add: procs_def)
      ultimately show ?thesis using get_old [of "procs s" t] Some by simp
    qed
  qed
  ultimately show ?thesis by (simp add: run)
qed

lemma core_open_refines:
  assumes ok: "ctx_table_ok s"
  shows "yields (bafs_core_open K t s) (\<lambda>(ret, pd, s'). ctx_table_ok s' \<and> spec_step (OpenCtx t) (procs s) (ret = 0) (procs s'))"
proof -
  note D = ctx_table_okD [OF ok]
  have "yields (bafs_core_open K t s) (\<lambda>(ret, pd, s'). (\<forall>u c'. global_ctx_xa s' u = Some c' \<longrightarrow> 0 < res s' (PidRef u)) \<and>
     (if ret = 0 then global_ctx_xa s t = None \<and> krefs s' = (krefs s)(KCtx (next_addr s) := 1) \<and> global_ctx_xa s' = (global_ctx_xa s)(t \<mapsto> next_addr s)
      else krefs s' = krefs s \<and> global_ctx_xa s' = global_ctx_xa s))"
    using D(1,5) by (auto simp: ctx_defs prim_defs Let_def freshD fun_upd_idem)
  then obtain ret pd s' where run: "bafs_core_open K t s = Some (ret, pd, s')" and pid: "\<And>u c'. global_ctx_xa s' u = Some c' \<Longrightarrow> 0 < res s' (PidRef u)"
    and change: "if ret = 0 then global_ctx_xa s t = None \<and> krefs s' = (krefs s)(KCtx (next_addr s) := 1) \<and> global_ctx_xa s' = (global_ctx_xa s)(t \<mapsto> next_addr s)
      else krefs s' = krefs s \<and> global_ctx_xa s' = global_ctx_xa s"
    by (auto simp: yields_iff)
  have "ctx_table_ok (snd (snd (ret, pd, s')))"
    by (rule ctx_table_ok_post [OF ok _ run]) (auto intro!: wp pid)
  moreover have "spec_step (OpenCtx t) (procs s) (ret = 0) (procs s')"
  proof (cases "ret = 0")
    case True
    with change have "procs s' = (procs s)(t \<mapsto> 1)" by (intro procs_new [OF ok]) simp_all
    with open_new [of "procs s" t] True change show ?thesis by (simp add: procs_def)
  next
    case False
    with change have "procs s' = procs s" by (simp add: procs_def fun_eq_iff)
    with open_fails False show ?thesis by simp
  qed
  ultimately show ?thesis by (simp add: run)
qed

lemma put_ctx_refines:
  assumes ok: "ctx_table_ok s" and c: "global_ctx_xa s t = Some c"
  shows "yields (bafs_put_ctx c s) (\<lambda>s'. ctx_table_ok s' \<and> spec_step (PutCtx t) (procs s) True (procs s'))"
proof -
  note D = ctx_table_okD [OF ok]
  from D(4) [OF c] obtain x where x: "ctxs s c = Some x" "ctx_tgid x = t" by blast
  have T: "procs s t = Some (krefs s (KCtx c))" using c by (simp add: procs_def)
  show ?thesis
  proof (cases "krefs s (KCtx c) = 1")
    case True
    note put = bafs_put_ctx_last [OF True x(1)]
    obtain s' where run: "bafs_put_ctx c s = Some s'" and s': "krefs s' = (krefs s)(KCtx c := 0)" "global_ctx_xa s' = (global_ctx_xa s)(t := None)"
      "res s' = (res s)(PidRef t := res s (PidRef t) - 1)"
      using put D(2) D(5) [OF c] x(2) by simp
    have "ctx_table_ok (id s')"
      by (rule ctx_table_ok_post [OF ok _ run]) (auto intro!: wp simp: s' split: if_splits dest: D(5))
    moreover have "procs s' = (procs s)(t := None)" by (rule procs_gone [OF ok c s'(1,2)])
    ultimately show ?thesis using put_last [of "procs s" t] T True by (simp add: run)
  next
    case False
    with D(3) [OF c] obtain n where n: "krefs s (KCtx c) = Suc (Suc n)" by (metis One_nat_def Suc_pred not0_implies_Suc less_not_refl)
    then have run: "bafs_put_ctx c s = Some (s\<lparr>krefs := (krefs s)(KCtx c := Suc n)\<rparr>)" by simp
    have "ctx_table_ok (id (s\<lparr>krefs := (krefs s)(KCtx c := Suc n)\<rparr>))"
      by (rule ctx_table_ok_post [OF ok _ run]) (auto intro!: wp dest: D(5))
    moreover have "procs (s\<lparr>krefs := (krefs s)(KCtx c := Suc n)\<rparr>) = (procs s)(t \<mapsto> Suc n)" by (rule procs_more [OF ok c]) simp_all
    ultimately show ?thesis using put_shared [of "procs s" t n] T n by (simp add: run)
  qed
qed

text \<open>One operation: the specification can follow, and the code stops only where it has no step.\<close>

lemma ctx_step_refines:
  assumes ok: "ctx_table_ok s"
  shows "case ctx_step K op s of Some (b, s') \<Rightarrow> ctx_table_ok s' \<and> spec_step op (procs s) b (procs s')
    | None \<Rightarrow> \<forall>b T. \<not> spec_step op (procs s) b T"
proof (cases op)
  case (GetCtx t)
  with get_ctx_refines [OF ok, of K t] show ?thesis by (auto simp: yields_iff)
next
  case (OpenCtx t)
  with core_open_refines [OF ok, of K t] show ?thesis by (auto simp: yields_iff)
next
  case (PutCtx t)
  show ?thesis
  proof (cases "global_ctx_xa s t")
    case None
    then have "procs s t = None" by (simp add: procs_def)
    with None PutCtx show ?thesis by (auto elim: spec_putE)
  next
    case (Some c)
    with put_ctx_refines [OF ok Some] PutCtx show ?thesis by (auto simp: yields_iff)
  qed
qed

text \<open>
  C5. The context functions refine the table of counts: from every state whose table is in order,
  any sequence of opens, gets and puts of any thread groups has the results and the final
  counts of a run of the specification, with whatever failures the kernel chooses, and
  stops only where the specification has no step, at a put of a context that nobody holds.
\<close>

theorem ctx_refinement:
  assumes "ctx_table_ok s"
  shows "case ctx_run K ops s of
    Some (oks, s') \<Rightarrow> ctx_table_ok s' \<and> spec_run ops (procs s) oks (procs s')
  | None \<Rightarrow> \<exists>n oks T. n < length ops \<and> spec_run (take n ops) (procs s) oks T \<and> (\<forall>b T'. \<not> spec_step (ops ! n) T b T')"
  using assms
proof (induction ops arbitrary: s)
  case Nil
  then show ?case by (simp add: spec_run.nil)
next
  case (Cons op ops)
  note step = ctx_step_refines [OF Cons.prems, where K = K and op = op]
  show ?case
  proof (cases "ctx_step K op s")
    case None
    with step have "\<forall>b T'. \<not> spec_step op (procs s) b T'" by simp
    with spec_run.nil [of "procs s"] have "spec_run (take 0 (op # ops)) (procs s) [] (procs s) \<and>
      (\<forall>b T'. \<not> spec_step ((op # ops) ! 0) (procs s) b T')" by simp
    with None show ?thesis by fastforce
  next
    case (Some y)
    obtain b s1 where y: "y = (b, s1)" by (cases y)
    with Some step have ok1: "ctx_table_ok s1" and st: "spec_step op (procs s) b (procs s1)" by auto
    show ?thesis
    proof (cases "ctx_run K ops s1")
      case None
      with Cons.IH [OF ok1] obtain n oks T where n: "n < length ops" "spec_run (take n ops) (procs s1) oks T"
        "\<forall>b T'. \<not> spec_step (ops ! n) T b T'" by auto
      with spec_run.cons [OF st n(2)] have "Suc n < length (op # ops) \<and> spec_run (take (Suc n) (op # ops)) (procs s) (b # oks) T \<and>
        (\<forall>b T'. \<not> spec_step ((op # ops) ! Suc n) T b T')" by simp
      with None Some y show ?thesis by fastforce
    next
      case rest: (Some z)
      obtain oks s2 where z: "z = (oks, s2)" by (cases z)
      from Cons.IH [OF ok1] rest z have "ctx_table_ok s2" "spec_run ops (procs s1) oks (procs s2)" by auto
      with spec_run.cons [OF st] Some y rest z show ?thesis by simp
    qed
  qed
qed

theorem ctx_refinement_witness:
  "\<exists>s'. ctx_run demo_kernel [OpenCtx 77, GetCtx 77, PutCtx 77, OpenCtx 77, PutCtx 77] (empty_world demo_user) =
       Some ([True, True, True, False, True], s') \<and>
     spec_run [OpenCtx 77, GetCtx 77, PutCtx 77, OpenCtx 77, PutCtx 77] Map.empty [True, True, True, False, True] (procs s')"
proof -
  let ?ops = "[OpenCtx 77, GetCtx 77, PutCtx 77, OpenCtx 77, PutCtx 77]"
  have "winv (0, 0) {} {} {} {} (empty_world demo_user)"
    by (simp add: winv_def alloc_inv_def ctx_inv_def dev_inv_def empty_world_def)
  then have ok: "ctx_table_ok (empty_world demo_user)" unfolding ctx_table_ok_def by (auto simp: empty_world_def)
  have "procs (empty_world demo_user) = Map.empty" by (simp add: procs_def fun_eq_iff empty_world_def)
  moreover obtain s' where "ctx_run demo_kernel ?ops (empty_world demo_user) = Some ([True, True, True, False, True], s')"
    by (simp add: ctx_defs prim_defs Let_def demo_kernel_def empty_world_def bafs_put_ctx_def bafs_core_ctx_release_kref_def)
  ultimately show ?thesis using ctx_refinement [OF ok, where K = demo_kernel and ops = ?ops] by auto
qed

end
