(* ===== verification/Bafs_Own.thy ===== *)
theory Bafs_Own
  imports Bafs_System
begin

text \<open>
  Who holds the references of a controller. \<open>own\<close> counts the holders that the state shows:
  the open files of its device, its places in groups, the DMA mappings made for it and the PCI
  devices bound to it. The judgement \<open>bal\<close> says that the reference count covers them all,
  with a surplus \<open>e\<close> for what a running operation has taken or already given back; the rules
  in \<open>bl\<close> compute the surplus along an operation. Where the source leaks a reference the count
  only grows, so the invariant bounds it from below: a controller with a holder is never freed.
\<close>

section \<open>The holders of a controller\<close>

fun pd_refs :: "private_data \<Rightarrow> addr \<Rightarrow> nat" where
  "pd_refs (PCtrl c' cx) c = (if c' = c then 1 else 0)"
| "pd_refs _ c = 0"

definition gview :: "world \<Rightarrow> addr \<rightharpoonup> addr list" where
  "gview s g = map_option group_ctrls (groups s g)"

definition dview :: "world \<Rightarrow> addr \<rightharpoonup> addr" where
  "dview s d = map_option dma_ctrl (dmas s d)"

definition own :: "(nat \<rightharpoonup> private_data) \<Rightarrow> (addr \<rightharpoonup> addr list) \<Rightarrow> (addr \<rightharpoonup> addr) \<Rightarrow> (nat \<rightharpoonup> addr) \<Rightarrow> addr \<Rightarrow> nat" where
  "own F G D P c = summ (\<lambda>pd. pd_refs pd c) F + summ (\<lambda>cs. count_list cs c) G +
     summ (\<lambda>c'. if c' = c then 1 else 0) D + summ (\<lambda>c'. if c' = c then 1 else 0) P"

definition bal :: "(nat \<rightharpoonup> private_data) \<Rightarrow> (addr \<rightharpoonup> addr list) \<Rightarrow> (addr \<rightharpoonup> addr) \<Rightarrow> (nat \<rightharpoonup> addr) \<Rightarrow> (addr \<Rightarrow> int) \<Rightarrow> world \<Rightarrow> bool" where
  "bal F G D P e s \<longleftrightarrow> files s = F \<and> gview s = G \<and> dview s = D \<and> pci_drvdata s = P \<and>
     finite (dom F) \<and> finite (dom G) \<and> finite (dom D) \<and> finite (dom P) \<and>
     (\<forall>c. int (own F G D P c) + e c \<le> int (krefs s (KCtrl c)))"

section \<open>Primitives\<close>

named_theorems bl \<open>rules of the judgement post for bal\<close>

lemma bal_same:
  assumes "files s' = files s" and "gview s' = gview s" and "dview s' = dview s" and "pci_drvdata s' = pci_drvdata s"
    and "\<And>c. krefs s' (KCtrl c) = krefs s (KCtrl c)"
  shows "bal F G D P e s' = bal F G D P e s"
  using assms by (simp add: bal_def)

lemma view_frame [simp]:
  "gview (s\<lparr>now := n\<rparr>) = gview s" "gview (s\<lparr>user := u\<rparr>) = gview s" "gview (s\<lparr>vmas := v\<rparr>) = gview s" "gview (s\<lparr>remaps := r\<rparr>) = gview s"
  "gview (s\<lparr>files := f\<rparr>) = gview s" "gview (s\<lparr>pci_drvdata := d\<rparr>) = gview s" "gview (s\<lparr>mems := m\<rparr>) = gview s" "gview (s\<lparr>dmas := ds\<rparr>) = gview s"
  "gview (s\<lparr>ctxs := cs\<rparr>) = gview s" "gview (s\<lparr>res := rs\<rparr>) = gview s" "gview (s\<lparr>held := L\<rparr>) = gview s" "gview (s\<lparr>global_ctx_xa := xa\<rparr>) = gview s"
  "gview (s\<lparr>core_minor := i\<rparr>) = gview s" "gview (s\<lparr>next_addr := a\<rparr>) = gview s" "gview (s\<lparr>krefs := k\<rparr>) = gview s" "gview (s\<lparr>children := ch\<rparr>) = gview s"
  "gview (s\<lparr>minor_ida := ida\<rparr>) = gview s" "gview (s\<lparr>ctrl_ida := ida\<rparr>) = gview s" "gview (s\<lparr>group_ida := ida\<rparr>) = gview s" "gview (s\<lparr>ctrls := ct\<rparr>) = gview s"
  "dview (s\<lparr>now := n\<rparr>) = dview s" "dview (s\<lparr>user := u\<rparr>) = dview s" "dview (s\<lparr>vmas := v\<rparr>) = dview s" "dview (s\<lparr>remaps := r\<rparr>) = dview s"
  "dview (s\<lparr>files := f\<rparr>) = dview s" "dview (s\<lparr>pci_drvdata := d\<rparr>) = dview s" "dview (s\<lparr>mems := m\<rparr>) = dview s" "dview (s\<lparr>groups := gs\<rparr>) = dview s"
  "dview (s\<lparr>ctxs := cs\<rparr>) = dview s" "dview (s\<lparr>res := rs\<rparr>) = dview s" "dview (s\<lparr>held := L\<rparr>) = dview s" "dview (s\<lparr>global_ctx_xa := xa\<rparr>) = dview s"
  "dview (s\<lparr>core_minor := i\<rparr>) = dview s" "dview (s\<lparr>next_addr := a\<rparr>) = dview s" "dview (s\<lparr>krefs := k\<rparr>) = dview s" "dview (s\<lparr>children := ch\<rparr>) = dview s"
  "dview (s\<lparr>minor_ida := ida\<rparr>) = dview s" "dview (s\<lparr>ctrl_ida := ida\<rparr>) = dview s" "dview (s\<lparr>group_ida := ida\<rparr>) = dview s" "dview (s\<lparr>ctrls := ct\<rparr>) = dview s"
  "dmas s j = Some y \<Longrightarrow> dma_ctrl z = dma_ctrl y \<Longrightarrow> dview (s\<lparr>dmas := (dmas s)(j \<mapsto> z)\<rparr>) = dview s"
  by (auto simp: gview_def dview_def fun_eq_iff)

lemma bal_frame [simp]:
  "bal F G D P e (s\<lparr>now := n\<rparr>) = bal F G D P e s" "bal F G D P e (s\<lparr>user := u\<rparr>) = bal F G D P e s"
  "bal F G D P e (s\<lparr>vmas := v\<rparr>) = bal F G D P e s" "bal F G D P e (s\<lparr>remaps := r\<rparr>) = bal F G D P e s"
  "bal F G D P e (s\<lparr>mems := m\<rparr>) = bal F G D P e s" "bal F G D P e (s\<lparr>ctxs := cs\<rparr>) = bal F G D P e s"
  "bal F G D P e (s\<lparr>res := rs\<rparr>) = bal F G D P e s" "bal F G D P e (s\<lparr>held := L\<rparr>) = bal F G D P e s"
  "bal F G D P e (s\<lparr>global_ctx_xa := xa\<rparr>) = bal F G D P e s" "bal F G D P e (s\<lparr>core_minor := i\<rparr>) = bal F G D P e s"
  "bal F G D P e (s\<lparr>next_addr := a\<rparr>) = bal F G D P e s" "bal F G D P e (s\<lparr>children := ch\<rparr>) = bal F G D P e s"
  "bal F G D P e (s\<lparr>minor_ida := ida\<rparr>) = bal F G D P e s" "bal F G D P e (s\<lparr>ctrl_ida := ida\<rparr>) = bal F G D P e s"
  "bal F G D P e (s\<lparr>group_ida := ida\<rparr>) = bal F G D P e s" "bal F G D P e (s\<lparr>ctrls := ct\<rparr>) = bal F G D P e s"
  "(\<And>c. k (KCtrl c) = krefs s (KCtrl c)) \<Longrightarrow> bal F G D P e (s\<lparr>krefs := k\<rparr>) = bal F G D P e s"
  by (rule bal_same; simp)+

lemma bal_acquire [simp]:
  "bal F G D P e (acquire r s) = bal F G D P e s" "bal F G D P e (set_flag r s) = bal F G D P e s"
  "bal F G D P e (clear_flag r s) = bal F G D P e s" "bal F G D P e (kref_init (KMem m) s) = bal F G D P e s"
  "bal F G D P e (kref_init (KCtx m) s) = bal F G D P e s" "bal F G D P e (kref_init (KGroup m) s) = bal F G D P e s"
  by (simp_all add: acquire_def set_flag_def clear_flag_def kref_init_def)

lemma prims_bl [bl]:
  assumes "bal F G D P e s" and "\<And>s'. bal F G D P e s' \<Longrightarrow> Q s'"
  shows "post (release r s) Q" "post (spin_lock l s) Q" "post (spin_unlock l s) Q"
    "post (kref_get (KMem x) s) Q" "post (kref_get (KCtx x) s) Q" "post (kref_get (KGroup x) s) Q"
    "post (kfree_mem x s) Q" "post (kfree_ctx x s) Q" "post (upd_mem x f1 s) Q" "post (upd_ctx x f2 s) Q" "post (upd_vma v f3 s) Q"
  using assms by (auto simp: post_def prim_defs bind_eq_Some_conv split: if_splits)

lemma reads_bl [bl]:
  "(\<And>x. mems s m = Some x \<Longrightarrow> Q1 x) \<Longrightarrow> post (mems s m) Q1"
  "(\<And>x. ctxs s c = Some x \<Longrightarrow> Q2 x) \<Longrightarrow> post (ctxs s c) Q2"
  "(\<And>x. ctrls s c = Some x \<Longrightarrow> Q3 x) \<Longrightarrow> post (ctrls s c) Q3"
  "(\<And>x. vmas s v = Some x \<Longrightarrow> Q4 x) \<Longrightarrow> post (vmas s v) Q4"
  "(\<And>x. nth_opt xs i = Some x \<Longrightarrow> Q5 x) \<Longrightarrow> post (nth_opt xs i) Q5"
  "(\<And>x. list_unlink m ms = Some x \<Longrightarrow> Q6 x) \<Longrightarrow> post (list_unlink m ms) Q6"
  "(\<And>x. cpu_page_table mm = Some x \<Longrightarrow> Q7 x) \<Longrightarrow> post (cpu_page_table mm) Q7"
  "(\<And>x. cuda_page_table mm = Some x \<Longrightarrow> Q8 x) \<Longrightarrow> post (cuda_page_table mm) Q8"
  "(\<And>x. cuda_mapping d = Some x \<Longrightarrow> Q9 x) \<Longrightarrow> post (cuda_mapping d) Q9"
  "(\<And>x. dma_addrs d = Some x \<Longrightarrow> Q10 x) \<Longrightarrow> post (dma_addrs d) Q10"
  by (simp_all add: post_def)

lemma read_dma_bl [bl]:
  "bal F G D P e s \<Longrightarrow> (\<And>y. dmas s d = Some y \<Longrightarrow> D d = Some (dma_ctrl y) \<Longrightarrow> Q y) \<Longrightarrow> post (dmas s d) Q"
  by (auto simp: post_def bal_def dview_def)

lemma read_group_bl [bl]:
  "bal F G D P e s \<Longrightarrow> (\<And>y. groups s g = Some y \<Longrightarrow> G g = Some (group_ctrls y) \<Longrightarrow> Q y) \<Longrightarrow> post (groups s g) Q"
  by (auto simp: post_def bal_def gview_def)

lemma upd_dma_bl [bl]:
  assumes "bal F G D P e s" and "\<And>x. dma_ctrl (f x) = dma_ctrl x" and "\<And>s'. bal F G D P e s' \<Longrightarrow> Q s'"
  shows "post (upd_dma d f s) Q"
  using assms(1) by (auto simp: post_def upd_dma_def bind_eq_Some_conv assms(2) bal_def intro!: assms(3))

text \<open>The general step: what is lost by the count is lost by the holders and the surplus.\<close>

lemma bal_step:
  assumes "bal F G D P e s" and "files s' = F'" and "gview s' = G'" and "dview s' = D'" and "pci_drvdata s' = P'"
    and "finite (dom F')" and "finite (dom G')" and "finite (dom D')" and "finite (dom P')"
    and "\<And>c. int (own F' G' D' P' c) + e' c + int (krefs s (KCtrl c)) \<le> int (own F G D P c) + e c + int (krefs s' (KCtrl c))"
  shows "bal F' G' D' P' e' s'"
proof -
  have "int (own F' G' D' P' c) + e' c \<le> int (krefs s' (KCtrl c))" for c
  proof -
    have "int (own F G D P c) + e c \<le> int (krefs s (KCtrl c))" using assms(1) by (simp add: bal_def)
    with assms(10) [of c] show ?thesis by linarith
  qed
  with assms(2-9) show ?thesis by (simp add: bal_def)
qed

lemma balD:
  assumes "bal F G D P e s"
  shows "files s = F" "gview s = G" "dview s = D" "pci_drvdata s = P" "finite (dom F)" "finite (dom G)" "finite (dom D)" "finite (dom P)"
    "int (own F G D P c) + e c \<le> int (krefs s (KCtrl c))"
  using assms by (simp_all add: bal_def)

lemma bal_mono: "bal F G D P e' s \<Longrightarrow> (\<And>c. e c \<le> e' c) \<Longrightarrow> bal F G D P e s"
  unfolding bal_def by (auto intro: order_trans [rotated])

text \<open>A reference that is kept for ever.\<close>

lemma bal_leak: "bal F G D P (e(c := e c + 1)) s \<Longrightarrow> bal F G D P e s"
  by (erule bal_mono) simp

section \<open>References of controllers\<close>

lemma bafs_get_ctrl_bl [bl]:
  assumes "bal F G D P e s" and "\<And>s'. bal F G D P (e(c := e c + 1)) s' \<Longrightarrow> Q s'"
  shows "post (bafs_get_ctrl c s) Q"
proof -
  have "bal F G D P (e(c := e c + 1)) (s\<lparr>krefs := (krefs s)(KCtrl c := Suc (krefs s (KCtrl c)))\<rparr>)"
    by (rule bal_step [OF assms(1)]) (simp_all add: balD [OF assms(1)])
  then show ?thesis using assms(2) by (auto simp: post_def bafs_get_ctrl_def kref_get_def bind_eq_Some_conv split: if_splits)
qed

lemma ctrl_release_views:
  assumes "bafs_ctrl_release c s = Some s'"
  shows "files s' = files s" "gview s' = gview s" "dview s' = dview s" "pci_drvdata s' = pci_drvdata s"
    "krefs s (KCtrl c) = Suc (krefs s' (KCtrl c))" "c' \<noteq> c \<Longrightarrow> krefs s' (KCtrl c') = krefs s (KCtrl c')"
  using assms
  by (auto simp: bafs_ctrl_release_def bafs_ctrl_release_kref_def device_destroy_def prim_defs Let_def ctrl_ida_remove_def
      bafs_put_minor_number_def bind_eq_Some_conv split: if_splits nat.splits)

lemma bafs_ctrl_release_bl [bl]:
  assumes "bal F G D P e s" and "\<And>s'. bal F G D P (e(c := e c - 1)) s' \<Longrightarrow> Q s'"
  shows "post (bafs_ctrl_release c s) Q"
proof -
  have "bal F G D P (e(c := e c - 1)) s'" if "bafs_ctrl_release c s = Some s'" for s'
  proof (rule bal_step [OF assms(1)])
    fix c'
    show "int (own F G D P c') + (e(c := e c - 1)) c' + int (krefs s (KCtrl c')) \<le> int (own F G D P c') + e c' + int (krefs s' (KCtrl c'))"
      using ctrl_release_views(5) [OF that] ctrl_release_views(6) [OF that, of c'] by (cases "c' = c") simp_all
  qed (simp_all add: ctrl_release_views(1-4) [OF that] balD [OF assms(1)])
  then show ?thesis using assms(2) by (auto simp: post_def)
qed

text \<open>A DMA mapping is made, and freed.\<close>

lemma bal_new_dma [bl]:
  assumes b: "bal F G D P e s" and y: "f = dmas s" "dma_ctrl y = c"
  shows "bal F G (D(d \<mapsto> c)) P (e(c := e c - 1)) (s\<lparr>next_addr := a, dmas := f(d \<mapsto> y)\<rparr>)"
proof (rule bal_step [OF b])
  fix c'
  have "own F G (D(d \<mapsto> c)) P c' \<le> own F G D P c' + (if c = c' then 1 else 0)"
    using summ_upd_le [OF balD(7) [OF b], of "\<lambda>x. if x = c' then 1 else 0" d c] by (simp add: own_def)
  then show "int (own F G (D(d \<mapsto> c)) P c') + (e(c := e c - 1)) c' + int (krefs s (KCtrl c'))
      \<le> int (own F G D P c') + e c' + int (krefs (s\<lparr>next_addr := a, dmas := f(d \<mapsto> y)\<rparr>) (KCtrl c'))"
    by (cases "c' = c") simp_all
  show "dview (s\<lparr>next_addr := a, dmas := f(d \<mapsto> y)\<rparr>) = D(d \<mapsto> c)"
    using balD(3) [OF b] y by (auto simp: dview_def fun_eq_iff)
qed (simp_all add: balD [OF b])

lemma kfree_dma_bl [bl]:
  assumes b: "bal F G D P e s" and d: "D d = Some c" and Q: "\<And>s'. bal F G (D(d := None)) P (e(c := e c + 1)) s' \<Longrightarrow> Q s'"
  shows "post (kfree_dma d s) Q"
proof -
  have "bal F G (D(d := None)) P (e(c := e c + 1)) (s\<lparr>dmas := (dmas s)(d := None)\<rparr>)"
  proof (rule bal_step [OF b])
    fix c'
    have "own F G D P c' = own F G (D(d := None)) P c' + (if c = c' then 1 else 0)"
      using summ_del [OF balD(7) [OF b] d, of "\<lambda>x. if x = c' then 1 else 0"] by (simp add: own_def)
    then show "int (own F G (D(d := None)) P c') + (e(c := e c + 1)) c' + int (krefs s (KCtrl c'))
        \<le> int (own F G D P c') + e c' + int (krefs (s\<lparr>dmas := (dmas s)(d := None)\<rparr>) (KCtrl c'))"
      by (cases "c' = c") simp_all
    show "dview (s\<lparr>dmas := (dmas s)(d := None)\<rparr>) = D(d := None)"
      using balD(3) [OF b] by (auto simp: dview_def fun_eq_iff)
  qed (simp_all add: balD [OF b])
  then show ?thesis using Q by (simp add: post_def kfree_dma_def)
qed

text \<open>The other objects' counts do not matter.\<close>

lemma kref_put_bl:
  assumes "bal F G D P e s" and "r \<in> {KMem x, KCtx x, KGroup x}"
    and "\<And>s'. bal F G D P e s' \<Longrightarrow> Q s'" and "bal F G D P e (s\<lparr>krefs := (krefs s)(r := 0)\<rparr>) \<Longrightarrow> krefs s r = 1 \<Longrightarrow> post (rel (s\<lparr>krefs := (krefs s)(r := 0)\<rparr>)) Q"
  shows "post (kref_put r rel s) Q"
proof -
  have "bal F G D P e (s\<lparr>krefs := (krefs s)(r := n)\<rparr>)" for n using assms(1,2) by auto
  then show ?thesis using assms(3,4) by (auto simp: kref_put_def Let_def split: nat.split)
qed

lemma bafs_put_ctx_bl [bl]:
  assumes "bal F G D P e s" and "\<And>s'. bal F G D P e s' \<Longrightarrow> Q s'"
  shows "post (bafs_put_ctx c s) Q"
  unfolding bafs_put_ctx_def bafs_core_ctx_release_kref_def
  by (rule kref_put_bl [OF assms(1)]) (auto simp: Let_def intro!: bl assms(2))

lemma bafs_get_ctx_bl [bl]:
  assumes "bal F G D P e s" and "\<And>c s'. bal F G D P e s' \<Longrightarrow> Q (c, s')"
  shows "post (bafs_get_ctx K t s) Q"
  using assms(1) by (auto simp: bafs_get_ctx_def find_get_pid_def kzalloc_ctx_def xa_cmpxchg_null_def Let_def ask_def
      split: option.split intro!: bl assms(2))

text \<open>What the private data of a file holds, taken and not yet in the table, or given back.\<close>

definition taken :: "(addr \<Rightarrow> int) \<Rightarrow> private_data \<Rightarrow> addr \<Rightarrow> int" where
  "taken e pd c = e c + int (pd_refs pd c)"

definition given :: "(addr \<Rightarrow> int) \<Rightarrow> private_data \<Rightarrow> addr \<Rightarrow> int" where
  "given e pd c = e c - int (pd_refs pd c)"

lemma taken_simps [simp]:
  "taken e PNull = e" "taken e (PCore cx) = e" "taken e (PGroup g cx) = e" "taken e (PCtrl c cx) = e(c := e c + 1)"
  "given e PNull = e" "given e (PCore cx) = e" "given e (PGroup g cx) = e" "given e (PCtrl c cx) = e(c := e c - 1)"
  by (auto simp: taken_def given_def fun_eq_iff)

lemma bafs_core_open_bl [bl]:
  assumes "bal F G D P e s" and "\<And>ret pd s'. bal F G D P (taken e pd) s' \<Longrightarrow> Q (ret, pd, s')"
  shows "post (bafs_core_open K t s) Q"
  using assms(1) by (auto simp: bafs_core_open_def find_get_pid_def kzalloc_ctx_def xa_insert_def Let_def ask_def
      split: option.split intro!: bl assms(2))

section \<open>Memories\<close>

lemma cpu_alloc_loop_bl [bl]:
  assumes "bal F G D P e s" and "\<And>i s'. bal F G D P e s' \<Longrightarrow> Q (i, s')"
  shows "post (cpu_alloc_loop K m i k s) Q"
  using assms
proof (induction k arbitrary: i s)
  case (Suc k)
  show ?case
    using Suc.prems(1)
    by (auto simp: Let_def ask_def intro!: bl Suc.prems(2) Suc.IH)
qed simp

lemma cpu_free_down_bl [bl]:
  assumes "bal F G D P e s" and "\<And>s'. bal F G D P e s' \<Longrightarrow> Q s'"
  shows "post (cpu_free_down m i s) Q"
  using assms
proof (induction i arbitrary: s)
  case (Suc i)
  show ?case
    using Suc.prems(1) by (auto simp: Let_def ask_def intro!: bl Suc.prems(2) Suc.IH)
qed simp

lemma cpu_out_bl [bl]:
  assumes "bal F G D P e s" and "\<And>s'. bal F G D P e s' \<Longrightarrow> Q s'"
  shows "post (cpu_out_clean_page_table m i s) Q"
  unfolding cpu_out_clean_page_table_def using assms(1) by (auto intro!: bl assms(2))

lemma pin_bafs_cpu_mem_bl [bl]:
  assumes "bal F G D P e s" and "\<And>ret s'. bal F G D P e s' \<Longrightarrow> Q (ret, s')"
  shows "post (pin_bafs_cpu_mem K m s) Q"
  unfolding pin_bafs_cpu_mem_def using assms(1) by (auto simp: Let_def ask_def split: option.split intro!: bl assms(2))

lemma cuda_dma_free_loop_bl [bl]:
  assumes "bal F G D P e s" and "\<And>s'. bal F G D P e s' \<Longrightarrow> Q s'"
  shows "post (cuda_dma_free_loop ds s) Q"
  using assms
proof (induction ds arbitrary: s)
  case (Cons d ds)
  show ?case using Cons.prems(1) by (auto intro!: bl Cons.prems(2) Cons.IH)
qed simp

lemma release_bafs_cuda_mem_bl [bl]:
  assumes "bal F G D P e s" and "\<And>s'. bal F G D P e s' \<Longrightarrow> Q s'"
  shows "post (release_bafs_cuda_mem data s) Q"
  unfolding release_bafs_cuda_mem_def using assms(1) by (auto split: option.split intro!: bl assms(2))

lemma cuda_remap_loop_bl [bl]:
  assumes "bal F G D P e s" and "\<And>ret s'. bal F G D P e s' \<Longrightarrow> Q (ret, s')"
  shows "post (cuda_remap_loop K m i k s) Q"
  using assms
proof (induction k arbitrary: i s)
  case (Suc k)
  show ?case using Suc.prems(1) by (auto simp: io_remap_pfn_range_def ask_def Let_def intro!: bl Suc.prems(2) Suc.IH)
qed simp

lemma p2p_put_pages_bl [bl]:
  assumes "bal F G D P e s" and "\<And>s'. bal F G D P e s' \<Longrightarrow> Q s'"
  shows "post (p2p_put_pages K m s) Q"
  unfolding p2p_put_pages_def using assms(1) by (auto intro!: bl assms(2))

lemma p2p_dma_unmap_pages_bl [bl]:
  assumes "bal F G D P e s" and "\<And>s'. bal F G D P e s' \<Longrightarrow> Q s'"
  shows "post (p2p_dma_unmap_pages K d s) Q"
  unfolding p2p_dma_unmap_pages_def using assms(1) by (auto intro!: bl assms(2))

lemma cuda_out_bl [bl]:
  assumes "bal F G D P e s" and "\<And>ret s'. bal F G D P e s' \<Longrightarrow> Q (ret, s')"
  shows "post (cuda_out_delete_page_table K m ret s) Q"
  unfolding cuda_out_delete_page_table_def using assms(1) by (auto intro!: bl assms(2))

lemma pin_bafs_cuda_mem_bl [bl]:
  assumes "bal F G D P e s" and "\<And>ret s'. bal F G D P e s' \<Longrightarrow> Q (ret, s')"
  shows "post (pin_bafs_cuda_mem K m v s) Q"
  unfolding pin_bafs_cuda_mem_def using assms(1) by (auto simp: Let_def ask_def split: option.split intro!: bl assms(2))

lemma cpu_free_up_bl [bl]:
  assumes "bal F G D P e s" and "\<And>s'. bal F G D P e s' \<Longrightarrow> Q s'"
  shows "post (cpu_free_up m i k s) Q"
  using assms
proof (induction k arbitrary: i s)
  case (Suc k)
  show ?case using Suc.prems(1) by (auto intro!: bl Suc.prems(2) Suc.IH)
qed simp

lemma mem_release_pages_bl [bl]:
  assumes "bal F G D P e s" and "\<And>s'. bal F G D P e s' \<Longrightarrow> Q s'"
  shows "post (mem_release_pages K m s) Q"
  unfolding mem_release_pages_def using assms(1) by (auto intro!: bl assms(2))

lemma ctx_forget_mem_bl [bl]:
  assumes "bal F G D P e s" and "\<And>s'. bal F G D P e s' \<Longrightarrow> Q s'"
  shows "post (ctx_forget_mem c m i s) Q"
  unfolding ctx_forget_mem_def using assms(1) by (auto intro!: bl assms(2))

lemma bafs_mem_release_kref_bl [bl]:
  assumes "bal F G D P e s" and "\<And>s'. bal F G D P e s' \<Longrightarrow> Q s'"
  shows "post (bafs_mem_release_kref K m s) Q"
  unfolding bafs_mem_release_kref_def using assms(1) by (auto simp: Let_def intro!: bl assms(2))

lemma bafs_mem_put_bl [bl]:
  assumes "bal F G D P e s" and "\<And>s'. bal F G D P e s' \<Longrightarrow> Q s'"
  shows "post (bafs_mem_put K m s) Q"
  unfolding bafs_mem_put_def
  by (rule kref_put_bl [OF assms(1)]) (auto intro!: bl assms(2))

lemma bafs_core_reg_mem_bl [bl]:
  assumes "bal F G D P e s" and "\<And>ret s'. bal F G D P e s' \<Longrightarrow> Q (ret, s')"
  shows "post (bafs_core_reg_mem K argp c s) Q"
  unfolding bafs_core_reg_mem_def using assms(1) by (auto simp: Let_def ask_def split: option.split intro!: bl assms(2))

lemma dma_unmap_up_bl [bl]:
  assumes "bal F G D P e s" and "\<And>s'. bal F G D P e s' \<Longrightarrow> Q s'"
  shows "post (dma_unmap_up p g sz as i k s) Q"
  using assms
proof (induction k arbitrary: i s)
  case (Suc k)
  show ?case using Suc.prems(1) by (auto simp: Let_def ask_def split: option.split intro!: bl Suc.prems(2) Suc.IH)
qed simp

lemma unmap_dma_bl [bl]:
  assumes "bal F G D P e s" and "\<And>D' s'. bal F G D' P e s' \<Longrightarrow> Q s'"
  shows "post (unmap_dma K d s) Q"
  unfolding unmap_dma_def using assms(1) by (auto simp: Let_def ask_def split: option.split intro!: bl assms(2))

lemma mem_release_loop_bl [bl]:
  assumes "bal F G D P e s" and "\<And>D' s'. bal F G D' P e s' \<Longrightarrow> Q s'"
  shows "post (mem_release_loop K m ds s) Q"
  using assms
proof (induction ds arbitrary: s D)
  case (Cons d ds)
  show ?case using Cons.prems(1) by (auto simp: Let_def ask_def split: option.split intro!: bl Cons.prems(2) Cons.IH)
qed simp

lemma bafs_mem_release_bl [bl]:
  assumes "bal F G D P e s" and "\<And>D' s'. bal F G D' P e s' \<Longrightarrow> Q s'"
  shows "post (bafs_mem_release K v s) Q"
  unfolding bafs_mem_release_def using assms(1) by (auto simp: Let_def ask_def split: option.split intro!: bl assms(2))

lemma pin_bafs_mem_bl [bl]:
  assumes "bal F G D P e s" and "\<And>ret s'. bal F G D P e s' \<Longrightarrow> Q (ret, s')"
  shows "post (pin_bafs_mem K v c s) Q"
  unfolding pin_bafs_mem_def using assms(1) by (auto simp: Let_def ask_def split: option.split intro!: bl assms(2))

lemma find_mem_loop_bl [bl]:
  assumes "bal F G D P e s" and "\<And>m s'. bal F G D P e s' \<Longrightarrow> Q (m, s')"
  shows "post (find_mem_loop K va ms s) Q"
  using assms
proof (induction ms arbitrary: s)
  case (Cons m ms)
  show ?case using Cons.prems(1) by (auto simp: Let_def ask_def split: option.split intro!: bl Cons.prems(2) Cons.IH)
qed simp

lemma bafs_get_mem_with_ctx_bl [bl]:
  assumes "bal F G D P e s" and "\<And>m s'. bal F G D P e s' \<Longrightarrow> Q (m, s')"
  shows "post (bafs_get_mem_with_ctx K va c s) Q"
  unfolding bafs_get_mem_with_ctx_def using assms(1) by (auto simp: Let_def ask_def split: option.split intro!: bl assms(2))

lemma dma_map_loop_bl [bl]:
  assumes "bal F G D P e s" and "\<And>i as s'. bal F G D P e s' \<Longrightarrow> Q (i, as, s')"
  shows "post (dma_map_loop K p g sz pt i k as s) Q"
  using assms
proof (induction k arbitrary: i as s pt)
  case (Suc k)
  show ?case using Suc.prems(1) by (auto simp: Let_def ask_def post_def [of pt] split: option.split intro!: bl Suc.prems(2) Suc.IH)
qed simp

lemma dma_unmap_down_bl [bl]:
  assumes "bal F G D P e s" and "\<And>s'. bal F G D P e s' \<Longrightarrow> Q s'"
  shows "post (dma_unmap_down p g as i s) Q"
  using assms
proof (induction i arbitrary: s)
  case (Suc i)
  show ?case using Suc.prems(1) by (auto simp: Let_def ask_def split: option.split intro!: bl Suc.prems(2) Suc.IH)
qed simp

lemma dma_out_delete_bl [bl]:
  assumes "bal F G D P e s" and "D d = Some c" and "\<And>ret dd n D' s'. bal F G D' P e s' \<Longrightarrow> Q (ret, dd, n, s')"
  shows "post (dma_out_delete K c m d ret n s) Q"
  unfolding dma_out_delete_def using assms(1,2) by (auto simp: Let_def ask_def split: option.split intro!: bl assms(3))

lemma dma_link_bl [bl]:
  assumes "bal F G D P e s" and "\<And>ret d n s'. bal F G D P e s' \<Longrightarrow> Q (ret, d, n, s')"
  shows "post (dma_link m d n s) Q"
  unfolding dma_link_def using assms(1) by (auto simp: Let_def ask_def split: option.split intro!: bl assms(2))

lemma dma_map_cpu_bl [bl]:
  assumes "bal F G D P e s" and "D d = Some c" and "\<And>ret dd n D' s'. bal F G D' P e s' \<Longrightarrow> Q (ret, dd, n, s')"
  shows "post (dma_map_cpu K c m d n dst idx s) Q"
  unfolding dma_map_cpu_def using assms(1,2) by (auto simp: Let_def ask_def copy_longs_to_user_def split: option.split intro!: bl assms(3))

lemma dma_map_cuda_bl [bl]:
  assumes "bal F G D P e s" and "D d = Some c" and "\<And>ret dd n D' s'. bal F G D' P e s' \<Longrightarrow> Q (ret, dd, n, s')"
  shows "post (dma_map_cuda K c m d n dst idx s) Q"
  unfolding dma_map_cuda_def using assms(1,2) by (auto simp: Let_def ask_def copy_longs_to_user_def split: option.split intro!: bl assms(3))

lemma get_ctrl_new_dma:
  assumes "bal F G D P e s" and "dma_ctrl y = c" and Q: "\<And>s'. bal F G (D(d \<mapsto> c)) P e s' \<Longrightarrow> (D(d \<mapsto> c)) d = Some c \<Longrightarrow> Q s'"
  shows "post (bafs_get_ctrl c (s\<lparr>now := t, next_addr := a, dmas := (dmas s)(d \<mapsto> y)\<rparr>)) Q"
proof -
  have "bal F G (D(d \<mapsto> c)) P (e(c := e c - 1)) (s\<lparr>now := t, next_addr := a, dmas := (dmas s)(d \<mapsto> y)\<rparr>)"
    by (rule bal_new_dma) (use assms(1,2) in simp_all)
  then show ?thesis by (rule bafs_get_ctrl_bl) (simp add: Q)
qed

lemma bafs_ctrl_dma_map_mem_bl [bl]:
  assumes "bal F G D P e s" and "\<And>ret d n D' s'. bal F G D' P e s' \<Longrightarrow> Q (ret, d, n, s')"
  shows "post (bafs_ctrl_dma_map_mem K c ctx va n dst idx s) Q"
  unfolding bafs_ctrl_dma_map_mem_def using assms(1)
  by (auto simp: Let_def ask_def split: option.split intro!: bl get_ctrl_new_dma assms(2) del: bafs_get_ctrl_bl)

lemma bafs_ctrl_dma_unmap_mem_bl [bl]:
  assumes "bal F G D P e s" and "\<And>D' s'. bal F G D' P e s' \<Longrightarrow> Q s'"
  shows "post (bafs_ctrl_dma_unmap_mem K d s) Q"
  unfolding bafs_ctrl_dma_unmap_mem_def using assms(1) by (auto simp: Let_def ask_def split: option.split intro!: bl assms(2))

lemma release_stale_loop_bl [bl]:
  assumes "bal F G D P e s" and "\<And>s'. bal F G D P e s' \<Longrightarrow> Q s'"
  shows "post (release_stale_loop c ms s) Q"
  using assms
proof (induction ms arbitrary: s)
  case (Cons m ms)
  show ?case using Cons.prems(1) by (auto simp: Let_def ask_def split: option.split intro!: bl Cons.prems(2) Cons.IH)
qed simp

lemma release_stale_bl [bl]:
  assumes "bal F G D P e s" and "\<And>s'. bal F G D P e s' \<Longrightarrow> Q s'"
  shows "post (release_stale c s) Q"
  unfolding release_stale_def using assms(1) by (auto simp: Let_def ask_def split: option.split intro!: bl assms(2))

section \<open>Files of a controller\<close>

lemma bafs_ctrl_dma_map_ioctl_bl [bl]:
  assumes "bal F G D P e s" and "\<And>ret D' s'. bal F G D' P e s' \<Longrightarrow> Q (ret, s')"
  shows "post (bafs_ctrl_dma_map_ioctl K c ctx argp s) Q"
  unfolding bafs_ctrl_dma_map_ioctl_def using assms(1) by (auto simp: Let_def ask_def post_def [of "_ :: addr option"] split: option.split intro!: bl assms(2))

lemma bafs_ctrl_ioctl_bl [bl]:
  assumes "bal F G D P e s" and "\<And>ret D' s'. bal F G D' P e s' \<Longrightarrow> Q (ret, s')"
  shows "post (bafs_ctrl_ioctl K pd cmd argp s) Q"
  unfolding bafs_ctrl_ioctl_def using assms(1)
  by (auto simp: Let_def ask_def split: option.split private_data.split intro!: bl assms(2) dest: bal_leak)

lemma bafs_ctrl_open_bl [bl]:
  assumes "bal F G D P e s" and "\<And>ret pd s'. bal F G D P (taken e pd) s' \<Longrightarrow> Q (ret, pd, s')"
  shows "post (bafs_ctrl_open K t c s) Q"
  unfolding bafs_ctrl_open_def using assms(1) by (auto simp: Let_def ask_def split: option.split intro!: bl assms(2))

lemma bafs_ctrl_file_release_bl [bl]:
  assumes "bal F G D P e s" and "\<And>ret pd' s'. bal F G D P (given e pd) s' \<Longrightarrow> Q (ret, pd', s')"
  shows "post (bafs_ctrl_file_release pd s) Q"
  unfolding bafs_ctrl_file_release_def using assms(1) by (auto simp: Let_def split: private_data.split intro!: bl assms(2))

lemma bafs_ctrl_mmap_bl [bl]:
  assumes "bal F G D P e s" and "\<And>ret n s'. bal F G D P e s' \<Longrightarrow> Q (ret, n, s')"
  shows "post (bafs_ctrl_mmap K c v va sz s) Q"
  unfolding bafs_ctrl_mmap_def using assms(1)
  by (auto simp: Let_def ask_def io_remap_pfn_range_def split: option.split intro!: bl assms(2) dest: bal_leak)

lemma bafs_ctrl_file_mmap_bl [bl]:
  assumes "bal F G D P e s" and "\<And>ret s'. bal F G D P e s' \<Longrightarrow> Q (ret, s')"
  shows "post (bafs_ctrl_file_mmap K pd v s) Q"
  unfolding bafs_ctrl_file_mmap_def using assms(1) by (auto simp: Let_def ask_def split: option.split private_data.split intro!: bl assms(2))

section \<open>Groups\<close>

text \<open>The references of the members of a group, given back.\<close>

definition dropped :: "(addr \<Rightarrow> int) \<Rightarrow> addr list \<Rightarrow> addr \<Rightarrow> int" where
  "dropped e cs c = e c - int (count_list cs c)"

lemma dropped_simps [simp]: "dropped e [] = e" "dropped (e(c := e c - 1)) cs = dropped e (c # cs)"
  by (auto simp: dropped_def fun_eq_iff)

lemma numbers_bl [bl]:
  assumes "bal F G D P e s" and "\<And>s'. bal F G D P e s' \<Longrightarrow> Q s'"
  shows "post (device_destroy i s) Q" "post (group_ida_remove i s) Q" "post (bafs_put_minor_number i s) Q"
  using assms(1) by (auto simp: device_destroy_def group_ida_remove_def bafs_put_minor_number_def intro!: bl assms(2))

lemma release_ctrls_bl [bl]:
  assumes "bal F G D P e s" and "\<And>s'. bal F G D P (dropped e cs) s' \<Longrightarrow> Q s'"
  shows "post (release_ctrls cs s) Q"
  using assms
proof (induction cs arbitrary: s e)
  case (Cons c cs)
  show ?case
    by (simp, rule bafs_ctrl_release_bl [OF Cons.prems(1)], rule Cons.IH, assumption, rule Cons.prems(2)) (simp only: dropped_simps)
qed simp

lemma kfree_group_bl [bl]:
  assumes b: "bal F G D P (dropped e cs) s" and g: "G g = Some cs" and Q: "\<And>s'. bal F (G(g := None)) D P e s' \<Longrightarrow> Q s'"
  shows "post (kfree_group g s) Q"
proof -
  have "bal F (G(g := None)) D P e (s\<lparr>groups := (groups s)(g := None)\<rparr>)"
  proof (rule bal_step [OF b])
    fix c
    have "own F G D P c = own F (G(g := None)) D P c + count_list cs c"
      using summ_del [OF balD(6) [OF b] g, of "\<lambda>cs. count_list cs c"] by (simp add: own_def)
    then show "int (own F (G(g := None)) D P c) + e c + int (krefs s (KCtrl c))
        \<le> int (own F G D P c) + dropped e cs c + int (krefs (s\<lparr>groups := (groups s)(g := None)\<rparr>) (KCtrl c))"
      by (simp add: dropped_def)
    show "gview (s\<lparr>groups := (groups s)(g := None)\<rparr>) = G(g := None)"
      using balD(2) [OF b] by (auto simp: gview_def fun_eq_iff)
  qed (simp_all add: balD [OF b])
  then show ?thesis using Q by (simp add: post_def kfree_group_def)
qed

lemma bafs_put_group_bl [bl]:
  assumes "bal F G D P e s" and Q: "\<And>G' s'. bal F G' D P e s' \<Longrightarrow> Q s'"
  shows "post (bafs_put_group g s) Q"
proof -
  have "post (kref_put (KGroup g) (bafs_group_release_kref g) s) Q"
    by (rule kref_put_bl [OF assms(1)]) (auto simp: bafs_group_release_kref_def intro!: bl Q)
  then show ?thesis by (cases "groups s g") (simp_all add: bafs_put_group_def)
qed

lemma bafs_get_group_bl [bl]:
  assumes "bal F G D P e s" and "\<And>s'. bal F G D P e s' \<Longrightarrow> Q s'"
  shows "post (bafs_get_group g s) Q"
  unfolding bafs_get_group_def using assms(1) by (auto intro!: bl assms(2))

lemma group_map_loop_bl [bl]:
  assumes "bal F G D P e s" and "\<And>ret es k D' s'. bal F G D' P e s' \<Longrightarrow> Q (ret, es, k, s')"
  shows "post (group_map_loop K ctx va dst cs i per n ds s) Q"
  using assms
proof (induction cs arbitrary: i per n ds  s D)
  case (Cons c cs)
  show ?case using Cons.prems(1) by (auto simp: Let_def ask_def post_def [of "_ :: addr option"] split: option.split intro!: bl Cons.prems(2) Cons.IH)
qed simp

lemma unmap_mems_bl [bl]:
  assumes "bal F G D P e s" and "\<And>D' s'. bal F G D' P e s' \<Longrightarrow> Q s'"
  shows "post (unmap_mems K ds s) Q"
  using assms
proof (induction ds arbitrary: s D)
  case (Cons d ds)
  show ?case using Cons.prems(1) by (auto simp: Let_def ask_def split: option.split intro!: bl Cons.prems(2) Cons.IH)
qed simp

lemma group_out_unmap_mems_bl [bl]:
  assumes "bal F G D P e s" and "\<And>ret D' s'. bal F G D' P e s' \<Longrightarrow> Q (ret, s')"
  shows "post (group_out_unmap_mems K g ds ret s) Q"
  unfolding group_out_unmap_mems_def using assms(1) by (auto intro!: bl assms(2))

lemma bafs_group_dma_map_mem_bl [bl]:
  assumes "bal F G D P e s" and "\<And>ret D' s'. bal F G D' P e s' \<Longrightarrow> Q (ret, s')"
  shows "post (bafs_group_dma_map_mem K g ctx argp s) Q"
  unfolding bafs_group_dma_map_mem_def using assms(1) by (auto simp: Let_def ask_def split: option.split intro!: bl assms(2))

lemma bafs_group_ioctl_bl [bl]:
  assumes "bal F G D P e s" and "\<And>ret G' D' s'. bal F G' D' P e s' \<Longrightarrow> Q (ret, s')"
  shows "post (bafs_group_ioctl K pd cmd argp s) Q"
  unfolding bafs_group_ioctl_def using assms(1)
  by (auto simp: Let_def split: private_data.split intro!: bl assms(2))

lemma bafs_group_open_bl [bl]:
  assumes "bal F G D P e s" and "\<And>ret pd G' s'. bal F G' D P (taken e pd) s' \<Longrightarrow> Q (ret, pd, s')"
  shows "post (bafs_group_open K t g s) Q"
  unfolding bafs_group_open_def using assms(1) by (auto simp: Let_def ask_def split: option.split intro!: bl assms(2))

lemma bafs_group_release_bl [bl]:
  assumes "bal F G D P e s" and "\<And>ret pd' G' s'. bal F G' D P (given e pd) s' \<Longrightarrow> Q (ret, pd', s')"
  shows "post (bafs_group_release pd s) Q"
  unfolding bafs_group_release_def using assms(1) by (auto simp: Let_def split: private_data.split intro!: bl assms(2))

lemma group_mmap_loop_bl [bl]:
  assumes "bal F G D P e s" and "\<And>ret s'. bal F G D P e s' \<Longrightarrow> Q (ret, s')"
  shows "post (group_mmap_loop K cs v start n cur s) Q"
  using assms
proof (induction cs arbitrary: n cur s)
  case (Cons c cs)
  show ?case using Cons.prems(1) by (auto simp: Let_def ask_def split: option.split intro!: bl Cons.prems(2) Cons.IH)
qed simp

lemma bafs_group_mmap_bl [bl]:
  assumes "bal F G D P e s" and "\<And>ret G' s'. bal F G' D P e s' \<Longrightarrow> Q (ret, s')"
  shows "post (bafs_group_mmap K pd v s) Q"
  unfolding bafs_group_mmap_def using assms(1) by (auto simp: Let_def split: private_data.split intro!: bl assms(2))

end
