(* ===== verification/Bafs_Held.thy ===== *)
theory Bafs_Held
  imports Bafs_Own
begin

text \<open>
  The references of controllers in the running system: creation and removal of controllers and
  groups, loading and unloading, the file layer and every event keep the count of a controller
  at or above the number of its holders, so nothing that can be reached from an
  open file, a group, a DMA mapping or a PCI device is a freed controller.
\<close>

section \<open>Construction\<close>

lemma bal_restored: "bal F G D P e s \<Longrightarrow> restored s s' \<Longrightarrow> bal F G D P e s'"
proof -
  assume "bal F G D P e s" and r: "restored s s'"
  then have "bal F G D P e (s\<lparr>now := now s', next_addr := next_addr s'\<rparr>)" by simp
  then show ?thesis by (subst r [unfolded restored_def])
qed

lemma bal_group_created:
  assumes b: "bal F G D P e s"
  shows "bal F (G(next_addr s \<mapsto> cs)) D P e (group_created gid mn cs s)"
proof (rule bal_step [OF b])
  let ?s = "group_created gid mn cs s"
  fix c
  have "own F (G(next_addr s \<mapsto> cs)) D P c \<le> own F G D P c + count_list cs c"
    using summ_upd_le [OF balD(6) [OF b], of "\<lambda>cs. count_list cs c" "next_addr s" cs] by (simp add: own_def)
  moreover have "ctrl_refs cs (KCtrl c) = count_list cs c" by (induction cs) (simp_all add: ctrl_refs_def)
  ultimately show "int (own F (G(next_addr s \<mapsto> cs)) D P c) + e c + int (krefs s (KCtrl c)) \<le> int (own F G D P c) + e c + int (krefs ?s (KCtrl c))"
    by (simp add: group_created_def Let_def)
  show "gview ?s = G(next_addr s \<mapsto> cs)" "dview ?s = D"
    using balD(2,3) [OF b] by (auto simp: group_created_def Let_def gview_def dview_def fun_eq_iff)
qed (simp_all add: balD [OF b] group_created_def Let_def)

lemma bafs_group_alloc_bl:
  assumes b: "bal F G D P e s" and pre: "fresh s" "ctrl_children s" "ida_ok K"
    and Q: "\<And>ret g G' s'. bal F G' D P e s' \<Longrightarrow> Q (ret, g, s')"
  shows "post (bafs_group_alloc K names s) Q"
proof -
  have "\<exists>G'. bal F G' D P e s'" if "bafs_group_alloc K names s = Some (ret, g, s')" for ret g s'
  proof -
    from bafs_group_alloc_cases [OF pre(1,3,2), of names] that
    consider gid mn where "s' = (group_created gid mn (members s names) s)\<lparr>now := now s'\<rparr>"
      | "restored s s'" | "restored (with_refs (odd_one names s) s) s'" by (auto split: if_splits)
    then show ?thesis
    proof cases
      case 1
      show ?thesis using bal_group_created [OF b] by (subst 1) (auto simp del: world.simps)
    next
      case 3
      have "bal F G D P e (with_refs (odd_one names s) s)" using b by (simp add: with_refs_def)
      with 3 show ?thesis using bal_restored by blast
    qed (use b bal_restored in blast)
  qed
  then show ?thesis using Q by (fastforce simp: post_def)
qed

lemma bal_unbind:
  assumes b: "bal F G D P e s"
  shows "bal F G D (P(p := None)) e (s\<lparr>pci_drvdata := (pci_drvdata s)(p := None)\<rparr>)"
proof (rule bal_step [OF b])
  fix c
  have "own F G D (P(p := None)) c \<le> own F G D P c"
    using summ_del_le [OF balD(8) [OF b], of "\<lambda>c'. if c' = c then 1 else 0" p] by (simp add: own_def)
  then show "int (own F G D (P(p := None)) c) + e c + int (krefs s (KCtrl c))
      \<le> int (own F G D P c) + e c + int (krefs (s\<lparr>pci_drvdata := (pci_drvdata s)(p := None)\<rparr>) (KCtrl c))" by simp
qed (simp_all add: balD [OF b])

lemma bal_ctrl_created:
  assumes b: "bal F G D P e s" and new: "krefs s (KCtrl (next_addr s)) = 0"
  shows "bal F G D (P(p \<mapsto> next_addr s)) e (ctrl_created p mn i s)"
proof (rule bal_step [OF b])
  let ?s = "ctrl_created p mn i s"
  fix c
  have "own F G D (P(p \<mapsto> next_addr s)) c \<le> own F G D P c + (if next_addr s = c then 1 else 0)"
    using summ_upd_le [OF balD(8) [OF b], of "\<lambda>c'. if c' = c then 1 else 0" p "next_addr s"] by (simp add: own_def)
  then show "int (own F G D (P(p \<mapsto> next_addr s)) c) + e c + int (krefs s (KCtrl c)) \<le> int (own F G D P c) + e c + int (krefs ?s (KCtrl c))"
    using new by (cases "c = next_addr s") (simp_all add: ctrl_created_def Let_def)
  show "gview ?s = G" "dview ?s = D" using balD(2,3) [OF b] by (auto simp: ctrl_created_def Let_def gview_def dview_def fun_eq_iff)
qed (simp_all add: balD [OF b] ctrl_created_def Let_def)

lemma fresh_later: "fresh s \<Longrightarrow> next_addr s \<le> a \<Longrightarrow> fresh (s\<lparr>now := n, next_addr := a\<rparr>)"
  by (simp add: fresh_def)

lemma fresh_ctrl_created: "fresh s \<Longrightarrow> fresh (ctrl_created p mn i s)"
  by (simp add: fresh_def ctrl_created_def Let_def)

lemma bafs_ctrl_alloc_bl:
  assumes b: "bal F G D P e s" and pre: "fresh s" "ida_ok K" and Q: "\<And>ret c P' s'. bal F G D P' e s' \<Longrightarrow> fresh s' \<Longrightarrow> Q (ret, c, s')"
  shows "post (bafs_ctrl_alloc K p s) Q"
proof (cases "k_alloc K (now s)")
  case False
  with b pre(1) show ?thesis by (auto simp: bafs_ctrl_alloc_def ask_def intro!: Q)
next
  case True
  let ?s = "s\<lparr>pci_drvdata := (pci_drvdata s)(p := None), res := (res s)(PciMaster p := 0)\<rparr>"
  have i: "bal F G D (P(p := None)) e ?s" using bal_unbind [OF b, of p] by simp
  have f: "fresh ?s" using pre(1) by (simp add: fresh_def)
  have "fresh s' \<and> (\<exists>P'. bal F G D P' e s')" if run: "bafs_ctrl_alloc K p s = Some (ret, c, s')" for ret c s'
  proof (cases "restored ?s s'")
    case True
    have "fresh s'" using fresh_later [OF f, of "next_addr s'" "now s'"] ctrl_alloc_next [OF run] True by (simp add: restored_def)
    then show ?thesis using bal_restored [OF i] True by blast
  next
    case no: False
    from run have "bafs_ctrl_alloc K p ?s = Some (ret, c, s')" unfolding ctrl_alloc_again [OF True] .
    with no bafs_ctrl_alloc_cases [OF f pre(2), of p]
    obtain mn id where "s' = (ctrl_created p mn id ?s)\<lparr>now := now s'\<rparr>" by (auto split: if_splits)
    moreover have "bal F G D ((P(p := None))(p \<mapsto> next_addr ?s)) e (ctrl_created p mn id ?s)"
      by (rule bal_ctrl_created [OF i]) (use pre(1) in \<open>simp add: freshD\<close>)
    then have "bal F G D ((P(p := None))(p \<mapsto> next_addr ?s)) e ((ctrl_created p mn id ?s)\<lparr>now := now s'\<rparr>)"
      by (simp only: bal_frame)
    moreover have "fresh ((ctrl_created p mn id ?s)\<lparr>now := now s'\<rparr>)" using fresh_ctrl_created [OF f] by (simp only: fresh_now)
    ultimately show ?thesis by metis
  qed
  then show ?thesis using Q by (fastforce simp: post_def)
qed

section \<open>The core device\<close>

lemma create_named_group_bl:
  assumes "bal F G D P e s" and "fresh s" "ctrl_children s" "ida_ok K" and "\<And>ret G' s'. bal F G' D P e s' \<Longrightarrow> Q (ret, s')"
  shows "post (create_named_group K dst names s) Q"
  unfolding create_named_group_def using assms(1-4)
  by (auto simp: Let_def ask_def post_def [of "_ :: addr option"] split: option.split intro!: bafs_group_alloc_bl bl assms(5))

lemma ctrl_children_frame [simp]: "ctrl_children (s\<lparr>now := n\<rparr>) = ctrl_children s" "ctrl_children (acquire r s) = ctrl_children s"
  by (simp_all add: ctrl_children_def acquire_def)

lemma fresh_buf [simp]: "fresh (acquire (Buf b) s) = fresh s"
  by (simp add: fresh_def acquire_def)

lemma bafs_core_create_group_bl:
  assumes "bal F G D P e s" and "fresh s" "ctrl_children s" "ida_ok K" and "\<And>ret G' s'. bal F G' D P e s' \<Longrightarrow> Q (ret, s')"
  shows "post (bafs_core_create_group K argp s) Q"
proof -
  have "post (case copy_ctrl_names K src 0 n [] s1 of (ret, names, s2) \<Rightarrow>
      if ret < 0 then do { s3 \<leftarrow> release (Buf CtrlNames) s2; Some (ret, s3) } else create_named_group K dst names s2) Q"
    if "bal F G D P e s1" "fresh s1" "ctrl_children s1" for src n dst s1
  proof -
    obtain t ret names where "copy_ctrl_names K src 0 n [] s1 = (ret, names, s1\<lparr>now := t\<rparr>)" using copy_ctrl_names_cases by blast
    with that assms(4) show ?thesis by (auto intro!: create_named_group_bl bl assms(5))
  qed
  with assms(1-4) show ?thesis
    unfolding bafs_core_create_group_def by (auto simp: Let_def ask_def intro!: bl assms(5))
qed

lemma bafs_core_delete_group_bl [bl]:
  assumes "bal F G D P e s" and "\<And>ret G' s'. bal F G' D P e s' \<Longrightarrow> Q (ret, s')"
  shows "post (bafs_core_delete_group K argp s) Q"
  unfolding bafs_core_delete_group_def using assms(1)
  by (auto simp: Let_def ask_def strncpy_from_user_def split: option.split intro!: bl assms(2))

lemma bafs_core_ioctl_bl:
  assumes "bal F G D P e s" and "fresh s" "ctrl_children s" "ida_ok K" and "\<And>ret G' s'. bal F G' D P e s' \<Longrightarrow> Q (ret, s')"
  shows "post (bafs_core_ioctl K pd cmd argp s) Q"
  unfolding bafs_core_ioctl_def using assms(1-4)
  by (auto split: private_data.split intro!: bafs_core_create_group_bl bl assms(5))

lemma bafs_core_mmap_bl [bl]:
  assumes "bal F G D P e s" and "\<And>ret s'. bal F G D P e s' \<Longrightarrow> Q (ret, s')"
  shows "post (bafs_core_mmap K pd v s) Q"
  unfolding bafs_core_mmap_def using assms(1) by (auto split: private_data.split intro!: bl assms(2))

lemma bafs_core_release_bl [bl]:
  assumes "bal F G D P e s" and "\<And>ret pd' s'. bal F G D P (given e pd) s' \<Longrightarrow> Q (ret, pd', s')"
  shows "post (bafs_core_release pd s) Q"
  unfolding bafs_core_release_def using assms(1) by (auto split: private_data.split intro!: bl assms(2))

section \<open>The PCI core, loading and unloading\<close>

lemma bal_unbound:
  assumes b: "bal F G D P (e(c := e c - 1)) s" and p: "P p = Some c"
  shows "bal F G D (P(p := None)) e (s\<lparr>pci_drvdata := (pci_drvdata s)(p := None)\<rparr>)"
proof (rule bal_step [OF b])
  fix c'
  have "own F G D P c' = own F G D (P(p := None)) c' + (if c = c' then 1 else 0)"
    using summ_del [OF balD(8) [OF b] p, of "\<lambda>x. if x = c' then 1 else 0"] by (simp add: own_def)
  then show "int (own F G D (P(p := None)) c') + e c' + int (krefs s (KCtrl c'))
      \<le> int (own F G D P c') + (e(c := e c - 1)) c' + int (krefs (s\<lparr>pci_drvdata := (pci_drvdata s)(p := None)\<rparr>) (KCtrl c'))"
    by (cases "c' = c") simp_all
qed (simp_all add: balD [OF b])

lemma bafs_ctrl_pci_remove_bl:
  assumes b: "bal F G D P e s" and Q: "\<And>s'. bal F G D (P(p := None)) e (s'\<lparr>pci_drvdata := (pci_drvdata s')(p := None)\<rparr>) \<Longrightarrow> Q s'"
  shows "post (bafs_ctrl_pci_remove p s) Q"
proof (cases "pci_drvdata s p")
  case (Some c)
  with balD(4) [OF b] have "P p = Some c" by simp
  then have "post (bafs_ctrl_release c s) Q" by (intro bafs_ctrl_release_bl [OF b] Q bal_unbound)
  with Some show ?thesis by (simp add: bafs_ctrl_pci_remove_def)
qed (simp add: bafs_ctrl_pci_remove_def)

lemma remove_all_bl:
  assumes "bal F G D P e s" and "\<And>P' s'. bal F G D P' e s' \<Longrightarrow> Q s'"
  shows "post (remove_all ps s) Q"
  using assms
proof (induction ps arbitrary: P s)
  case (Cons p ps)
  show ?case using Cons.prems(1) by (auto intro!: bafs_ctrl_pci_remove_bl Cons.IH Cons.prems(2))
qed simp

lemma probe_all_bl:
  assumes "bal F G D P e s" and "fresh s" and "ida_ok K" and "\<And>P' s'. bal F G D P' e s' \<Longrightarrow> Q s'"
  shows "post (probe_all K ps s) Q"
  using assms
proof (induction ps arbitrary: P s)
  case (Cons p ps)
  show ?case
    using Cons.prems(1-3) by (auto simp: bafs_ctrl_pci_probe_def intro!: bafs_ctrl_alloc_bl Cons.IH Cons.prems(4))
qed simp

lemma fresh_module [simp]:
  "fresh (acquire PciDriver s) = fresh s" "fresh (acquire ChrdevRegion s) = fresh s" "fresh (acquire (ClassObj n) s) = fresh s"
  "fresh (acquire (DevNode i) s) = fresh s" "fresh (set_flag (Cdev i) s) = fresh s" "fresh (s\<lparr>core_minor := i\<rparr>) = fresh s"
  "fresh (s\<lparr>minor_ida := ida\<rparr>) = fresh s"
  by (simp_all add: fresh_def acquire_def set_flag_def)

lemma init_core_device_bl:
  assumes "bal F G D P e s" and "fresh s" and "ida_ok K" and "\<And>ret P' s'. bal F G D P' e s' \<Longrightarrow> Q (ret, s')"
  shows "post (init_core_device K ps s) Q"
  unfolding init_core_device_def bafs_get_minor_number_def pci_register_driver_def using assms(1-3)
  by (auto simp: Let_def ask_def init_defs intro!: probe_all_bl bl assms(4))

lemma bafs_init_bl:
  assumes "bal F G D P e s" and "fresh s" and "ida_ok K" and "\<And>ret P' s'. bal F G D P' e s' \<Longrightarrow> Q (ret, s')"
  shows "post (bafs_init K ps s) Q"
  unfolding bafs_init_def class_create_def bafs_ctrl_init_def bafs_group_init_def using assms(1-3)
  by (auto simp: Let_def ask_def init_defs intro!: init_core_device_bl bl assms(4))

lemma bafs_exit_bl:
  assumes "bal F G D P e s" and "\<And>P' s'. bal F G D P' e s' \<Longrightarrow> Q s'"
  shows "post (bafs_exit ps s) Q"
  unfolding bafs_exit_def pci_unregister_driver_def using assms(1)
  by (auto simp: Let_def init_defs intro!: remove_all_bl bl assms(2))

section \<open>Events\<close>

lemma fops_open_bl [bl]:
  assumes "bal F G D P e s" and "\<And>ret pd G' s'. bal F G' D P (taken e pd) s' \<Longrightarrow> Q (ret, pd, s')"
  shows "post (fops_open K t nd s) Q"
  using assms(1) by (cases nd) (auto intro!: bl assms(2))

lemma fops_ioctl_bl:
  assumes "bal F G D P e s" and "fresh s" "ctrl_children s" "ida_ok K" and "\<And>ret G' D' s'. bal F G' D' P e s' \<Longrightarrow> Q (ret, s')"
  shows "post (fops_ioctl K pd cmd argp s) Q"
  using assms(1-4) by (cases pd) (auto simp: fops_ioctl_def intro!: bafs_core_ioctl_bl bl assms(5))

lemma fops_mmap_bl [bl]:
  assumes "bal F G D P e s" and "\<And>ret G' s'. bal F G' D P e s' \<Longrightarrow> Q (ret, s')"
  shows "post (fops_mmap K pd v s) Q"
  using assms(1) by (cases pd) (auto simp: fops_mmap_def intro!: bl assms(2))

lemma fops_release_bl [bl]:
  assumes "bal F G D P e s" and "\<And>ret pd' G' s'. bal F G' D P (given e pd) s' \<Longrightarrow> Q (ret, pd', s')"
  shows "post (fops_release pd s) Q"
  using assms(1) by (cases pd) (auto simp del: taken_simps simp: fops_release_def intro!: bl assms(2))

lemma bal_open:
  assumes b: "bal F G D P (taken e pd) s"
  shows "bal (F(f \<mapsto> pd)) G D P e (s\<lparr>files := (files s)(f \<mapsto> pd)\<rparr>)"
proof (rule bal_step [OF b])
  fix c
  have "own (F(f \<mapsto> pd)) G D P c \<le> own F G D P c + pd_refs pd c"
    using summ_upd_le [OF balD(5) [OF b], of "\<lambda>pd. pd_refs pd c" f pd] by (simp add: own_def)
  then show "int (own (F(f \<mapsto> pd)) G D P c) + e c + int (krefs s (KCtrl c))
      \<le> int (own F G D P c) + taken e pd c + int (krefs (s\<lparr>files := (files s)(f \<mapsto> pd)\<rparr>) (KCtrl c))" by (simp add: taken_def)
qed (simp_all add: balD [OF b])

lemma bal_close:
  assumes b: "bal F G D P (given e pd) s" and f: "F f = Some pd"
  shows "bal (F(f := None)) G D P e (s\<lparr>files := (files s)(f := None)\<rparr>)"
proof (rule bal_step [OF b])
  fix c
  have "own F G D P c = own (F(f := None)) G D P c + pd_refs pd c"
    using summ_del [OF balD(5) [OF b] f, of "\<lambda>pd. pd_refs pd c"] by (simp add: own_def)
  then show "int (own (F(f := None)) G D P c) + e c + int (krefs s (KCtrl c))
      \<le> int (own F G D P c) + given e pd c + int (krefs (s\<lparr>files := (files s)(f := None)\<rparr>) (KCtrl c))" by (simp add: given_def)
qed (simp_all add: balD [OF b])

lemma bal_taken: "bal F G D P (taken e pd) s \<Longrightarrow> bal F G D P e s"
  by (erule bal_mono) (simp add: taken_def)

lemma bal_load_image [simp]: "bal F G D P e (load_image s) = bal F G D P e s"
  by (simp add: load_image_def)

lemma fresh_load_image [simp]: "fresh (load_image s) = fresh s"
  by (simp add: fresh_def load_image_def)

lemma p2p_revoke_bl [bl]:
  assumes "bal F G D P e s" and "\<And>s'. bal F G D P e s' \<Longrightarrow> Q s'"
  shows "post (p2p_revoke m s) Q"
  unfolding p2p_revoke_def p2p_teardown_def by (rule release_bafs_cuda_mem_bl) (use assms in simp_all)

definition covered :: "world \<Rightarrow> bool" where
  "covered s \<longleftrightarrow> (\<exists>F G D P. bal F G D P (\<lambda>_. 0) s)"

lemma coveredI: "bal F G D P (\<lambda>_. 0) s \<Longrightarrow> covered s"
  unfolding covered_def by blast

lemma step_covered:
  assumes "covered s" and "sys_inv s" and ida: "ida_ok K"
  shows "post (step K e s) (\<lambda>(ret, s'). covered s')"
proof -
  from assms(1) obtain F G D P where b: "bal F G D P (\<lambda>_. 0) s" unfolding covered_def by blast
  have pre: "fresh s" "ctrl_children s" using sys_inv_fresh [OF assms(2)] by blast+
  show ?thesis
  proof (cases e)
    case (Load ps)
    then show ?thesis using b pre(1) ida by (auto intro!: bafs_init_bl intro: coveredI)
  next
    case (Unload ps)
    then show ?thesis using b by (auto intro!: bafs_exit_bl intro: coveredI)
  next
    case (Plug p cls)
    then show ?thesis using b pre(1) ida by (auto simp: bafs_ctrl_pci_probe_def intro!: bafs_ctrl_alloc_bl intro: coveredI)
  next
    case (Unplug p)
    then show ?thesis using b by (auto simp: pci_unbind_def intro!: bafs_ctrl_pci_remove_bl intro: coveredI)
  next
    case (Open t f path)
    then show ?thesis using b by (auto simp: vfs_open_def split: option.split intro!: bl intro: coveredI coveredI [OF bal_open] coveredI [OF bal_taken])
  next
    case (Ioctl f cmd argp)
    then show ?thesis using b pre ida by (auto simp: vfs_ioctl_def split: option.split intro!: fops_ioctl_bl intro: coveredI)
  next
    case (Mmap f v va off)
    have "post (vfs_mmap K f v va off s) (\<lambda>(ret, s'). \<exists>G'. bal F G' D P (\<lambda>_. 0) s')"
      using b by (auto simp: vfs_mmap_def Let_def split: option.split intro!: bl)
    then show ?thesis unfolding Mmap by (auto elim!: post_mono intro: coveredI)
  next
    case (Munmap v)
    then show ?thesis using b by (auto simp: vfs_munmap_def intro!: bl intro: coveredI)
  next
    case (Close f)
    then show ?thesis using b balD(1) [OF b] by (auto simp: vfs_close_def split: option.split intro!: bl intro: coveredI coveredI [OF bal_close])
  next
    case (Revoke m)
    then show ?thesis using b by (auto intro!: bl intro: coveredI)
  next
    case (Write u)
    then show ?thesis using b by (auto intro: coveredI)
  qed
qed

lemma reachable_covered: "reachable K s \<Longrightarrow> ida_ok K \<Longrightarrow> covered s"
proof (induction rule: reachable.induct)
  case (start u)
  have "bal Map.empty Map.empty Map.empty Map.empty (\<lambda>_. 0) (empty_world u)"
    by (simp add: bal_def own_def empty_world_def gview_def dview_def fun_eq_iff)
  then show ?case by (rule coveredI)
next
  case (event s e ret s')
  with step_covered [OF _ reachable_sys_inv [OF event.hyps(1)], of K e] show ?case by (auto simp: post_def)
qed

section \<open>No controller is freed while something holds it\<close>

definition ctrl_holders :: "world \<Rightarrow> addr \<Rightarrow> nat" where
  "ctrl_holders s c = own (files s) (gview s) (dview s) (pci_drvdata s) c"

definition ctrl_alive :: "world \<Rightarrow> addr \<Rightarrow> bool" where
  "ctrl_alive s c \<longleftrightarrow> ctrls s c \<noteq> None \<and> 0 < krefs s (KCtrl c)"

lemma covered_holders: "covered s \<Longrightarrow> ctrl_holders s c \<le> krefs s (KCtrl c)"
  unfolding covered_def bal_def ctrl_holders_def by (metis add.right_neutral of_nat_le_iff)

lemma holder_counts:
  assumes "covered s"
  shows "files s f = Some (PCtrl c cx) \<Longrightarrow> 0 < ctrl_holders s c"
    and "groups s g = Some y \<Longrightarrow> c \<in> set (group_ctrls y) \<Longrightarrow> 0 < ctrl_holders s c"
    and "dmas s d = Some z \<Longrightarrow> 0 < ctrl_holders s (dma_ctrl z)"
    and "pci_drvdata s p = Some c \<Longrightarrow> 0 < ctrl_holders s c"
proof -
  from assms have fin: "finite (dom (files s))" "finite (dom (gview s))" "finite (dom (dview s))" "finite (dom (pci_drvdata s))"
    unfolding covered_def by (auto dest: balD)
  show "0 < ctrl_holders s c" if "files s f = Some (PCtrl c cx)"
    using summ_mem [OF fin(1) that, of "\<lambda>pd. pd_refs pd c"] by (simp add: ctrl_holders_def own_def)
  show "0 < ctrl_holders s c" if "groups s g = Some y" "c \<in> set (group_ctrls y)"
    using summ_mem [OF fin(2), of g "group_ctrls y" "\<lambda>cs. count_list cs c"] that
    by (auto simp: ctrl_holders_def own_def gview_def count_list_0_iff intro: gr0I)
  show "0 < ctrl_holders s (dma_ctrl z)" if "dmas s d = Some z"
    using summ_mem [OF fin(3), of d "dma_ctrl z" "\<lambda>c'. if c' = dma_ctrl z then 1 else 0"] that
    by (simp add: ctrl_holders_def own_def dview_def)
  show "0 < ctrl_holders s c" if "pci_drvdata s p = Some c"
    using summ_mem [OF fin(4) that, of "\<lambda>c'. if c' = c then 1 else 0"] by (simp add: ctrl_holders_def own_def)
qed

lemma holder_alive:
  assumes "covered s" and "sys_inv s" and "0 < ctrl_holders s c"
  shows "ctrl_alive s c"
proof -
  from assms(3) covered_holders [OF assms(1), of c] have "0 < krefs s (KCtrl c)" by simp
  moreover from this assms(2) have "ctrls s c \<noteq> None" unfolding sys_inv_def using winv_live(1) by fastforce
  ultimately show ?thesis by (simp add: ctrl_alive_def)
qed

text \<open>
  C3. In every reachable state the reference count of every controller is at least the number of
  its holders: the open files of its device, its places in groups, the DMA mappings made
  for it and the PCI devices it is bound to. So no pointer to a controller dangles: each of
  those holders leads to an object that exists and has references, whatever was closed,
  deleted, unmapped or unplugged before.
\<close>

theorem reachable_no_dangling_ctrl:
  assumes "reachable K s" and "ida_ok K"
  shows "(\<forall>c. ctrl_holders s c \<le> krefs s (KCtrl c)) \<and>
    (\<forall>f c cx. files s f = Some (PCtrl c cx) \<longrightarrow> ctrl_alive s c) \<and>
    (\<forall>g y. groups s g = Some y \<longrightarrow> (\<forall>c \<in> set (group_ctrls y). ctrl_alive s c)) \<and>
    (\<forall>d y. dmas s d = Some y \<longrightarrow> ctrl_alive s (dma_ctrl y)) \<and>
    (\<forall>p c. pci_drvdata s p = Some c \<longrightarrow> ctrl_alive s c)"
  using holder_counts [OF reachable_covered [OF assms]] holder_alive [OF reachable_covered [OF assms] reachable_sys_inv [OF assms]]
    covered_holders [OF reachable_covered [OF assms]]
  by blast

text \<open>Loading with one device present binds it.\<close>

lemma demo_probe:
  assumes "minor_ida s = {0}" and "ctrl_ida s = {}"
  shows "\<exists>s'. bafs_ctrl_pci_probe demo_kernel p s = Some (0, s') \<and> pci_drvdata s' p = Some (next_addr s)"
proof -
  have k: "k_ret demo_kernel x n = 0" "k_alloc demo_kernel n" for x n by (simp_all add: demo_kernel_def)
  have g: "bafs_get_minor_number demo_kernel t = (1, t\<lparr>now := Suc (now t), minor_ida := {1, 0}\<rparr>)" if "minor_ida t = {0}" for t
    using that by (simp add: bafs_get_minor_number_def ask_def Let_def demo_kernel_def)
  have h: "ctrl_ida_get demo_kernel t = (0, t\<lparr>now := Suc (now t), ctrl_ida := {0}\<rparr>)" if "ctrl_ida t = {}" for t
    using that by (simp add: ctrl_ida_get_def ask_def Let_def demo_kernel_def)
  have a: "minor_ida (acquire r t) = minor_ida t" "ctrl_ida (acquire r t) = ctrl_ida t" "ctrls (acquire r t) = ctrls t" "pci_drvdata (acquire r t) = pci_drvdata t"
    "minor_ida (set_flag r t) = minor_ida t" "ctrl_ida (set_flag r t) = ctrl_ida t" "ctrls (set_flag r t) = ctrls t" "pci_drvdata (set_flag r t) = pci_drvdata t"
    "pci_drvdata (kref_init q t) = pci_drvdata t" for r q t
    by (simp_all add: acquire_def set_flag_def kref_init_def)
  show ?thesis using assms
    by (simp add: bafs_ctrl_pci_probe_def bafs_ctrl_alloc_def ctrl_alloc_numbers_def ctrl_alloc_device_def ask_def device_create_def k g h a Let_def)
qed

lemma demo_core:
  assumes "minor_ida s = {}" and "ctrl_ida s = {}"
  shows "\<exists>s'. init_core_device demo_kernel [p] s = Some (0, s') \<and> pci_drvdata s' p = Some (next_addr s)"
proof -
  let ?s = "acquire PciDriver (acquire (DevNode 0) (set_flag (Cdev 0) (s\<lparr>now := now s + 1, minor_ida := {0}, core_minor := 0\<rparr>)\<lparr>now := now s + 3\<rparr>)\<lparr>now := now s + 4\<rparr>)"
  obtain s' where s': "bafs_ctrl_pci_probe demo_kernel p ?s = Some (0, s')" "pci_drvdata s' p = Some (next_addr s)"
    using demo_probe [of ?s p] assms(2) by (auto simp: acquire_def set_flag_def)
  have g: "bafs_get_minor_number demo_kernel s = (0, s\<lparr>now := now s + 1, minor_ida := {0}\<rparr>)"
    using assms(1) by (simp add: bafs_get_minor_number_def ask_def Let_def demo_kernel_def)
  have k: "k_ret demo_kernel x n = 0" for x n by (simp add: demo_kernel_def)
  show ?thesis using s'
    by (simp add: init_core_device_def g ask_def k pci_register_driver_def acquire_def set_flag_def eval_nat_numeral)
qed

lemma demo_bound: "\<exists>s. bafs_init demo_kernel [5] (empty_world demo_user) = Some (0, s) \<and> pci_drvdata s 5 = Some 1"
proof -
  have k: "k_ret demo_kernel x n = 0" for x n by (simp add: demo_kernel_def)
  obtain s where "bafs_init demo_kernel [5] (empty_world demo_user) = init_core_device demo_kernel [5] s"
    "minor_ida s = {}" "ctrl_ida s = {}" "next_addr s = 1"
    by (simp add: bafs_init_def class_create_def bafs_ctrl_init_def bafs_group_init_def ask_def k Let_def)
     (simp add: acquire_def empty_world_def)
  with demo_core [of s 5] show ?thesis by simp
qed

lemma demo_reachable: "bafs_init demo_kernel [5] (empty_world demo_user) = Some (0, s) \<Longrightarrow> reachable demo_kernel s"
  using reachable.event [OF reachable.start, of "Load [5]" demo_user demo_kernel 0 s]
  by (simp add: load_image_empty) (simp add: empty_world_def)

theorem reachable_no_dangling_ctrl_witness:
  "\<exists>s. bafs_init demo_kernel [5] (empty_world demo_user) = Some (0, s) \<and> pci_drvdata s 5 = Some 1 \<and> ctrl_alive s 1 \<and>
     0 < ctrl_holders s 1 \<and> ctrl_holders s 1 \<le> krefs s (KCtrl 1)"
proof -
  obtain s where s: "bafs_init demo_kernel [5] (empty_world demo_user) = Some (0, s)" "pci_drvdata s 5 = Some 1" using demo_bound by blast
  note r = demo_reachable [OF s(1)]
  have "0 < ctrl_holders s 1" using holder_counts(4) [OF reachable_covered [OF r demo_kernel_ok(2)] s(2)] .
  with s reachable_no_dangling_ctrl [OF r demo_kernel_ok(2)] show ?thesis by blast
qed

end
