(* ===== verification/Bafs_Misuse.thy ===== *)
theory Bafs_Misuse
  imports Bafs_Ctrl
begin

text \<open>
  What a user program can do to the objects of the driver by calls in an order the code does not
  expect: mapping one handle twice, and mapping for DMA a memory that is not pinned.
\<close>

section \<open>One handle mapped twice\<close>

text \<open>
  C4. The reference that a registration holds is taken over by the mapping, and a second mapping of the
  same handle takes none of its own: after two successful maps of one CPU memory, the
  first unmap frees the memory while the second area still points to it, so the second unmap
  uses the freed object and the run stops there. The pages of the first mapping and their
  array are never freed: the second pinning has overwritten the pointer to them.
\<close>

theorem mapped_twice_use_after_free:
  assumes "fresh s" and "xa_index_ok K" and c: "ctxs s c = Some cx" "0 < krefs s (KCtx c)"
    and lk: "CtxLock c \<notin> held s" and v: "vmas s v = Some vma" and w: "vmas s w = Some wma" "w \<noteq> v"
    and cpu: "rm_loc (u_reg (user s) argp) = BAFS_MEM_CPU"
    and reg: "bafs_core_reg_mem K argp c s = Some (0, s1)"
    and hnd: "vm_pgoff vma = ucast (rm_handle (u_reg (user s1) argp))" "vm_pgoff wma = vm_pgoff vma"
    and pin1: "pin_bafs_mem K v c s1 = Some (0, s2)" and pin2: "pin_bafs_mem K w c s2 = Some (0, s3)"
    and n: "n = unat (page_count (ucast (rm_size (u_reg (user s) argp))) PAGE_SIZE PAGE_SHIFT)"
  shows "yields (bafs_mem_release K v s3) (\<lambda>s4. mems s4 (next_addr s) = None \<and>
    (\<exists>wma'. vmas s4 w = Some wma' \<and> vm_private_data wma' = Some (next_addr s)) \<and>
    bafs_mem_release K w s4 = None \<and> (\<forall>r. res s4 r = res s r + pages_owned (next_addr s1) n r))"
proof -
  let ?m = "next_addr s"
  from bafs_core_reg_mem_success [OF assms(1,2) c lk reg] obtain i where
    s1: "s1 = (registered c i argp s)\<lparr>now := now s + 4\<rparr>" and i: "bafs_mem_xa cx i = None" "unat i < 2 ^ 31" .
  note regs = registered_simps [OF c(1), of i argp]
  let ?x = "mem_new c i (u_reg (user s) argp)" and ?cx = "cx\<lparr>bafs_mem_xa := (bafs_mem_xa cx)(i \<mapsto> ?m), mem_list := ?m # mem_list cx\<rparr>"
  have sz: "n = unat (page_count (mem_size ?x) PAGE_SIZE PAGE_SHIFT)" by (simp add: n)
  have id: "vma_id vma = i" "vma_id wma = i"
    using hnd i(2) vma_id_handle [of vma i] vma_id_handle [of wma i] by (simp_all add: s1 regs)
  let ?p1 = "cpu_pinned (vm_start vma) (next_addr s1) ?x"
  have s2: "s2 = s1\<lparr>now := Suc (Suc (now s1 + n)), next_addr := next_addr s1 + n,
        res := (\<lambda>r. res s1 r + pages_owned (next_addr s1) n r),
        mems := (mems s1)(?m \<mapsto> ?p1), vmas := (vmas s1)(v \<mapsto> vma_pinned ?m vma)\<rparr>"
    by (rule pin_bafs_mem_cpu_success [OF _ _ _ _ _ _ _ _ _ sz pin1, where vma = vma and cx = ?cx])
      (use assms(1) v lk c cpu in \<open>simp_all add: s1 regs id freshD\<close>)
  let ?p2 = "cpu_pinned (vm_start wma) (next_addr s2) ?p1"
  have s3: "s3 = s2\<lparr>now := Suc (Suc (now s2 + n)), next_addr := next_addr s2 + n,
        res := (\<lambda>r. res s2 r + pages_owned (next_addr s2) n r),
        mems := (mems s2)(?m \<mapsto> ?p2), vmas := (vmas s2)(w \<mapsto> vma_pinned ?m wma)\<rparr>"
    by (rule pin_bafs_mem_cpu_success [OF _ _ _ _ _ _ _ _ _ _ pin2, where vma = wma and cx = ?cx])
      (use assms(1) v w lk c cpu sz in \<open>simp_all add: s2 s1 regs id freshD\<close>)
  have live: "cpu_live (next_addr s2) ?p2"
    using cpu unsigned_less [of "rm_size (u_reg (user s) argp)", where 'a = nat] by (intro cpu_live_pinned) simp_all
  have "bafs_mem_release K v s3 = bafs_put_ctx c (mem_gone v ?m (next_addr s2) ?p2 ?cx s3)"
    by (rule bafs_mem_release_eq [OF _ _ _ live _ _ _ _ _ _ refl, where vma = "vma_pinned ?m vma"])
      (use assms(1) c(2) lk w in \<open>simp_all add: s3 s2 s1 regs vma_pinned_def freshD dmas_ok_def n [symmetric]\<close>)
  also have "\<dots> = Some ((mem_gone v ?m (next_addr s2) ?p2 ?cx s3)\<lparr>krefs := krefs s\<rparr>)"
    using c(2) assms(1)
    by (subst bafs_put_ctx_shared) (auto simp: gone_def s3 s2 s1 regs fun_eq_iff freshD)
  finally show ?thesis
    using w by (simp add: gone_def s3 s2 s1 regs vma_pinned_def bafs_mem_release_def n [symmetric])
qed

section \<open>DMA mapping of a memory that is not pinned\<close>

text \<open>The lookup by address stops at the newest registration when this is at the address, pinned or not.\<close>

lemma get_newest_mem:
  assumes "ctxs s c = Some cx" and "mem_list cx = m # ms" and "0 < krefs s (KCtx c)" and "CtxLock c \<notin> held s"
    and "mems s m = Some x" and "0 < krefs s (KMem m)" and "MemLock m \<notin> held s" and "mem_vaddr x = va" and "mem_state x = STALE"
  shows "bafs_get_mem_with_ctx K va c s = Some (Some m, s\<lparr>krefs := (krefs s)(KMem m := Suc (krefs s (KMem m)))\<rparr>)"
  using assms by (simp add: bafs_get_mem_with_ctx_def prim_defs fun_upd_idem fun_upd_twist)

lemma page_count_pos:
  assumes "w \<noteq> (0 :: u32)"
  shows "0 < unat (page_count (ucast w) PAGE_SIZE PAGE_SHIFT)"
proof -
  have "0 < unat w" using assms by (simp add: unat_gt_0)
  moreover have "unat (ucast w :: u64) < 2 ^ 32" using unsigned_less [of w, where 'a = nat] by simp
  ultimately show ?thesis using page_count_div [of PAGE_SIZE PAGE_SHIFT "ucast w"] by simp
qed

text \<open>
  C19. When mapping a registered CPU memory fails for lack of memory, its page table is null again but
  its address, its number of pages and its place in the list stay, and the lookup by address
  does not ask whether it is live: the DMA ioctl with that address then reads the first entry of the null
  page table. The run stops there.
\<close>

theorem dma_map_after_failed_mmap_stops:
  assumes "fresh s" and "xa_index_ok K" and c: "ctxs s c = Some cx" "0 < krefs s (KCtx c)"
    and lk: "CtxLock c \<notin> held s" and v: "vmas s v = Some vma"
    and cpu: "rm_loc (u_reg (user s) argp) = BAFS_MEM_CPU" and size: "rm_size (u_reg (user s) argp) \<noteq> 0"
    and reg: "bafs_core_reg_mem K argp c s = Some (0, s1)"
    and hnd: "vm_pgoff vma = ucast (rm_handle (u_reg (user s1) argp))"
    and pin: "pin_bafs_mem K v c s1 = Some (- ENOMEM, s2)"
    and e: "ctrls s e \<noteq> None" "0 < krefs s (KCtrl e)" and ok: "k_alloc K (now s2)" "k_alloc K (Suc (now s2))"
  shows "bafs_ctrl_dma_map_mem K e c (vm_start vma) cnt dst idx s2 = None"
proof -
  let ?m = "next_addr s"
  from bafs_core_reg_mem_success [OF assms(1,2) c lk reg] obtain i where
    s1: "s1 = (registered c i argp s)\<lparr>now := now s + 4\<rparr>" and i: "bafs_mem_xa cx i = None" "unat i < 2 ^ 31" .
  note regs = registered_simps [OF c(1), of i argp]
  let ?x = "mem_new c i (u_reg (user s) argp)" and ?cx = "cx\<lparr>bafs_mem_xa := (bafs_mem_xa cx)(i \<mapsto> ?m), mem_list := ?m # mem_list cx\<rparr>"
  have id: "vma_id vma = i" using hnd i(2) by (intro vma_id_handle) (simp_all add: s1 regs)
  let ?g = "(cpu_geom (?x\<lparr>mem_vaddr := vm_start vma\<rparr>))\<lparr>cpu_page_table := None\<rparr>"
  have "pin_bafs_mem K v c s1 = Some (- ENOMEM, s2) \<Longrightarrow>
      s2 = s1\<lparr>now := now s2, next_addr := next_addr s2, mems := (mems s1)(?m \<mapsto> ?g)\<rparr>"
    by (subst (asm) pin_bafs_mem_cpu_eq [where vma = vma and cx = ?cx and m = ?m and x = ?x, OF _ _ _ _ _ _ _ _ _ refl refl refl refl])
      (use assms(1) v lk c cpu in \<open>auto simp: s1 regs id freshD split: if_splits intro!: world.equality\<close>)
  then obtain t a where s2: "s2 = s1\<lparr>now := t, next_addr := a, mems := (mems s1)(?m \<mapsto> ?g)\<rparr>" using pin by metis
  obtain k where k: "unat (page_count (ucast (rm_size (u_reg (user s) argp))) PAGE_SIZE PAGE_SHIFT) = Suc k"
    using page_count_pos [OF size] gr0_implies_Suc by blast
  have get: "bafs_get_mem_with_ctx K (vm_start vma) c s2 = Some (Some ?m, s2\<lparr>krefs := (krefs s2)(KMem ?m := Suc (krefs s2 (KMem ?m)))\<rparr>)"
    by (rule get_newest_mem [where cx = ?cx and ms = "mem_list cx" and x = ?g])
      (use assms(1) lk c in \<open>simp_all add: s2 s1 regs freshD\<close>)
  have f: "ctrls s2 = ctrls s" "krefs s2 (KCtrl e) = krefs s (KCtrl e)" "mems s2 ?m = Some ?g" by (simp_all add: s2 s1 regs)
  show ?thesis
    using e ok cpu k by (auto simp: bafs_ctrl_dma_map_mem_def get ask_def Let_def bafs_get_ctrl_def kref_get_def f dma_map_cpu_def
        upd_dma_def acquire_def)
qed

text \<open>
  C20. A registration that was never mapped lies at address 0, and the DMA ioctl with address 0 finds it:
  it reports success with no address at all and links a mapping to it. Closing the device
  file then frees the registration although the mapping holds a reference on it. The
  mapping keeps a pointer to the freed memory and, since it can only be found through this
  memory, keeps its reference on the controller for ever.
\<close>

theorem stale_memory_mapped_at_zero:
  assumes "fresh s" and "xa_index_ok K" and c: "ctxs s c = Some cx" "1 < krefs s (KCtx c)" "mem_list cx = []"
    and lk: "CtxLock c \<notin> held s" and cpu: "rm_loc (u_reg (user s) argp) = BAFS_MEM_CPU"
    and reg: "bafs_core_reg_mem K argp c s = Some (0, s1)"
    and e: "ctrls s e \<noteq> None" "0 < krefs s (KCtrl e)"
    and ok: "k_alloc K (now s1)" "k_alloc K (Suc (now s1))" "k_copy K (Suc (Suc (now s1)))"
  shows "yields (bafs_ctrl_dma_map_mem K e c 0 cnt dst 0 s1) (\<lambda>(ret, d, n, s2). ret = 0 \<and> n = 0 \<and>
    (\<exists>d' y. d = Some d' \<and> dmas s2 d' = Some y \<and> dma_mem y = next_addr s \<and> dma_ctrl y = e \<and>
      yields (release_stale c s2) (\<lambda>s3. mems s3 (next_addr s) = None \<and> dmas s3 d' = Some y \<and>
        krefs s3 (KCtrl e) = Suc (krefs s (KCtrl e)))))"
proof -
  let ?m = "next_addr s"
  have c2: "0 < krefs s (KCtx c)" using c(2) by simp
  from bafs_core_reg_mem_success [OF assms(1,2) c(1) c2 lk reg] obtain i where
    s1: "s1 = (registered c i argp s)\<lparr>now := now s + 4\<rparr>" .
  note regs = registered_simps [OF c(1), of i argp]
  let ?x = "mem_new c i (u_reg (user s) argp)" and ?cx = "cx\<lparr>bafs_mem_xa := (bafs_mem_xa cx)(i \<mapsto> ?m), mem_list := [?m]\<rparr>"
  have x: "mem_vaddr ?x = 0" "n_pages ?x = 0" "page_size ?x = 0" "cpu_page_table ?x = None" by (simp_all add: mem_new_def mem_zero_def)
  have get: "bafs_get_mem_with_ctx K 0 c s1 = Some (Some ?m, s1\<lparr>krefs := (krefs s1)(KMem ?m := Suc (krefs s1 (KMem ?m)))\<rparr>)"
    by (rule get_newest_mem [where cx = ?cx and ms = "[]" and x = ?x])
      (use assms(1) lk c in \<open>simp_all add: s1 regs freshD x\<close>)
  have f: "ctrls s1 = ctrls s" "krefs s1 (KCtrl e) = krefs s (KCtrl e)" "mems s1 ?m = Some ?x" "held s1 = held s"
    "ctxs s1 c = Some ?cx" "krefs s1 (KCtx c) = Suc (krefs s (KCtx c))" by (simp_all add: s1 regs c(3))
  have ml: "MemLock ?m \<notin> held s" using assms(1) by (simp add: freshD)
  obtain cc where cc: "ctrls s e = Some cc" using e(1) by blast
  obtain s2 y where s2: "bafs_ctrl_dma_map_mem K e c 0 cnt dst 0 s1 = Some (0, Some (next_addr s1), 0, s2)"
    and y: "dmas s2 (next_addr s1) = Some y" "dma_mem y = ?m" "dma_ctrl y = e"
    and s2': "ctxs s2 c = Some ?cx" "held s2 = held s" "\<exists>x'. mems s2 ?m = Some x' \<and> mem_state x' = STALE \<and> mem_id x' = i"
      "krefs s2 (KCtx c) = Suc (krefs s (KCtx c))" "krefs s2 (KCtrl e) = Suc (krefs s (KCtrl e))"
    using e ok cpu ml cc
    by (simp add: bafs_ctrl_dma_map_mem_def get ask_def Let_def bafs_get_ctrl_def kref_get_def f dma_map_cpu_def
        upd_dma_def acquire_def x copy_longs_to_user_def dma_link_def spin_lock_def spin_unlock_def upd_mem_def count_addrs_def)
  obtain x' where x': "mems s2 ?m = Some x'" "mem_state x' = STALE" "mem_id x' = i" using s2'(3) by blast
  have st: "stale_of s2 (mem_list ?cx) = [?m]" using x' by (simp add: stale_of_def)
  have "release_stale c s2 = bafs_put_ctx c (purged c ?cx (stale_of s2 (mem_list ?cx)) s2)"
    by (rule release_stale_eq) (use s2' x' lk ml c(2) in \<open>simp add: ctx_ok_def stale_of_def\<close>)
  moreover have "1 < krefs (purged c ?cx [?m] s2) (KCtx c)" using c(2) s2'(4) by (simp add: purged_def)
  ultimately have "release_stale c s2 = Some ((purged c ?cx [?m] s2)\<lparr>krefs :=
      (krefs (purged c ?cx [?m] s2))(KCtx c := krefs (purged c ?cx [?m] s2) (KCtx c) - 1)\<rparr>)"
    unfolding st by (simp add: bafs_put_ctx_shared)
  with s2 y s2'(5) show ?thesis by (simp add: purged_def)
qed

section \<open>Examples\<close>

text \<open>A process with two areas at page offset 1, and a controller at address 7.\<close>

definition demo_misuse_world :: world where
  "demo_misuse_world = demo_vma_world\<lparr>next_addr := 8, vmas := [0 \<mapsto> demo_vma, 1 \<mapsto> demo_vma\<lparr>vm_start := 0x20000\<rparr>],
     ctrls := [7 \<mapsto> \<lparr>pdev = 5, ctrl_minor = 1, ctrl_id = 0\<rparr>], krefs := (\<lambda>_. 0)(KCtx 1 := 2, KCtrl 7 := 1)\<rparr>"

lemma demo_misuse_simps [simp]:
  "fresh demo_misuse_world" "next_addr demo_misuse_world = 8" "held demo_misuse_world = {}" "now demo_misuse_world = 0"
  "ctxs demo_misuse_world = [1 \<mapsto> demo_cx]" "krefs demo_misuse_world = (\<lambda>_. 0)(KCtx 1 := 2, KCtrl 7 := 1)"
  "vmas demo_misuse_world = [0 \<mapsto> demo_vma, 1 \<mapsto> demo_vma\<lparr>vm_start := 0x20000\<rparr>]" "user demo_misuse_world = demo_user"
  "ctrls demo_misuse_world = [7 \<mapsto> \<lparr>pdev = 5, ctrl_minor = 1, ctrl_id = 0\<rparr>]" "mems demo_misuse_world = Map.empty"
  by (simp_all add: demo_misuse_world_def demo_vma_world_def demo_ctx_world_def empty_world_def fresh_def)

lemmas demo_misuse_regs = registered_simps [where s = demo_misuse_world and c = 1 and cx = demo_cx and i = 0 and argp = 0, simplified]

abbreviation demo_reg :: world where
  "demo_reg \<equiv> (registered 1 0 0 demo_misuse_world)\<lparr>now := 4\<rparr>"

lemma demo_misuse_registered:
  assumes "xa_index_ok K" and "\<And>n. k_alloc K n" "\<And>n. k_copy K n" "\<And>n. k_xa_index K n (\<lambda>i. False) = Some 0"
  shows "bafs_core_reg_mem K 0 1 demo_misuse_world = Some (0, demo_reg)"
  using bafs_core_reg_mem_eq [where s = demo_misuse_world and K = K and c = 1 and cx = demo_cx and argp = 0,
      OF _ assms(1) _ _ _ refl refl] assms(2-4)
  by simp

lemma demo_pin_twice:
  "\<exists>s2 s3. pin_bafs_mem demo_kernel 0 1 demo_reg = Some (0, s2) \<and> pin_bafs_mem demo_kernel 1 1 s2 = Some (0, s3)"
proof -
  let ?cx = "\<lparr>bafs_mem_xa = [0 \<mapsto> 8], mem_list = [8], ctx_tgid = 77\<rparr>" and ?x = "mem_new 1 0 (u_reg demo_user 0)"
  have a: "0x10000 AND - PAGE_SIZE = (0x10000 :: u64)" "0x20000 AND - PAGE_SIZE = (0x20000 :: u64)" by simp_all
  obtain s2 where s2: "pin_bafs_mem demo_kernel 0 1 demo_reg = Some (0, s2)" "vmas s2 1 = Some (demo_vma\<lparr>vm_start := 0x20000\<rparr>)"
    "0 < krefs s2 (KCtx 1)" "held s2 = {}" "ctxs s2 1 = Some ?cx" "0 < krefs s2 (KMem 8)" "mems s2 8 = Some (cpu_pinned 0x10000 9 ?x)"
    using a pin_bafs_mem_cpu_eq [where s = demo_reg and K = demo_kernel and v = 0 and c = 1 and cx = ?cx and vma = demo_vma and m = 8
      and x = ?x, OF _ _ _ _ _ _ _ _ _ refl refl refl refl]
    by (simp add: demo_misuse_regs vma_id_def demo_vma_def mask_of_def demo_user_def BAFS_MEM_CPU_def)
  moreover have "\<exists>s3. pin_bafs_mem demo_kernel 1 1 s2 = Some (0, s3)"
    using a s2(2-7) pin_bafs_mem_cpu_eq [where s = s2 and K = demo_kernel and v = 1 and c = 1 and cx = ?cx and m = 8
      and vma = "demo_vma\<lparr>vm_start := 0x20000\<rparr>" and x = "cpu_pinned 0x10000 9 ?x", OF _ _ _ _ _ _ _ _ _ refl refl refl refl]
    by (simp add: vma_id_def demo_vma_def mask_of_def demo_user_def BAFS_MEM_CPU_def)
  ultimately show ?thesis by blast
qed

theorem mapped_twice_use_after_free_witness:
  "\<exists>s1 s2 s3. bafs_core_reg_mem demo_kernel 0 1 demo_misuse_world = Some (0, s1) \<and> pin_bafs_mem demo_kernel 0 1 s1 = Some (0, s2) \<and>
     pin_bafs_mem demo_kernel 1 1 s2 = Some (0, s3) \<and>
     yields (bafs_mem_release demo_kernel 0 s3) (\<lambda>s4. bafs_mem_release demo_kernel 1 s4 = None)"
proof -
  have reg: "bafs_core_reg_mem demo_kernel 0 1 demo_misuse_world = Some (0, demo_reg)"
    by (rule demo_misuse_registered) (simp_all add: demo_kernel_ok)
  obtain s2 s3 where s: "pin_bafs_mem demo_kernel 0 1 demo_reg = Some (0, s2)" "pin_bafs_mem demo_kernel 1 1 s2 = Some (0, s3)"
    using demo_pin_twice by blast
  have "vm_pgoff demo_vma = ucast (rm_handle (u_reg (user demo_reg) 0))" by (simp add: demo_misuse_regs demo_vma_def)
  note use = mapped_twice_use_after_free [OF _ demo_kernel_ok(1) _ _ _ _ _ _ _ reg this _ s refl, where cx = demo_cx
      and wma = "demo_vma\<lparr>vm_start := 0x20000\<rparr>"]
  have "yields (bafs_mem_release demo_kernel 0 s3) (\<lambda>s4. bafs_mem_release demo_kernel 1 s4 = None)"
    by (rule yields_mono [OF use]) (simp_all add: demo_user_def BAFS_MEM_CPU_def)
  with reg s show ?thesis by blast
qed

abbreviation poor_kernel :: kernel where
  "poor_kernel \<equiv> demo_kernel\<lparr>k_ret := \<lambda>e n. if e = VmMapPagesZero then - 12 else 0\<rparr>"

lemma demo_pin_fails: "\<exists>s2. pin_bafs_mem poor_kernel 0 1 demo_reg = Some (- ENOMEM, s2)"
proof -
  let ?cx = "\<lparr>bafs_mem_xa = [0 \<mapsto> 8], mem_list = [8], ctx_tgid = 77\<rparr>" and ?x = "mem_new 1 0 (u_reg demo_user 0)"
  have "0x10000 AND - PAGE_SIZE = (0x10000 :: u64)" by simp
  then show ?thesis
    using pin_bafs_mem_cpu_eq [where s = demo_reg and K = poor_kernel and v = 0 and c = 1 and cx = ?cx and vma = demo_vma and m = 8
      and x = ?x, OF _ _ _ _ _ _ _ _ _ refl refl refl refl]
    by (simp add: demo_misuse_regs vma_id_def demo_vma_def mask_of_def demo_user_def BAFS_MEM_CPU_def)
qed

theorem dma_map_after_failed_mmap_stops_witness:
  "\<exists>s1 s2. bafs_core_reg_mem poor_kernel 0 1 demo_misuse_world = Some (0, s1) \<and> pin_bafs_mem poor_kernel 0 1 s1 = Some (- ENOMEM, s2) \<and>
     bafs_ctrl_dma_map_mem poor_kernel 7 1 0x10000 0 0x5000 0 s2 = None"
proof -
  have xa: "xa_index_ok poor_kernel" using demo_kernel_ok(1) unfolding xa_index_ok_def by simp blast
  have reg: "bafs_core_reg_mem poor_kernel 0 1 demo_misuse_world = Some (0, demo_reg)"
    by (rule demo_misuse_registered [OF xa]) simp_all
  obtain s2 where s2: "pin_bafs_mem poor_kernel 0 1 demo_reg = Some (- ENOMEM, s2)" using demo_pin_fails by blast
  have "vm_pgoff demo_vma = ucast (rm_handle (u_reg (user demo_reg) 0))" by (simp add: demo_misuse_regs demo_vma_def)
  from dma_map_after_failed_mmap_stops [OF _ xa _ _ _ _ _ _ reg this s2, where cx = demo_cx and e = 7 and cnt = 0 and dst = "0x5000" and idx = 0]
  have "bafs_ctrl_dma_map_mem poor_kernel 7 1 0x10000 0 0x5000 0 s2 = None"
    by (simp add: demo_vma_def demo_user_def BAFS_MEM_CPU_def)
  with reg s2 show ?thesis by blast
qed

theorem stale_memory_mapped_at_zero_witness:
  "\<exists>s1. bafs_core_reg_mem demo_kernel 0 1 demo_misuse_world = Some (0, s1) \<and>
     yields (bafs_ctrl_dma_map_mem demo_kernel 7 1 0 0 0x5000 0 s1) (\<lambda>(ret, d, n, s2). ret = 0 \<and>
       yields (release_stale 1 s2) (\<lambda>s3. mems s3 8 = None \<and> krefs s3 (KCtrl 7) = 2))"
proof -
  have reg: "bafs_core_reg_mem demo_kernel 0 1 demo_misuse_world = Some (0, demo_reg)"
    by (rule demo_misuse_registered) (simp_all add: demo_kernel_ok)
  note use = stale_memory_mapped_at_zero [OF _ demo_kernel_ok(1) _ _ _ _ _ reg, where cx = demo_cx and e = 7]
  have "yields (bafs_ctrl_dma_map_mem demo_kernel 7 1 0 0 0x5000 0 demo_reg) (\<lambda>(ret, d, n, s2). ret = 0 \<and>
       yields (release_stale 1 s2) (\<lambda>s3. mems s3 8 = None \<and> krefs s3 (KCtrl 7) = 2))"
    by (rule yields_mono [OF use]) (auto simp: demo_user_def BAFS_MEM_CPU_def elim!: yields_mono)
  with reg show ?thesis by blast
qed

end
