(* ===== verification/Spec2Isabelle.thy ===== *)
theory Spec2Isabelle
  imports Bafs_Lib_Driver Bafs_Ctx_Refine Bafs_Held Bafs_Misuse
begin

text \<open>
  \<^bold>\<open>The program.\<close> BAFS is a Linux driver with a small user library. The kernel module
  (\<^verbatim>\<open>src/module/bafs\<close>) makes a character device of every NVMe controller (\<^verbatim>\<open>ctrl.c\<close>), lets
  user programs put controllers into groups, which are devices of their own (\<^verbatim>\<open>group.c\<close>), and
  has a core device for what belongs to no controller (\<^verbatim>\<open>core.c\<close>). Through any of these devices a
  process registers memory, maps it by \<^verbatim>\<open>mmap\<close>, which pins CPU or CUDA pages (\<^verbatim>\<open>mem.c\<close>), and has it
  mapped for DMA by one controller or by all controllers of a group. Everything is reference
  counted: the context of a process (\<^verbatim>\<open>struct bafs_ctx\<close>) by its files and memories, a memory by its
  mappings, a controller by the PCI binding, its files, its groups and the DMA mappings made for
  it, a group by its device and its files. The library (\<^verbatim>\<open>src/lib\<close>) wraps the system calls.

  \<^bold>\<open>The model.\<close> Every function of the module and of the library is a function of the development
  with the name it has in the source, from a state \<open>world\<close> to an optional result and state. The
  state (\<open>Bafs_World\<close>) holds the driver's structures by address, their counts, the spin locks that
  are held, user memory, and a ledger of all that was acquired from the kernel. What the kernel
  forbids (a freed object, a count of zero, a lock taken twice, a release of what is not
  owned) is \<open>None\<close>: a theorem that an operation yields a result says that none of this happens.
  Error codes are negative integers as in the source; each cleanup label is a definition
  (\<open>out_..\<close>) that continues with the next label. Machine integers have the widths of the source.
  The code outside the repository (allocation, \<^verbatim>\<open>copy_from_user\<close>, id pools, the PCI core, the NVIDIA
  peer-to-peer interface) is the record \<open>kernel\<close> of arbitrary answers, one for each call in the order of
  the run, so a theorem for all kernels covers every pattern of failures; the few
  documented laws that are needed (\<open>xa_index_ok\<close>, \<open>ida_ok\<close>, \<open>ret_ok\<close>) are named hypotheses,
  and \<open>demo_kernel\<close> satisfies them. All loops are structural recursions on the rounds that are
  left, so every operation is a total function and no fuel is needed.

  \<^bold>\<open>The theories.\<close>

  \<^item> \<open>Bafs_Prelude\<close>, \<open>Bafs_Types\<close>, \<open>Bafs_World\<close>: shared lemmas; the structures, ioctl numbers and
    parameter blocks of \<^verbatim>\<open>linux/bafs.h\<close> and \<^verbatim>\<open>types.h\<close>; the kernel and its primitives; the locales
    \<open>refcounted\<close> and \<open>id_pool\<close>, which the contexts, memories, controllers, groups and the three pools
    of numbers interpret.
  \<^item> \<open>Bafs_Ctx\<close>: the contexts of \<^verbatim>\<open>core.c\<close>. \<open>Bafs_Ctx_Refine\<close>: they refine a table of counts.
  \<^item> \<open>Bafs_Ctrl_Dev\<close>: construction and release of a controller (\<open>bafs_ctrl_alloc\<close> and its labels).
  \<^item> \<open>Bafs_Mem\<close>, \<open>Bafs_Mem_Life\<close>, \<open>Bafs_Cuda\<close>: \<^verbatim>\<open>mem.c\<close>, its page arithmetic, the life of a CPU memory,
    CUDA memories and their revocation.
  \<^item> \<open>Bafs_Dma\<close>, \<open>Bafs_Ctrl\<close>: lookup by address, the DMA mapping for one controller, and the file
    operations of a controller. \<open>Bafs_Misuse\<close>: sequences of calls that break the life of a memory.
  \<^item> \<open>Bafs_Group\<close>, \<open>Bafs_Group_Dma\<close>, \<open>Bafs_Group_File\<close>: \<^verbatim>\<open>group.c\<close>.
  \<^item> \<open>Bafs_Names\<close>, \<open>Bafs_Core\<close>, \<open>Bafs_Module\<close>: device names and their length; the core device; probe,
    remove, loading and unloading.
  \<^item> \<open>Bafs_Vfs\<close>: the tables of file operations, the PCI driver, and the running system: the events
    (loading, hot-plug, system calls of any process, revocation by the NVIDIA driver, stores
    to user memory), \<open>step\<close>, and the states \<open>reachable\<close> from the one before loading. A load gives the
    module fresh static data (\<open>load_image\<close>); an unload needs all files closed and all mappings gone,
    and when it leaves a device node or a CUDA pin behind (\<open>text_in_use\<close>), what would run next lies in
    the freed text of the module, so the run stops. A revocation is \<open>p2p_revoke\<close> of \<open>Bafs_Cuda\<close>: the NVIDIA
    driver drops its pin and its DMA mappings and calls \<open>release_bafs_cuda_mem\<close>.
  \<^item> \<open>Bafs_Inv\<close>, \<open>Bafs_Inv_Dev\<close>, \<open>Bafs_Inv_Mem\<close>, \<open>Bafs_System\<close>: the invariant \<open>winv\<close> with one rule of the
    judgement \<open>post\<close> for each operation (collection \<open>wp\<close>), up to all events.
  \<^item> \<open>Bafs_Own\<close>, \<open>Bafs_Held\<close>: who holds the references of a controller. \<open>bal\<close> compares its count with
    its files, its places in groups, its DMA mappings and its PCI binding; the rules in \<open>bl\<close>
    carry the comparison through every operation and event.
  \<^item> \<open>Bafs_Lib\<close>, \<open>Bafs_Lib_Driver\<close>: the library over arbitrary system calls, and on top of the driver.

  \<^bold>\<open>What is proved.\<close> For single operations: what they do on every branch, that a failure undoes
  what was done (or, where the source has a leak, exactly what stays behind), the round trips
  open/close, allocate/release, register/map/unmap, map/unmap for DMA, create/delete, load/unload,
  and the bounds of the page and name arithmetic. For the running system: the invariant of all
  reachable states (live objects are those with a device node, nodes have distinct names and taken
  numbers, contexts are live, no lock stays held), that no pointer to a controller dangles,
  that opening a device always returns, and the refinement of the context functions. For the library: its results match what the driver
  did. Where the code does not do what it means to, the theorem states what it does: deleting a
  group twice or deleting a controller as a group, unloading while a group exists, mapping a handle twice, mapping for DMA what is
  not pinned, the mapping call of the library that passes a handle as a byte offset,
  leaked references and arrays. Theorems on DMA mappings and on unmapping that name CPU memory hold for CPU
  memory only; what the two possible contracts of the NVIDIA driver make of CUDA memory is stated
  separately.

  \<^bold>\<open>Bounds of the model.\<close> An event runs to its end before the next one starts, so interleavings inside
  an operation (two processors in the driver at once) are not covered; locks are modelled, and
  a lock taken twice or held at the end is an error. Reachability is an over-approximation: while the
  module is loaded, mappings may outlive their file. Sleeping under a spin lock, the contents of
  mapped pages, and byte-level layout of user memory (each type of object has its own store) are
  not modelled.

  \<^bold>\<open>Not modelled.\<close> The debug print macros of \<^verbatim>\<open>util.h\<close> and the messages of the library (output only),
  include guards and declarations, and the example programs under \<^verbatim>\<open>src/tests\<close>.
\<close>

end
